(* ===== verification/CK_Prelude.thy ===== *)
theory CK_Prelude
  imports Main "HOL-Library.Word" "HOL-Library.Char_ord" "HOL-Library.List_Lexorder"
begin

text \<open>
  Shared vocabulary of the ContextKit development: the named collections the component
  theories fill, the containers of Qt as the code uses them (a \<open>QSet\<close> is a duplicate-free
  list whose order is the container's iteration order, a \<open>QMap\<close> or \<open>QHash\<close> an
  association list updated in place), and the string operations of \<open>QString\<close> the code calls.
  A string is a list of 8-bit code units; every separator and character class the code tests
  is ASCII.
\<close>

named_theorems ck_defs \<open>definitions unfolded by the component proofs\<close>
named_theorems ck_inv \<open>preservation of the component invariants\<close>

type_synonym key = string

section \<open>Sets as lists in iteration order\<close>

definition qset_insert :: "'a \<Rightarrow> 'a list \<Rightarrow> 'a list" where
  "qset_insert x xs = (if x \<in> set xs then xs else xs @ [x])"

definition qset_remove :: "'a \<Rightarrow> 'a list \<Rightarrow> 'a list" where
  "qset_remove x xs = filter (\<lambda>y. y \<noteq> x) xs"

definition qset_union :: "'a list \<Rightarrow> 'a list \<Rightarrow> 'a list" where
  "qset_union xs ys = fold qset_insert ys xs"

lemma set_qset_insert [simp]: "set (qset_insert x xs) = insert x (set xs)"
  by (auto simp: qset_insert_def)

lemma set_qset_remove [simp]: "set (qset_remove x xs) = set xs - {x}"
  by (auto simp: qset_remove_def)

lemma distinct_qset_insert [simp]: "distinct (qset_insert x xs) = distinct xs"
  by (auto simp: qset_insert_def)

lemma distinct_qset_remove [simp]: "distinct xs \<Longrightarrow> distinct (qset_remove x xs)"
  by (simp add: qset_remove_def)

lemma qset_remove_idle [simp]: "x \<notin> set xs \<Longrightarrow> qset_remove x xs = xs"
  by (induction xs) (auto simp: qset_remove_def)

lemma qset_insert_idle [simp]: "x \<in> set xs \<Longrightarrow> qset_insert x xs = xs"
  by (simp add: qset_insert_def)

lemma qset_remove_Nil [simp]: "qset_remove x [] = []"
  by (simp add: qset_remove_def)

lemma length_qset_insert: "length (qset_insert x xs) = (if x \<in> set xs then length xs else Suc (length xs))"
  by (simp add: qset_insert_def)

lemma length_qset_remove:
  "distinct xs \<Longrightarrow> length (qset_remove x xs) = (if x \<in> set xs then length xs - 1 else length xs)"
proof -
  assume d: "distinct xs"
  then have "length (qset_remove x xs) = card (set xs - {x})"
    by (metis distinct_card distinct_qset_remove set_qset_remove)
  also have "\<dots> = (if x \<in> set xs then length xs - 1 else length xs)"
    using d by (simp add: distinct_card card_Diff_singleton_if)
  finally show ?thesis .
qed

lemma set_fold_qset_insert [simp]: "set (fold qset_insert ys xs) = set xs \<union> set ys"
  by (induction ys arbitrary: xs) auto

lemma distinct_fold_qset_insert [simp]: "distinct (fold qset_insert ys xs) = distinct xs"
  by (induction ys arbitrary: xs) auto

lemma set_qset_union [simp]: "set (qset_union xs ys) = set xs \<union> set ys"
  by (simp add: qset_union_def)

lemma distinct_qset_union [simp]: "distinct (qset_union xs ys) = distinct xs"
  by (simp add: qset_union_def)

lemma qset_remove_eq_Nil_iff [simp]: "qset_remove x xs = [] \<longleftrightarrow> set xs \<subseteq> {x}"
  by (induction xs) (auto simp: qset_remove_def)

lemma qset_insert_not_Nil [simp]: "qset_insert x xs \<noteq> []"
  by (auto simp: qset_insert_def)

section \<open>Maps as association lists\<close>

text \<open>
  \<open>amap_insert\<close> is the update of \<open>QHash\<close> (an existing key keeps its place);
  \<open>smap_insert\<close> is the update of \<open>QMap\<close>, which keeps its entries in key order.
\<close>

fun amap_insert :: "'k \<Rightarrow> 'v \<Rightarrow> ('k \<times> 'v) list \<Rightarrow> ('k \<times> 'v) list" where
  "amap_insert k v [] = [(k, v)]"
| "amap_insert k v ((k', v') # m) = (if k = k' then (k, v) # m else (k', v') # amap_insert k v m)"

fun smap_insert :: "'k::linorder \<Rightarrow> 'v \<Rightarrow> ('k \<times> 'v) list \<Rightarrow> ('k \<times> 'v) list" where
  "smap_insert k v [] = [(k, v)]"
| "smap_insert k v ((k', v') # m) =
     (if k < k' then (k, v) # (k', v') # m
      else if k = k' then (k, v) # m else (k', v') # smap_insert k v m)"

definition amap_remove :: "'k \<Rightarrow> ('k \<times> 'v) list \<Rightarrow> ('k \<times> 'v) list" where
  "amap_remove k m = filter (\<lambda>e. fst e \<noteq> k) m"

definition amap_keys :: "('k \<times> 'v) list \<Rightarrow> 'k list" where
  "amap_keys m = map fst m"

lemma map_of_amap_insert [simp]: "map_of (amap_insert k v m) = (map_of m)(k \<mapsto> v)"
  by (induction k v m rule: amap_insert.induct) (auto simp: fun_eq_iff)

lemma map_of_smap_insert [simp]: "map_of (smap_insert k v m) = (map_of m)(k \<mapsto> v)"
  by (induction k v m rule: smap_insert.induct) (auto simp: fun_eq_iff)

lemma set_smap_insert_subset: "set (smap_insert k v m) \<subseteq> insert (k, v) (set m)"
  by (induction k v m rule: smap_insert.induct) auto

lemma map_of_amap_remove [simp]: "map_of (amap_remove k m) = (map_of m)(k := None)"
  by (induction m) (auto simp: amap_remove_def fun_eq_iff)

lemma set_keys_amap_insert [simp]: "fst ` set (amap_insert k v m) = insert k (fst ` set m)"
  by (induction k v m rule: amap_insert.induct) auto

lemma set_keys_smap_insert [simp]: "fst ` set (smap_insert k v m) = insert k (fst ` set m)"
  by (induction k v m rule: smap_insert.induct) auto

lemma distinct_keys_amap_insert [simp]:
  "distinct (map fst (amap_insert k v m)) = distinct (map fst m)"
  by (induction k v m rule: amap_insert.induct) auto

lemma distinct_keys_amap_remove: "distinct (map fst m) \<Longrightarrow> distinct (map fst (amap_remove k m))"
  by (auto simp: amap_remove_def intro: distinct_map_filter)

lemma smap_insert_sorted:
  "sorted_wrt (<) (map fst m) \<Longrightarrow> sorted_wrt (<) (map fst (smap_insert k v m))"
proof (induction k v m rule: smap_insert.induct)
  case (2 k v k' v' m)
  then show ?case
    by (auto simp: not_less order_le_less)
qed simp

lemma amap_insert_notin: "k \<notin> fst ` set m \<Longrightarrow> amap_insert k v m = m @ [(k, v)]"
  by (induction m) auto

section \<open>Strings\<close>

definition qs_startsWith :: "string \<Rightarrow> string \<Rightarrow> bool" where
  "qs_startsWith s p = (take (length p) s = p)"

definition qs_endsWith :: "string \<Rightarrow> string \<Rightarrow> bool" where
  "qs_endsWith s p = (length p \<le> length s \<and> drop (length s - length p) s = p)"

text \<open>\<open>QString::split(c)\<close> keeps empty parts: the empty string splits into one empty part.\<close>

fun qs_split :: "char \<Rightarrow> string \<Rightarrow> string list" where
  "qs_split c [] = [[]]"
| "qs_split c (x # s) =
     (if x = c then [] # qs_split c s
      else (case qs_split c s of [] \<Rightarrow> [[x]] | p # ps \<Rightarrow> (x # p) # ps))"

lemma qs_split_nonempty [simp]: "qs_split c s \<noteq> []"
  by (cases s) (auto split: list.splits)

lemma qs_split_no_sep: "p \<in> set (qs_split c s) \<Longrightarrow> c \<notin> set p"
  by (induction s arbitrary: p) (fastforce split: if_splits list.splits)+

lemma qs_split_notin: "c \<notin> set s \<Longrightarrow> qs_split c s = [s]"
  by (induction s) auto

lemma qs_split_append: "c \<notin> set s \<Longrightarrow> qs_split c (s @ c # t) = s # qs_split c t"
  by (induction s) auto

lemma qs_split_subset: "p \<in> set (qs_split c s) \<Longrightarrow> x \<in> set p \<Longrightarrow> x \<in> set s"
  by (induction s arbitrary: p) (fastforce split: if_splits list.splits)+

lemma qs_split_append_sep: "qs_split c (s @ c # t) = qs_split c s @ qs_split c t"
  by (induction s) (auto split: list.splits)

lemma qs_split_length: "length (qs_split c s) = Suc (count_list s c)"
  by (induction s) (auto split: list.splits)

definition is_space :: "char \<Rightarrow> bool" where
  "is_space c = (let n = (of_char c :: nat)
                 in (9 \<le> n \<and> n \<le> 13) \<or> n = 32 \<or> n = 133 \<or> n = 160)"

definition is_digit :: "char \<Rightarrow> bool" where
  "is_digit c = (let n = (of_char c :: nat) in 48 \<le> n \<and> n \<le> 57)"

definition is_path_char :: "char \<Rightarrow> bool" where
  "is_path_char c = (let n = (of_char c :: nat)
     in (65 \<le> n \<and> n \<le> 90) \<or> (97 \<le> n \<and> n \<le> 122) \<or> (48 \<le> n \<and> n \<le> 57) \<or> c = CHR ''_'')"

definition qs_trimmed :: "string \<Rightarrow> string" where
  "qs_trimmed s = rev (dropWhile is_space (rev (dropWhile is_space s)))"

text \<open>\<open>QString::simplified\<close>: trimmed, and each inner run of whitespace one space.\<close>

fun squeeze :: "string \<Rightarrow> string" where
  "squeeze [] = []"
| "squeeze [c] = [if is_space c then CHR '' '' else c]"
| "squeeze (c # d # s) =
     (if is_space c \<and> is_space d then squeeze (d # s)
      else (if is_space c then CHR '' '' else c) # squeeze (d # s))"

definition qs_simplified :: "string \<Rightarrow> string" where
  "qs_simplified s = squeeze (qs_trimmed s)"

definition char_lower :: "char \<Rightarrow> char" where
  "char_lower c = (let n = (of_char c :: nat)
     in if 65 \<le> n \<and> n \<le> 90 then char_of (n + 32) else c)"

definition qs_toLower :: "string \<Rightarrow> string" where
  "qs_toLower s = map char_lower s"

lemma qs_startsWith_append [simp]: "qs_startsWith (p @ s) p"
  by (simp add: qs_startsWith_def)

lemma qs_startsWith_Nil [simp]: "qs_startsWith s []"
  by (simp add: qs_startsWith_def)

lemma qs_startsWithE: "qs_startsWith s p \<Longrightarrow> \<exists>t. s = p @ t"
  unfolding qs_startsWith_def by (metis append_take_drop_id)

lemma of_char_ascii: "(of_char c :: nat) < 256"
  by simp

section \<open>Decimal numerals\<close>

definition digit_char :: "nat \<Rightarrow> char" where
  "digit_char d = char_of (48 + d)"

definition char_digit :: "char \<Rightarrow> nat" where
  "char_digit c = of_char c - 48"

fun nat_str :: "nat \<Rightarrow> string" where
  "nat_str n = (if n < 10 then [digit_char n] else nat_str (n div 10) @ [digit_char (n mod 10)])"

declare nat_str.simps [simp del]

definition int_str :: "int \<Rightarrow> string" where
  "int_str i = (if i < 0 then CHR ''-'' # nat_str (nat (- i)) else nat_str (nat i))"

definition str_nat :: "string \<Rightarrow> nat" where
  "str_nat s = foldl (\<lambda>a c. 10 * a + char_digit c) 0 s"

lemma of_char_digit_char: "d < 10 \<Longrightarrow> (of_char (digit_char d) :: nat) = 48 + d"
  by (simp add: digit_char_def)

lemma is_digit_digit_char [simp]: "d < 10 \<Longrightarrow> is_digit (digit_char d)"
  by (simp add: is_digit_def of_char_digit_char)

lemma char_digit_digit_char [simp]: "d < 10 \<Longrightarrow> char_digit (digit_char d) = d"
  by (simp add: char_digit_def of_char_digit_char)

lemma nat_str_nonempty [simp]: "nat_str n \<noteq> []"
  by (subst nat_str.simps) simp

lemma nat_str_digits: "c \<in> set (nat_str n) \<Longrightarrow> is_digit c"
proof (induction n rule: nat_str.induct)
  case (1 n)
  show ?case
  proof (cases "n < 10")
    case True
    with 1 show ?thesis by (simp add: nat_str.simps [of n])
  next
    case False
    with 1 show ?thesis by (auto simp: nat_str.simps [of n])
  qed
qed

lemma str_nat_snoc: "str_nat (s @ [c]) = 10 * str_nat s + char_digit c"
  by (simp add: str_nat_def)

lemma str_nat_nat_str [simp]: "str_nat (nat_str n) = n"
proof (induction n rule: nat_str.induct)
  case (1 n)
  show ?case
  proof (cases "n < 10")
    case True
    then show ?thesis by (simp add: nat_str.simps [of n] str_nat_def)
  next
    case False
    with 1 show ?thesis by (simp add: nat_str.simps [of n] str_nat_snoc)
  qed
qed

end
