(* ===== verification/Interfaces.thy ===== *)
theory Interfaces
  imports CK_Prelude
begin

text \<open>
  How the components run, and the contracts they share. A component is a step function from
  an event and a state to the next state and what it emits; \<open>ev_run\<close> feeds it a sequence
  of events. \<open>edge_signal\<close> is the contract of every \<^emph>\<open>level with change notification\<close> of
  the program (presence of a D-Bus name, first and last subscriber of a property or group);
  \<open>once_queue\<close> is the contract of the queue of deferred calls.
\<close>

fun ev_run :: "('e \<Rightarrow> 's \<Rightarrow> 's \<times> 'o list) \<Rightarrow> 'e list \<Rightarrow> 's \<Rightarrow> 's \<times> 'o list" where
  "ev_run f [] s = (s, [])"
| "ev_run f (e # es) s =
     (case f e s of (s1, o1) \<Rightarrow> case ev_run f es s1 of (s2, o2) \<Rightarrow> (s2, o1 @ o2))"

lemma ev_run_append: "ev_run f (es @ es') s =
    (case ev_run f es s of (s1, o1) \<Rightarrow> case ev_run f es' s1 of (s2, o2) \<Rightarrow> (s2, o1 @ o2))"
  by (induction es arbitrary: s) (auto split: prod.splits)

lemma ev_run_inv:
  assumes "\<And>e s. P s \<Longrightarrow> e \<in> set es \<Longrightarrow> P (fst (f e s))" and "P s"
  shows "P (fst (ev_run f es s))"
  using assms
proof (induction es arbitrary: s)
  case (Cons e es)
  have "P (fst (f e s))" using Cons.prems by simp
  then have "P (fst (ev_run f es (fst (f e s))))" using Cons.prems by (intro Cons.IH) auto
  then show ?case by (auto split: prod.splits)
qed simp

section \<open>Edge-triggered signals\<close>

locale edge_signal =
  fixes level :: "'s \<Rightarrow> 'l"
    and step :: "'e \<Rightarrow> 's \<Rightarrow> 's \<times> 'o list"
    and announced :: "'o \<Rightarrow> 'l option"
    and wf :: "'s \<Rightarrow> bool"
  assumes step_wf: "wf s \<Longrightarrow> wf (fst (step e s))"
    and step_edge: "wf s \<Longrightarrow> step e s = (s', os) \<Longrightarrow>
      List.map_filter announced os = (if level s' = level s then [] else [level s'])"
begin

lemma run_wf: "wf s \<Longrightarrow> wf (fst (ev_run step es s))"
  by (rule ev_run_inv) (simp_all add: step_wf)

lemma run_level: "wf s \<Longrightarrow> ev_run step es s = (s', os) \<Longrightarrow>
    last (level s # List.map_filter announced os) = level s'"
proof (induction es arbitrary: s os)
  case (Cons e es)
  obtain s1 o1 where 1: "step e s = (s1, o1)" by (cases "step e s")
  obtain o2 where 2: "ev_run step es s1 = (s', o2)" "os = o1 @ o2"
    using Cons.prems(2) 1 by (auto split: prod.splits)
  have "wf s1" using step_wf [OF Cons.prems(1), of e] 1 by simp
  then have "last (level s1 # List.map_filter announced o2) = level s'" using Cons.IH 2 by blast
  then show ?case
    using step_edge [OF Cons.prems(1) 1] 2(2) by (auto simp: map_filter_def split: if_splits)
qed (auto simp: map_filter_def)

lemma run_alternates: "wf s \<Longrightarrow> ev_run step es s = (s', os) \<Longrightarrow>
    successively (\<noteq>) (level s # List.map_filter announced os)"
proof (induction es arbitrary: s os)
  case (Cons e es)
  obtain s1 o1 where 1: "step e s = (s1, o1)" by (cases "step e s")
  obtain o2 where 2: "ev_run step es s1 = (s', o2)" "os = o1 @ o2"
    using Cons.prems(2) 1 by (auto split: prod.splits)
  have "wf s1" using step_wf [OF Cons.prems(1), of e] 1 by simp
  then have "successively (\<noteq>) (level s1 # List.map_filter announced o2)" using Cons.IH 2 by blast
  then show ?case
    using step_edge [OF Cons.prems(1) 1] 2(2) by (auto simp: map_filter_def split: if_splits)
qed (auto simp: map_filter_def)

end

section \<open>Queues of deferred calls\<close>

locale once_queue =
  fixes enq :: "'m \<Rightarrow> 'q \<Rightarrow> 'q"
    and deq :: "'q \<Rightarrow> 'q \<times> 'm list"
    and posted :: "'q \<Rightarrow> 'm list"
    and wf :: "'q \<Rightarrow> bool"
  assumes enq_wf: "wf q \<Longrightarrow> wf (enq m q)"
    and deq_wf: "wf q \<Longrightarrow> wf (fst (deq q))"
    and wf_distinct: "wf q \<Longrightarrow> distinct (posted q)"
    and posted_enq: "wf q \<Longrightarrow> posted (enq m q) = qset_insert m (posted q)"
    and posted_deq: "wf q \<Longrightarrow> deq q = (q', ms) \<Longrightarrow> posted q = ms @ posted q'"
begin

definition step :: "'m option \<Rightarrow> 'q \<Rightarrow> 'q \<times> 'm list" where
  "step e q = (case e of None \<Rightarrow> deq q | Some m \<Rightarrow> (enq m q, []))"

lemma step_wf: "wf q \<Longrightarrow> wf (fst (step e q))"
  by (auto simp: step_def enq_wf deq_wf split: option.splits)

lemma kept: "wf q \<Longrightarrow> m \<in> set (posted q) \<Longrightarrow> ev_run step es q = (q', ms) \<Longrightarrow>
    m \<in> set ms \<or> m \<in> set (posted q')"
proof (induction es arbitrary: q ms)
  case (Cons e es)
  obtain q1 m1 where 1: "step e q = (q1, m1)" by (cases "step e q")
  obtain m2 where 2: "ev_run step es q1 = (q', m2)" "ms = m1 @ m2"
    using Cons.prems(3) 1 by (auto split: prod.splits)
  have wf1: "wf q1" using step_wf [OF Cons.prems(1), of e] 1 by simp
  have "m \<in> set m1 \<or> m \<in> set (posted q1)"
  proof (cases e)
    case None
    with 1 have "deq q = (q1, m1)" by (simp add: step_def)
    then show ?thesis using posted_deq [OF Cons.prems(1)] Cons.prems(2) by auto
  next
    case (Some x)
    with 1 Cons.prems show ?thesis by (auto simp: step_def posted_enq)
  qed
  then show ?case using Cons.IH [OF wf1] 2 by auto
qed simp

lemma requested: "wf q \<Longrightarrow> ev_run step (Some m # es) q = (q', ms) \<Longrightarrow>
    m \<in> set ms \<or> m \<in> set (posted q')"
  using kept [OF enq_wf [of q m], of m es q' ms]
  by (auto simp: step_def posted_enq split: prod.splits)

lemma conserved: "wf q \<Longrightarrow> ev_run step es q = (q', ms) \<Longrightarrow>
    count_list ms m + count_list (posted q') m \<le> count_list (posted q) m + count_list es (Some m)"
proof (induction es arbitrary: q ms)
  case (Cons e es)
  obtain q1 m1 where 1: "step e q = (q1, m1)" by (cases "step e q")
  obtain m2 where 2: "ev_run step es q1 = (q', m2)" "ms = m1 @ m2"
    using Cons.prems(2) 1 by (auto split: prod.splits)
  have wf1: "wf q1" using step_wf [OF Cons.prems(1), of e] 1 by simp
  have "count_list m1 m + count_list (posted q1) m \<le> count_list (posted q) m + (if e = Some m then 1 else 0)"
  proof (cases e)
    case None
    with 1 have "deq q = (q1, m1)" by (simp add: step_def)
    then show ?thesis using posted_deq [OF Cons.prems(1)] None by simp
  next
    case (Some x)
    with 1 Cons.prems(1) show ?thesis by (auto simp: step_def posted_enq qset_insert_def)
  qed
  then show ?case using Cons.IH [OF wf1 2(1)] 2(2) by auto
qed simp

end

end
