(* ===== verification/Queued_Invoker.thy ===== *)
theory Queued_Invoker
  imports Interfaces
begin

text \<open>
  \<open>QueuedInvoker\<close> (queuedinvoker.cpp): methods to be called from the event loop, each at most
  once per run. \<open>qi_posted\<close> is the queued \<open>queuedCall\<close> signals in the order the event
  loop delivers them; a delivery takes the method out of \<open>callQueue\<close> and invokes it.
\<close>

record invoker =
  callQueue :: "string list"
  qi_posted :: "string list"

definition qi_new :: invoker where
  "qi_new = \<lparr>callQueue = [], qi_posted = []\<rparr>"

definition queueOnce :: "string \<Rightarrow> invoker \<Rightarrow> invoker" where
  "queueOnce method q =
     (if method \<notin> set (callQueue q)
      then q\<lparr>callQueue := qset_insert method (callQueue q), qi_posted := qi_posted q @ [method]\<rparr>
      else q)"

text \<open>The event loop delivers the first posted call; the result names the method it invokes.\<close>

definition onQueuedCall :: "invoker \<Rightarrow> invoker \<times> string list" where
  "onQueuedCall q = (case qi_posted q of
      [] \<Rightarrow> (q, [])
    | method # rest \<Rightarrow> (q\<lparr>callQueue := qset_remove method (callQueue q), qi_posted := rest\<rparr>, [method]))"

definition qi_ok :: "invoker \<Rightarrow> bool" where
  "qi_ok q = (distinct (qi_posted q) \<and> set (qi_posted q) = set (callQueue q))"

definition qi_step :: "string option \<Rightarrow> invoker \<Rightarrow> invoker \<times> string list" where
  "qi_step e q = (case e of None \<Rightarrow> onQueuedCall q | Some m \<Rightarrow> (queueOnce m q, []))"

lemma qi_ok_new [simp, ck_inv]: "qi_ok qi_new"
  by (simp add: qi_ok_def qi_new_def)

lemma qi_ok_queueOnce [simp, ck_inv]: "qi_ok q \<Longrightarrow> qi_ok (queueOnce m q)"
  by (auto simp: qi_ok_def queueOnce_def)

lemma qi_ok_onQueuedCall [simp, ck_inv]: "qi_ok q \<Longrightarrow> qi_ok (fst (onQueuedCall q))"
  by (cases q; cases "qi_posted q") (simp_all add: qi_ok_def onQueuedCall_def, blast)

lemma posted_queueOnce [simp]: "qi_ok q \<Longrightarrow> qi_posted (queueOnce m q) = qset_insert m (qi_posted q)"
  by (auto simp: qi_ok_def queueOnce_def qset_insert_def)

interpretation qi: once_queue queueOnce onQueuedCall qi_posted qi_ok
proof unfold_locales
  show "distinct (qi_posted q)" if "qi_ok q" for q using that by (simp add: qi_ok_def)
  show "qi_posted q = ms @ qi_posted q'" if "qi_ok q" "onQueuedCall q = (q', ms)" for q q' ms
    using that(2) by (cases "qi_posted q") (auto simp: onQueuedCall_def)
qed simp_all

lemma qi_step_eq: "qi.step = qi_step"
  by (intro ext) (simp add: qi.step_def qi_step_def)

text \<open>C23: whatever the interleaving of requests and event loop turns, a requested method is
  invoked after the request or is still posted, never twice for one request, and never posted
  twice.\<close>

theorem queueOnce_exactly_once:
  assumes "ev_run qi_step (es @ Some m # es') qi_new = (q, calls)"
  shows "distinct (qi_posted q) \<and>
    (m \<in> set (snd (ev_run qi_step (Some m # es') (fst (ev_run qi_step es qi_new)))) \<or> m \<in> set (qi_posted q)) \<and>
    count_list calls m + count_list (qi_posted q) m \<le> count_list (es @ Some m # es') (Some m)"
proof (intro conjI)
  let ?q = "fst (ev_run qi_step es qi_new)"
  have ok: "qi_ok ?q"
    by (rule ev_run_inv) (simp_all add: qi.step_wf [unfolded qi_step_eq])
  have q: "q = fst (ev_run qi_step (Some m # es') ?q)"
    using assms by (auto simp: ev_run_append split: prod.splits)
  have "qi_ok q" unfolding q
    by (rule ev_run_inv [where P = qi_ok]) (simp_all add: qi.step_wf [unfolded qi_step_eq] ok)
  then show "distinct (qi_posted q)" by (simp add: qi_ok_def)
  show "m \<in> set (snd (ev_run qi_step (Some m # es') ?q)) \<or> m \<in> set (qi_posted q)"
    using qi.requested [unfolded qi_step_eq, OF ok, of m es'] q by (metis prod.collapse)
  show "count_list calls m + count_list (qi_posted q) m \<le> count_list (es @ Some m # es') (Some m)"
    using qi.conserved [unfolded qi_step_eq, OF qi_ok_new assms, of m] by (simp add: qi_new_def)
qed

lemma queueOnce_exactly_once_witness:
  "distinct (qi_posted (fst (ev_run qi_step ([Some ''h''] @ Some ''h'' # [None, Some ''g'']) qi_new)))"
proof -
  have "ev_run qi_step ([Some ''h''] @ Some ''h'' # [None, Some ''g'']) qi_new =
      (\<lparr>callQueue = [''g''], qi_posted = [''g'']\<rparr>, [''h''])"
    by code_simp
  from queueOnce_exactly_once [OF this] show ?thesis
    by (simp only: \<open>ev_run _ _ _ = _\<close> fst_conv)
qed

end
