(* ===== verification/Name_Listener.thy ===== *)
theory Name_Listener
  imports Interfaces
begin

text \<open>
  \<open>DBusNameListener\<close> (dbusnamelistener.cpp): presence of one D-Bus service name, as reported
  by the service watcher and by the reply of an optional \<open>NameHasOwner\<close> query. What D-Bus
  answers is the argument of the events.
\<close>

datatype service_presence = NotPresent | Present | Unknown

datatype bus_type = SessionBus | SystemBus | ActivationBus

record name_listener =
  servicePresent :: service_presence
  nl_busType :: bus_type
  nl_busName :: string
  listeningStarted :: bool
  nl_connection :: "bus_type option"
  nl_watching :: bool

datatype nl_out = NameAppeared | NameDisappeared | NameHasOwnerCall string

definition nl_of_busType :: "bus_type \<Rightarrow> string \<Rightarrow> name_listener" where
  "nl_of_busType bt name = \<lparr>servicePresent = Unknown, nl_busType = bt, nl_busName = name,
     listeningStarted = False, nl_connection = None, nl_watching = False\<rparr>"

definition nl_of_connection :: "bus_type \<Rightarrow> string \<Rightarrow> name_listener" where
  "nl_of_connection bus name = \<lparr>servicePresent = Unknown, nl_busType = bus, nl_busName = name,
     listeningStarted = False, nl_connection = Some bus, nl_watching = False\<rparr>"

definition setServicePresent :: "name_listener \<Rightarrow> name_listener \<times> nl_out list" where
  "setServicePresent l =
     (if servicePresent l \<noteq> Present then (l\<lparr>servicePresent := Present\<rparr>, [NameAppeared]) else (l, []))"

definition setServiceGone :: "name_listener \<Rightarrow> name_listener \<times> nl_out list" where
  "setServiceGone l =
     (if servicePresent l \<noteq> NotPresent then (l\<lparr>servicePresent := NotPresent\<rparr>, [NameDisappeared])
      else (l, []))"

definition startListening :: "bool \<Rightarrow> bool \<Rightarrow> name_listener \<Rightarrow> name_listener \<times> nl_out list" where
  "startListening isConnected nameHasOwnerCheck l =
     (if listeningStarted l then (l, [])
      else
        let l1 = l\<lparr>listeningStarted := True\<rparr>;
            conn = (case nl_connection l1 of Some c \<Rightarrow> Some c
                    | None \<Rightarrow> if nl_busType l1 \<in> {SystemBus, SessionBus} then Some (nl_busType l1) else None)
        in case conn of
             None \<Rightarrow> (l1, [])
           | Some c \<Rightarrow>
               let l2 = l1\<lparr>nl_connection := Some c, nl_watching := True\<rparr>
               in if nameHasOwnerCheck then
                    if \<not> isConnected then setServiceGone l2 else (l2, [NameHasOwnerCall (nl_busName l2)])
                  else (l2, []))"

text \<open>The reply: \<open>None\<close> an error, otherwise whether the name has an owner.\<close>

definition onNameHasOwnerFinished :: "bool option \<Rightarrow> name_listener \<Rightarrow> name_listener \<times> nl_out list" where
  "onNameHasOwnerFinished reply l = (if reply = Some True then setServicePresent l else setServiceGone l)"

definition isServicePresent :: "name_listener \<Rightarrow> service_presence" where
  "isServicePresent l = servicePresent l"

datatype nl_event = NLStart bool bool | NLRegistered | NLUnregistered | NLReply "bool option"

fun nl_step :: "nl_event \<Rightarrow> name_listener \<Rightarrow> name_listener \<times> nl_out list" where
  "nl_step (NLStart isConnected check) l = startListening isConnected check l"
| "nl_step NLRegistered l = setServicePresent l"
| "nl_step NLUnregistered l = setServiceGone l"
| "nl_step (NLReply r) l = onNameHasOwnerFinished r l"

fun nl_announced :: "nl_out \<Rightarrow> service_presence option" where
  "nl_announced NameAppeared = Some Present"
| "nl_announced NameDisappeared = Some NotPresent"
| "nl_announced (NameHasOwnerCall _) = None"

lemmas nl_defs = setServicePresent_def setServiceGone_def startListening_def
  onNameHasOwnerFinished_def isServicePresent_def

interpretation presence: edge_signal servicePresent nl_step nl_announced "\<lambda>_. True"
proof unfold_locales
  show "List.map_filter nl_announced os = (if servicePresent l' = servicePresent l then [] else [servicePresent l'])"
    if "nl_step e l = (l', os)" for l e l' os
    using that by (cases e) (auto simp: nl_defs Let_def map_filter_def split: if_splits option.splits)
qed simp

text \<open>C24: the signals of a listener alternate between appeared and disappeared, and the last
  one agrees with what \<open>isServicePresent\<close> answers.\<close>

theorem presence_signals_alternate:
  assumes "ev_run nl_step es (nl_of_busType bt name) = (l, os)"
  shows "distinct_adj (List.map_filter nl_announced os) \<and>
    last (Unknown # List.map_filter nl_announced os) = isServicePresent l"
  using presence.run_level [OF _ assms] presence.run_alternates [OF _ assms]
  by (cases "List.map_filter nl_announced os") (simp_all add: nl_of_busType_def nl_defs distinct_adj_def)

lemma presence_signals_alternate_witness:
  "distinct_adj (List.map_filter nl_announced [NameHasOwnerCall ''x'', NameAppeared, NameDisappeared])"
proof -
  have "ev_run nl_step [NLStart True True, NLReply (Some True), NLRegistered, NLUnregistered]
      (nl_of_busType SessionBus ''x'') =
      (\<lparr>servicePresent = NotPresent, nl_busType = SessionBus, nl_busName = ''x'', listeningStarted = True,
        nl_connection = Some SessionBus, nl_watching = True\<rparr>,
       [NameHasOwnerCall ''x'', NameAppeared, NameDisappeared])"
    by code_simp
  from presence_signals_alternate [OF this] show ?thesis by blast
qed

text \<open>An initial check on a bus the program can open always settles the presence: at once
  when the bus is down, and with the reply otherwise, whatever the reply is.\<close>

lemma initial_check_settles:
  assumes "bt \<noteq> ActivationBus"
  shows "(\<not> connected \<longrightarrow> (case startListening connected True (nl_of_busType bt name) of
            (l, os) \<Rightarrow> isServicePresent l = NotPresent \<and> os = [NameDisappeared])) \<and>
     (connected \<longrightarrow> (case ev_run nl_step [NLStart True True, NLReply r] (nl_of_busType bt name) of
            (l, os) \<Rightarrow> isServicePresent l \<noteq> Unknown \<and> hd os = NameHasOwnerCall name \<and>
              tl os = [if r = Some True then NameAppeared else NameDisappeared]))"
  using assms by (cases bt) (auto simp: nl_defs nl_of_busType_def Let_def)

lemma initial_check_settles_witness:
  "case ev_run nl_step [NLStart True True, NLReply None] (nl_of_busType SystemBus ''c'') of
     (l, os) \<Rightarrow> isServicePresent l \<noteq> Unknown"
  using initial_check_settles [of SystemBus True "''c''" None] by (auto split: prod.splits)

end
