(* ===== verification/Qt_Variant.thy ===== *)
theory Qt_Variant
  imports CK_Prelude
begin

text \<open>
  The value type of the program. Every context property value, every node of a registry
  tree and every type description is a \<open>QVariant\<close>; \<open>TimedValue\<close> pairs one with the
  nanosecond clock. Integers keep their width, doubles are their 64-bit IEEE patterns.
  What the code relies on of Qt beyond that (printing and parsing of doubles, comparison of
  variants of different types) is the parameter record \<open>qt_lib\<close>; \<open>qt_ref\<close> is
  one concrete instance.
\<close>

datatype vtype = TInvalid | TBool | TInt | TUInt | TLongLong | TULongLong | TDouble
  | TString | TList | TMap | THash | TDBusArgument

datatype qvariant =
    VInvalid
  | VNull vtype
  | VBool bool
  | VInt "32 word"
  | VUInt "32 word"
  | VLongLong "64 word"
  | VULongLong "64 word"
  | VDouble "64 word"
  | VString string
  | VList "qvariant list"
  | VMap "(string \<times> qvariant) list"
  | VHash "(string \<times> qvariant) list"
  | VArgArray "qvariant list"
  | VArgMap "(string \<times> qvariant) list"
  | VArgOther nat

fun qv_type :: "qvariant \<Rightarrow> vtype" where
  "qv_type VInvalid = TInvalid"
| "qv_type (VNull t) = t"
| "qv_type (VBool _) = TBool"
| "qv_type (VInt _) = TInt"
| "qv_type (VUInt _) = TUInt"
| "qv_type (VLongLong _) = TLongLong"
| "qv_type (VULongLong _) = TULongLong"
| "qv_type (VDouble _) = TDouble"
| "qv_type (VString _) = TString"
| "qv_type (VList _) = TList"
| "qv_type (VMap _) = TMap"
| "qv_type (VHash _) = THash"
| "qv_type (VArgArray _) = TDBusArgument"
| "qv_type (VArgMap _) = TDBusArgument"
| "qv_type (VArgOther _) = TDBusArgument"

fun qv_isNull :: "qvariant \<Rightarrow> bool" where
  "qv_isNull VInvalid = True"
| "qv_isNull (VNull _) = True"
| "qv_isNull _ = False"

definition qv_isValid :: "qvariant \<Rightarrow> bool" where
  "qv_isValid v = (qv_type v \<noteq> TInvalid)"

section \<open>Doubles as IEEE bit patterns\<close>

definition dbl_nan :: "64 word \<Rightarrow> bool" where
  "dbl_nan w = (uint w mod 2 ^ 63 > 0x7FF0000000000000)"

definition dbl_key :: "64 word \<Rightarrow> int" where
  "dbl_key w = (if uint w < 2 ^ 63 then uint w else - (uint w - 2 ^ 63))"

definition dbl_lt :: "64 word \<Rightarrow> 64 word \<Rightarrow> bool" where
  "dbl_lt a b = (\<not> dbl_nan a \<and> \<not> dbl_nan b \<and> dbl_key a < dbl_key b)"

definition dbl_eq :: "64 word \<Rightarrow> 64 word \<Rightarrow> bool" where
  "dbl_eq a b = (\<not> dbl_nan a \<and> \<not> dbl_nan b \<and> dbl_key a = dbl_key b)"

lemma dbl_lt_irrefl [simp]: "\<not> dbl_lt a a"
  by (simp add: dbl_lt_def)

lemma dbl_lt_trans: "dbl_lt a b \<Longrightarrow> dbl_lt b c \<Longrightarrow> dbl_lt a c"
  by (simp add: dbl_lt_def)

lemma dbl_eq_refl_iff [simp]: "dbl_eq a a \<longleftrightarrow> \<not> dbl_nan a"
  by (simp add: dbl_eq_def)

lemma dbl_eq_sym: "dbl_eq a b \<longleftrightarrow> dbl_eq b a"
  by (auto simp: dbl_eq_def)

section \<open>The parameters of Qt\<close>

record qt_lib =
  qDoubleStr :: "64 word \<Rightarrow> string"
  qStrDouble :: "string \<Rightarrow> 64 word"
  qIntDouble :: "int \<Rightarrow> 64 word"
  qStrInt :: "string \<Rightarrow> 32 word"
  qDoubleInt :: "64 word \<Rightarrow> 32 word"
  qMixedEq :: "qvariant \<Rightarrow> qvariant \<Rightarrow> bool"

text \<open>
  One concrete instance for evaluation: integers are converted exactly up to 53 bits, decimal
  numerals are read as integers, doubles print as their truncated integer part, and variants
  of different types are never equal.
\<close>

fun int_log2 :: "nat \<Rightarrow> nat" where
  "int_log2 n = (if n < 2 then 0 else Suc (int_log2 (n div 2)))"

declare int_log2.simps [simp del]

definition ref_nat_double :: "nat \<Rightarrow> int" where
  "ref_nat_double n =
     (if n = 0 then 0
      else let e = int_log2 n
           in (int e + 1023) * 2 ^ 52 + (int n - 2 ^ e) * 2 ^ (52 - e))"

definition ref_int_double :: "int \<Rightarrow> 64 word" where
  "ref_int_double i =
     word_of_int ((if i < 0 then 2 ^ 63 else 0) + ref_nat_double (nat \<bar>i\<bar>))"

definition ref_str_int :: "string \<Rightarrow> int" where
  "ref_str_int s =
     (case s of [] \<Rightarrow> 0
      | c # t \<Rightarrow> if c = CHR ''-'' then (if t \<noteq> [] \<and> list_all is_digit t then - int (str_nat t) else 0)
                else if list_all is_digit s then int (str_nat s) else 0)"

definition ref_double_int :: "64 word \<Rightarrow> int" where
  "ref_double_int d =
     (let m = uint d mod 2 ^ 63; e = m div 2 ^ 52; f = m mod 2 ^ 52 + 2 ^ 52;
          a = (if e < 1023 then 0 else if e \<le> 1075 then f div 2 ^ nat (1075 - e) else f * 2 ^ nat (e - 1075))
      in if uint d < 2 ^ 63 then a else - a)"

definition qt_ref :: qt_lib where
  "qt_ref = \<lparr>
     qDoubleStr = (\<lambda>d. int_str (ref_double_int d)),
     qStrDouble = (\<lambda>s. ref_int_double (ref_str_int s)),
     qIntDouble = ref_int_double,
     qStrInt = (\<lambda>s. word_of_int (ref_str_int s)),
     qDoubleInt = (\<lambda>d. word_of_int (ref_double_int d)),
     qMixedEq = (\<lambda>_ _. False)\<rparr>"

text \<open>What the code relies on: a valid variant never equals the invalid one.\<close>

definition qt_ok :: "qt_lib \<Rightarrow> bool" where
  "qt_ok Q = (\<forall>v. qv_type v \<noteq> TInvalid \<longrightarrow> \<not> qMixedEq Q v VInvalid)"

lemma qt_ok_ref [simp]: "qt_ok qt_ref"
  by (simp add: qt_ok_def qt_ref_def)

section \<open>Conversions\<close>

text \<open>The default-constructed data behind a typed null variant.\<close>

fun qv_data :: "qvariant \<Rightarrow> qvariant" where
  "qv_data (VNull TBool) = VBool False"
| "qv_data (VNull TInt) = VInt 0"
| "qv_data (VNull TUInt) = VUInt 0"
| "qv_data (VNull TLongLong) = VLongLong 0"
| "qv_data (VNull TULongLong) = VULongLong 0"
| "qv_data (VNull TDouble) = VDouble 0"
| "qv_data (VNull TString) = VString []"
| "qv_data (VNull TList) = VList []"
| "qv_data (VNull TMap) = VMap []"
| "qv_data (VNull THash) = VHash []"
| "qv_data v = v"

text \<open>
  \<open>QVariant::toString\<close>; \<open>None\<close> is the null \<open>QString\<close>, which prints and compares
  as the empty string but makes a null variant when it is stored again.
\<close>

fun qv_toQString :: "qt_lib \<Rightarrow> qvariant \<Rightarrow> string option" where
  "qv_toQString Q v =
     (if v = VNull TString then None
      else case qv_data v of
        VString s \<Rightarrow> Some s
      | VBool b \<Rightarrow> Some (if b then ''true'' else ''false'')
      | VInt w \<Rightarrow> Some (int_str (sint w))
      | VUInt w \<Rightarrow> Some (int_str (uint w))
      | VLongLong w \<Rightarrow> Some (int_str (sint w))
      | VULongLong w \<Rightarrow> Some (int_str (uint w))
      | VDouble d \<Rightarrow> Some (qDoubleStr Q d)
      | _ \<Rightarrow> None)"

definition qs_str :: "string option \<Rightarrow> string" where
  "qs_str q = (case q of None \<Rightarrow> [] | Some s \<Rightarrow> s)"

definition qs_variant :: "string option \<Rightarrow> qvariant" where
  "qs_variant q = (case q of None \<Rightarrow> VNull TString | Some s \<Rightarrow> VString s)"

definition qv_toString :: "qt_lib \<Rightarrow> qvariant \<Rightarrow> string" where
  "qv_toString Q v = qs_str (qv_toQString Q v)"

fun qv_toList :: "qvariant \<Rightarrow> qvariant list" where
  "qv_toList (VList xs) = xs"
| "qv_toList _ = []"

fun qv_toMap :: "qvariant \<Rightarrow> (string \<times> qvariant) list" where
  "qv_toMap (VMap m) = m"
| "qv_toMap _ = []"

fun qv_toHash :: "qvariant \<Rightarrow> (string \<times> qvariant) list" where
  "qv_toHash (VHash m) = m"
| "qv_toHash _ = []"

definition qv_canDouble :: "qvariant \<Rightarrow> bool" where
  "qv_canDouble v = (qv_type v \<in> {TBool, TInt, TUInt, TLongLong, TULongLong, TDouble, TString})"

definition qv_toDouble :: "qt_lib \<Rightarrow> qvariant \<Rightarrow> 64 word" where
  "qv_toDouble Q v = (case qv_data v of
      VBool b \<Rightarrow> qIntDouble Q (of_bool b)
    | VInt w \<Rightarrow> qIntDouble Q (sint w)
    | VUInt w \<Rightarrow> qIntDouble Q (uint w)
    | VLongLong w \<Rightarrow> qIntDouble Q (sint w)
    | VULongLong w \<Rightarrow> qIntDouble Q (uint w)
    | VDouble d \<Rightarrow> d
    | VString s \<Rightarrow> qStrDouble Q s
    | _ \<Rightarrow> 0)"

definition qv_toInt :: "qt_lib \<Rightarrow> qvariant \<Rightarrow> 32 word" where
  "qv_toInt Q v = (case qv_data v of
      VBool b \<Rightarrow> of_bool b
    | VInt w \<Rightarrow> w
    | VUInt w \<Rightarrow> w
    | VLongLong w \<Rightarrow> ucast w
    | VULongLong w \<Rightarrow> ucast w
    | VDouble d \<Rightarrow> qDoubleInt Q d
    | VString s \<Rightarrow> qStrInt Q s
    | _ \<Rightarrow> 0)"

definition qv_toBool :: "qvariant \<Rightarrow> bool" where
  "qv_toBool v = (case qv_data v of
      VBool b \<Rightarrow> b
    | VInt w \<Rightarrow> w \<noteq> 0
    | VUInt w \<Rightarrow> w \<noteq> 0
    | VLongLong w \<Rightarrow> w \<noteq> 0
    | VULongLong w \<Rightarrow> w \<noteq> 0
    | VDouble d \<Rightarrow> \<not> dbl_eq d 0
    | VString s \<Rightarrow> s \<noteq> [] \<and> s \<noteq> ''0'' \<and> qs_toLower s \<noteq> ''false''
    | _ \<Rightarrow> False)"

section \<open>Equality of variants\<close>

text \<open>
  \<open>QVariant::operator==\<close>: variants of one type compare by value (a typed null by its
  default data), lists and maps element by element; everything else is Qt's own conversion
  and is left to \<open>qMixedEq\<close>.
\<close>

definition qv_scalar_eq :: "qvariant \<Rightarrow> qvariant \<Rightarrow> bool" where
  "qv_scalar_eq a b = (case (a, b) of (VDouble x, VDouble y) \<Rightarrow> dbl_eq x y | _ \<Rightarrow> a = b)"

definition qv_other_eq :: "qt_lib \<Rightarrow> qvariant \<Rightarrow> qvariant \<Rightarrow> bool" where
  "qv_other_eq Q a b =
     (if qv_type a \<noteq> qv_type b \<or> qv_type a \<in> {TDBusArgument, THash} then qMixedEq Q a b
      else qv_scalar_eq (qv_data a) (qv_data b))"

fun qv_eq :: "qt_lib \<Rightarrow> qvariant \<Rightarrow> qvariant \<Rightarrow> bool"
  and qv_list_eq :: "qt_lib \<Rightarrow> qvariant list \<Rightarrow> qvariant list \<Rightarrow> bool"
  and qv_map_eq :: "qt_lib \<Rightarrow> (string \<times> qvariant) list \<Rightarrow> (string \<times> qvariant) list \<Rightarrow> bool" where
  "qv_eq Q (VList xs) b = (case b of VList ys \<Rightarrow> qv_list_eq Q xs ys | _ \<Rightarrow> qv_other_eq Q (VList xs) b)"
| "qv_eq Q (VMap xs) b = (case b of VMap ys \<Rightarrow> qv_map_eq Q xs ys | _ \<Rightarrow> qv_other_eq Q (VMap xs) b)"
| "qv_eq Q a b = qv_other_eq Q a b"
| "qv_list_eq Q [] ys = (ys = [])"
| "qv_list_eq Q (x # xs) ys = (case ys of [] \<Rightarrow> False | y # ys' \<Rightarrow> qv_eq Q x y \<and> qv_list_eq Q xs ys')"
| "qv_map_eq Q [] ys = (ys = [])"
| "qv_map_eq Q ((k, x) # xs) ys =
     (case ys of [] \<Rightarrow> False | (l, y) # ys' \<Rightarrow> k = l \<and> qv_eq Q x y \<and> qv_map_eq Q xs ys')"

lemma qv_toString_VString [simp]: "qv_toString Q (VString s) = s"
  by (simp add: qv_toString_def qs_str_def)

lemma qv_other_eq_string [simp]: "qv_other_eq Q (VString a) (VString b) \<longleftrightarrow> a = b"
  by (simp add: qv_other_eq_def qv_scalar_eq_def)

lemma qv_eq_string [simp]: "qv_eq Q (VString a) (VString b) \<longleftrightarrow> a = b"
  by (simp add: qv_other_eq_def qv_scalar_eq_def)

text \<open>
  The comparison the code makes before it announces a new value: the value, the nullness or
  the type differs.
\<close>

definition qv_differs :: "qt_lib \<Rightarrow> qvariant \<Rightarrow> qvariant \<Rightarrow> bool" where
  "qv_differs Q a b = (\<not> qv_eq Q a b \<or> qv_isNull a \<noteq> qv_isNull b \<or> qv_type a \<noteq> qv_type b)"

lemma qv_differs_type: "\<not> qv_differs Q a b \<Longrightarrow> qv_type a = qv_type b"
  and qv_differs_null: "\<not> qv_differs Q a b \<Longrightarrow> qv_isNull a = qv_isNull b"
  by (simp_all add: qv_differs_def)

lemma qv_isNull_type_eq: "qv_isNull a \<Longrightarrow> qv_isNull b \<Longrightarrow> qv_type a = qv_type b \<Longrightarrow>
  a = b \<or> {a, b} = {VInvalid, VNull TInvalid}"
  by (cases a; cases b) auto

text \<open>The variants whose comparison with themselves says equal: no NaN inside, and no hash.\<close>

fun qv_reflexive :: "qvariant \<Rightarrow> bool" where
  "qv_reflexive (VDouble d) = (\<not> dbl_nan d)"
| "qv_reflexive (VList xs) = (\<forall>x \<in> set xs. qv_reflexive x)"
| "qv_reflexive (VMap xs) = (\<forall>e \<in> set xs. qv_reflexive (snd e))"
| "qv_reflexive (VHash _) = False"
| "qv_reflexive v = (qv_type v \<notin> {TDBusArgument, THash})"

lemma dbl_nan_zero [simp]: "\<not> dbl_nan 0"
  by (simp add: dbl_nan_def)

lemma qv_list_eq_refl: "(\<And>x. x \<in> set xs \<Longrightarrow> qv_eq Q x x) \<Longrightarrow> qv_list_eq Q xs xs"
  by (induction xs) auto

lemma qv_map_eq_refl: "(\<And>e. e \<in> set m \<Longrightarrow> qv_eq Q (snd e) (snd e)) \<Longrightarrow> qv_map_eq Q m m"
  by (induction m) force+

lemma qv_eq_refl: "qv_reflexive v \<Longrightarrow> qv_eq Q v v"
proof (induction v)
  case (VNull t)
  then show ?case by (cases t) (simp_all add: qv_other_eq_def qv_scalar_eq_def)
next
  case (VList xs)
  then show ?case by (auto intro: qv_list_eq_refl)
next
  case (VMap m)
  then show ?case by (auto intro!: qv_map_eq_refl simp: snds.simps)
qed (simp_all add: qv_other_eq_def qv_scalar_eq_def)

lemma qv_differs_refl: "qv_reflexive v \<Longrightarrow> \<not> qv_differs Q v v"
  by (simp add: qv_differs_def qv_eq_refl)

section \<open>Timed values\<close>

record timed_value =
  tv_time :: "64 word"
  tv_value :: qvariant

definition tv_null :: timed_value where
  "tv_null = \<lparr>tv_time = 0, tv_value = VInvalid\<rparr>"

definition tv_less :: "timed_value \<Rightarrow> timed_value \<Rightarrow> bool" where
  "tv_less a b = (tv_time a < tv_time b)"

text \<open>\<open>TimedValue(value)\<close> reads the monotonic clock: seconds and nanoseconds, wrapped at 64 bits.\<close>

definition tv_now :: "64 word \<Rightarrow> 64 word \<Rightarrow> qvariant \<Rightarrow> timed_value" where
  "tv_now sec nsec v = \<lparr>tv_time = sec * 1000000000 + nsec, tv_value = v\<rparr>"

end
