(* ===== verification/Dbus_Values.thy ===== *)
theory Dbus_Values
  imports Qt_Variant
begin

text \<open>
  \<open>demarshallValue\<close> and \<open>createTimedValue\<close> (contextkitplugin.cpp): QtDBus leaves the
  structured values inside a variant as \<open>QDBusArgument\<close>, which the code walks into lists
  and maps. The model of the argument is its array and map structure.
\<close>

fun demarshallValue :: "qvariant \<Rightarrow> qvariant" where
  "demarshallValue (VArgArray xs) = VList (map demarshallValue xs)"
| "demarshallValue (VArgMap m) =
     VMap (foldl (\<lambda>vm e. smap_insert (fst e) (snd e) vm) [] (map (\<lambda>e. (fst e, demarshallValue (snd e))) m))"
| "demarshallValue (VArgOther _) = VInvalid"
| "demarshallValue v = v"

definition createTimedValue :: "qvariant list \<Rightarrow> 64 word \<Rightarrow> timed_value" where
  "createTimedValue v time =
     (if length v = 0 then \<lparr>tv_time = time, tv_value = VInvalid\<rparr>
      else \<lparr>tv_time = time, tv_value = demarshallValue (v ! 0)\<rparr>)"

lemma demarshall_type: "qv_type v \<noteq> TDBusArgument \<Longrightarrow> demarshallValue v = v"
  by (cases v) auto

lemma map_entries_foldl: "e \<in> set (foldl (\<lambda>vm e. smap_insert (fst e) (snd e) vm) m es) \<Longrightarrow>
    e \<in> set m \<or> e \<in> set es"
proof (induction es arbitrary: m)
  case (Cons x es)
  then have "e \<in> set (smap_insert (fst x) (snd x) m) \<or> e \<in> set es" by simp
  then show ?case using set_smap_insert_subset [of "fst x" "snd x" m] by auto
qed simp

lemma sorted_foldl: "sorted_wrt (<) (map fst m) \<Longrightarrow>
    sorted_wrt (<) (map fst (foldl (\<lambda>vm e. smap_insert (fst e) (snd e) vm) m es))"
  by (induction es arbitrary: m) (simp_all add: smap_insert_sorted)

text \<open>No argument is left anywhere in the value.\<close>

fun arg_free :: "qvariant \<Rightarrow> bool" where
  "arg_free (VList xs) = (\<forall>x \<in> set xs. arg_free x)"
| "arg_free (VMap m) = (sorted_wrt (<) (map fst m) \<and> (\<forall>e \<in> set m. arg_free (snd e)))"
| "arg_free (VHash m) = (\<forall>e \<in> set m. arg_free (snd e))"
| "arg_free v = (qv_type v \<noteq> TDBusArgument)"

text \<open>What QtDBus puts into a variant: basic values, and everything structured as an argument.\<close>

fun wire_value :: "qvariant \<Rightarrow> bool" where
  "wire_value (VArgArray xs) = (\<forall>x \<in> set xs. wire_value x)"
| "wire_value (VArgMap m) = (\<forall>e \<in> set m. wire_value (snd e))"
| "wire_value (VArgOther _) = True"
| "wire_value v = arg_free v"

text \<open>Demarshalling leaves no D-Bus argument anywhere in a value received from the bus,
  at any depth, and every map it builds is in key order.\<close>

lemma demarshall_arg_free: "wire_value v \<Longrightarrow> arg_free (demarshallValue v)"
proof (induction v rule: demarshallValue.induct)
  case (2 m)
  show ?case using 2 by (auto simp: sorted_foldl dest!: map_entries_foldl)
qed auto

lemma demarshall_arg_free_witness:
  "arg_free (demarshallValue (VArgArray [VArgMap [(''b'', VInt 1), (''a'', VArgArray [VBool True])], VArgOther 3]))"
  by (rule demarshall_arg_free) simp

end
