(* ===== verification/Subscriber_Iface.thy ===== *)
theory Subscriber_Iface
  imports Dbus_Values
begin

text \<open>
  \<open>SubscriberInterface\<close> (subscriberinterface.cpp): the old wire protocol, where one object of
  the provider takes lists of keys. Whether the remote object is valid, and what it replies, are
  arguments.
\<close>

datatype si_out =
    SISubscribeFinished "key list"
  | SISubscribeFailed "key list" string
  | SIValuesChanged "(key \<times> qvariant) list"
  | SICallSubscribe "key list"
  | SICallUnsubscribe "key list"

definition si_subscribe :: "bool \<Rightarrow> key list \<Rightarrow> si_out list" where
  "si_subscribe valid keys =
     (if \<not> valid \<or> length keys = 0 then [SISubscribeFinished keys] else [SICallSubscribe keys])"

definition si_unsubscribe :: "bool \<Rightarrow> key list \<Rightarrow> si_out list" where
  "si_unsubscribe valid keys = (if valid \<and> length keys \<noteq> 0 then [SICallUnsubscribe keys] else [])"

fun mergeNullsWithMap :: "(key \<times> qvariant) list \<Rightarrow> key list \<Rightarrow> (key \<times> qvariant) list" where
  "mergeNullsWithMap m [] = m"
| "mergeNullsWithMap m (k # nulls) =
     mergeNullsWithMap (if map_of m k \<noteq> None then m else smap_insert k VInvalid m) nulls"

definition onChanged :: "(key \<times> qvariant) list \<Rightarrow> key list \<Rightarrow> si_out list" where
  "onChanged values unknownKeys =
     (let copy = foldl (\<lambda>c e. smap_insert (fst e) (demarshallValue (snd e)) c) [] values
      in [SIValuesChanged (mergeNullsWithMap copy unknownKeys)])"

text \<open>\<open>None\<close>: the call returned an error.\<close>

definition si_onSubscribeFinished ::
    "key list \<Rightarrow> ((key \<times> qvariant) list \<times> key list) option \<Rightarrow> si_out list" where
  "si_onSubscribeFinished requestedKeys reply = (case reply of
      None \<Rightarrow> [SISubscribeFailed requestedKeys ''Provider error'']
    | Some (values, unknowns) \<Rightarrow>
        let okMap = mergeNullsWithMap values unknowns
        in [SISubscribeFinished (amap_keys okMap), SIValuesChanged okMap,
            SISubscribeFailed (filter (\<lambda>k. k \<notin> set (amap_keys okMap)) requestedKeys) ''Not provided''])"

lemma mergeNulls_lookup: "map_of (mergeNullsWithMap m nulls) k =
    (if map_of m k = None \<and> k \<in> set nulls then Some VInvalid else map_of m k)"
  by (induction nulls arbitrary: m) auto

lemma mergeNulls_sorted: "sorted_wrt (<) (map fst m) \<Longrightarrow>
    sorted_wrt (<) (map fst (mergeNullsWithMap m nulls))"
  by (induction nulls arbitrary: m) (simp_all add: smap_insert_sorted)

lemma mergeNulls_keys: "set (amap_keys (mergeNullsWithMap m nulls)) = set (amap_keys m) \<union> set nulls"
proof -
  have "dom (map_of (mergeNullsWithMap m nulls)) = dom (map_of m) \<union> set nulls"
    by (auto simp: mergeNulls_lookup dom_def)
  then show ?thesis by (simp add: dom_map_of_conv_image_fst amap_keys_def)
qed

definition si_finished :: "si_out list \<Rightarrow> key list" where
  "si_finished os = concat (map (\<lambda>x. case x of SISubscribeFinished ks \<Rightarrow> ks | _ \<Rightarrow> []) os)"

definition si_failed :: "si_out list \<Rightarrow> key list" where
  "si_failed os = concat (map (\<lambda>x. case x of SISubscribeFailed ks _ \<Rightarrow> ks | _ \<Rightarrow> []) os)"

definition si_values :: "si_out list \<Rightarrow> (key \<times> qvariant) list" where
  "si_values os = concat (map (\<lambda>x. case x of SIValuesChanged m \<Rightarrow> m | _ \<Rightarrow> []) os)"

lemma count_distinct: "distinct xs \<Longrightarrow> count_list xs x = (if x \<in> set xs then 1 else 0)"
  by (induction xs) auto

lemma sorted_keys_distinct: "sorted_wrt (<) (map fst m) \<Longrightarrow> distinct (map fst (m :: (key \<times> 'a) list))"
  by (simp add: strict_sorted_iff)

text \<open>C22: the reply of a Subscribe call settles every requested key exactly once, as finished or
  as failed; the keys the provider named, known or unknown, are the finished ones, and an unknown
  key gets the null value unless the provider also sent a value.\<close>

theorem subscribe_reply_settles:
  fixes unknowns :: "key list"
  assumes "sorted_wrt (<) (map fst values)" and "distinct requested" and "k \<in> set requested"
  defines "os \<equiv> si_onSubscribeFinished requested (Some (values, unknowns))"
  shows "count_list (si_finished os) k + count_list (si_failed os) k = 1 \<and>
    (k \<in> set (si_finished os) \<longleftrightarrow> k \<in> fst ` set values \<or> k \<in> set unknowns) \<and>
    map_of (si_values os) k =
      (if map_of values k = None \<and> k \<in> set unknowns then Some VInvalid else map_of values k)"
proof -
  let ?ok = "mergeNullsWithMap values unknowns"
  have os: "si_finished os = amap_keys ?ok" "si_failed os = filter (\<lambda>k. k \<notin> set (amap_keys ?ok)) requested"
      "si_values os = ?ok"
    by (simp_all add: os_def si_onSubscribeFinished_def si_finished_def si_failed_def si_values_def Let_def)
  have "distinct (amap_keys ?ok)"
    unfolding amap_keys_def by (rule sorted_keys_distinct [OF mergeNulls_sorted [OF assms(1)]])
  then show ?thesis
    using assms(2,3) by (auto simp: os count_distinct mergeNulls_keys mergeNulls_lookup)
      (auto simp: amap_keys_def image_iff)
qed

lemma subscribe_reply_settles_witness:
  "''b'' \<in> set (si_finished (si_onSubscribeFinished [''a'', ''b''] (Some ([(''c'', VInt 1)], [''b'']))))"
  using subscribe_reply_settles [of "[(''c'', VInt 1)]" "[''a'', ''b'']" "''b''" "[''b'']"] by simp

text \<open>A structured value sent by a Changed signal reaches the handles demarshalled; the
  same value in the reply of the Subscribe call reaches them as a raw D-Bus argument.\<close>

lemma subscribe_reply_not_demarshalled:
  "map_of (si_values (onChanged [(k, VArgArray xs)] [])) k = Some (VList (map demarshallValue xs)) \<and>
   map_of (si_values (si_onSubscribeFinished [k] (Some ([(k, VArgArray xs)], [])))) k = Some (VArgArray xs)"
  by (simp add: onChanged_def si_onSubscribeFinished_def si_values_def Let_def)

end
