(* ===== verification/Dbus_Plugin.thy ===== *)
theory Dbus_Plugin
  imports Name_Listener Subscriber_Iface
begin

text \<open>
  \<open>ContextKitPlugin\<close> and \<open>PendingSubscribeWatcher\<close> (contextkitplugin.cpp): the D-Bus
  implementation of the provider plugin. Calls on the wire and signals to the provider are
  outputs; replies, bus signals and posted calls are the events of \<open>dp_step\<close>. QtDBus's
  effect of a disconnect without an object path on the per-path connections is the parameter
  \<open>unhook\<close>. \<open>PNullDeref\<close> marks a call through a null \<open>subscriberInterface\<close>.
\<close>

definition corePrefix :: string where "corePrefix = ''/org/maemo/contextkit/''"

definition path_char :: "char \<Rightarrow> char" where
  "path_char c = (if c = CHR ''.'' then CHR ''/''
     else if is_path_char c \<or> c = CHR ''/'' then c else CHR ''_'')"

definition keyToPath :: "key \<Rightarrow> string" where
  "keyToPath key = (if qs_startsWith key ''/'' then key else corePrefix @ map path_char key)"

datatype dp_post = PostProviderAppeared | PostNewSubscribe key

record dbus_plugin =
  providerListener :: name_listener
  subscriberInterface :: "string option"
  managerInterface :: bool
  dp_connected :: "string list"
  dp_busName :: string
  newProtocol :: bool
  defaultNewProtocol :: bool
  objectPathToKey :: "(string \<times> key) list"
  pendingWatchers :: "key list"
  pendingKeys :: "key list"
  dp_posted :: "dp_post list"

datatype plugin_out =
    Ready
  | Failed string
  | PSubscribeFinished key
  | PSubscribeFailed key string
  | PValueChanged key timed_value
  | PVariantChanged key qvariant
  | WGetSubscriber
  | WSubscribe string
  | WUnsubscribe string
  | WOldSubscribe "key list"
  | WOldUnsubscribe "key list"
  | WWaitForReply key
  | PNullDeref

type_synonym unhooker = "string list \<Rightarrow> string list"
type_synonym dp_result = "dbus_plugin \<times> plugin_out list"

definition dp_reset :: "unhooker \<Rightarrow> dbus_plugin \<Rightarrow> dbus_plugin" where
  "dp_reset unhook p = p\<lparr>subscriberInterface := None, managerInterface := False,
     newProtocol := defaultNewProtocol p, dp_connected := unhook (dp_connected p)\<rparr>"

definition dp_new :: "unhooker \<Rightarrow> bus_type \<Rightarrow> string \<Rightarrow> dbus_plugin" where
  "dp_new unhook bus busName =
     (let p = dp_reset unhook \<lparr>providerListener = nl_of_connection bus busName, subscriberInterface = None,
            managerInterface = False, dp_connected = [], dp_busName = busName, newProtocol = True,
            defaultNewProtocol = True, objectPathToKey = [], pendingWatchers = [], pendingKeys = [],
            dp_posted = []\<rparr>
      in p\<lparr>providerListener := fst (startListening True False (providerListener p)),
           dp_posted := dp_posted p @ [PostProviderAppeared]\<rparr>)"

definition setDefaultNewProtocol :: "bool \<Rightarrow> dbus_plugin \<Rightarrow> dbus_plugin" where
  "setDefaultNewProtocol s p = p\<lparr>defaultNewProtocol := s\<rparr>"

definition commanderConstruction :: string where
  "commanderConstruction = ''session:org.freedesktop.ContextKit.Commander''"

definition contextKitPluginFactory :: "unhooker \<Rightarrow> string \<Rightarrow> dbus_plugin option" where
  "contextKitPluginFactory unhook constructionString =
     (case qs_split (CHR '':'') constructionString of
        [bus, name] \<Rightarrow>
          if bus = ''session'' then
            let ret = dp_new unhook SessionBus name
            in Some (if constructionString = commanderConstruction then setDefaultNewProtocol False ret else ret)
          else if bus = ''system'' then Some (dp_new unhook SystemBus name)
          else None
      | _ \<Rightarrow> None)"

definition useNewProtocol :: "dbus_plugin \<Rightarrow> dp_result" where
  "useNewProtocol p =
     (let p1 = p\<lparr>newProtocol := True\<rparr>
      in if isServicePresent (providerListener p1) = NotPresent then (p1, []) else (p1, [Ready]))"

definition onDBusGetSubscriberFinished :: "string \<Rightarrow> dbus_plugin \<Rightarrow> dp_result" where
  "onDBusGetSubscriberFinished objectPath p = (p\<lparr>subscriberInterface := Some objectPath\<rparr>, [Ready])"

definition onDBusGetSubscriberFailed :: "unhooker \<Rightarrow> bool \<Rightarrow> dbus_plugin \<Rightarrow> dp_result" where
  "onDBusGetSubscriberFailed unhook unknownObject p =
     (if \<not> unknownObject then (p, [Failed (''D-Bus error while trying old protocol '' @ dp_busName p)])
      else useNewProtocol (dp_reset unhook (p\<lparr>defaultNewProtocol := True\<rparr>)))"

text \<open>\<open>call\<close>: \<open>None\<close> when the call could be sent, otherwise whether the immediate error is
  \<open>UnknownObject\<close>.\<close>

definition onProviderAppeared :: "unhooker \<Rightarrow> bool option \<Rightarrow> dbus_plugin \<Rightarrow> dp_result" where
  "onProviderAppeared unhook call p =
     (let p1 = dp_reset unhook p
      in if defaultNewProtocol p1 then useNewProtocol p1
         else
           let p2 = p1\<lparr>managerInterface := True\<rparr>
           in case call of
                None \<Rightarrow> (p2, [WGetSubscriber])
              | Some unknownObject \<Rightarrow> onDBusGetSubscriberFailed unhook unknownObject p2)"

definition onProviderDisappeared :: "unhooker \<Rightarrow> dbus_plugin \<Rightarrow> dp_result" where
  "onProviderDisappeared unhook p =
     (dp_reset unhook p, [Failed (''Provider went away '' @ dp_busName p)])"

definition onDBusSubscribeFinished :: "key list \<Rightarrow> plugin_out list" where
  "onDBusSubscribeFinished keys = map PSubscribeFinished keys"

definition onDBusSubscribeFailed :: "key list \<Rightarrow> string \<Rightarrow> plugin_out list" where
  "onDBusSubscribeFailed keys err = map (\<lambda>k. PSubscribeFailed k err) keys"

definition onDBusValuesChanged :: "(key \<times> qvariant) list \<Rightarrow> plugin_out list" where
  "onDBusValuesChanged values = map (\<lambda>e. PVariantChanged (fst e) (snd e)) values"

fun dp_from_si :: "si_out \<Rightarrow> plugin_out list" where
  "dp_from_si (SISubscribeFinished keys) = onDBusSubscribeFinished keys"
| "dp_from_si (SISubscribeFailed keys err) = onDBusSubscribeFailed keys err"
| "dp_from_si (SIValuesChanged m) = onDBusValuesChanged m"
| "dp_from_si (SICallSubscribe keys) = [WOldSubscribe keys]"
| "dp_from_si (SICallUnsubscribe keys) = [WOldUnsubscribe keys]"

definition dp_subscribe :: "bool \<Rightarrow> key list \<Rightarrow> dbus_plugin \<Rightarrow> dp_result" where
  "dp_subscribe valid keys p =
     (if newProtocol p then
        (foldl (\<lambda>q key. q\<lparr>pendingKeys := qset_insert key (pendingKeys q),
                           dp_posted := dp_posted q @ [PostNewSubscribe key]\<rparr>) p keys, [])
      else (case subscriberInterface p of
              None \<Rightarrow> (p, [PNullDeref])
            | Some _ \<Rightarrow> (p, concat (map dp_from_si (si_subscribe valid keys)))))"

definition newSubscribe :: "key \<Rightarrow> dbus_plugin \<Rightarrow> dp_result" where
  "newSubscribe key p =
     (if key \<notin> set (pendingKeys p) then (p, [])
      else
        let objectPath = keyToPath key
        in (p\<lparr>pendingKeys := qset_remove key (pendingKeys p),
              objectPathToKey := amap_insert objectPath key (objectPathToKey p),
              dp_connected := qset_insert objectPath (dp_connected p),
              pendingWatchers := qset_insert key (pendingWatchers p)\<rparr>,
            [WSubscribe objectPath]))"

fun dp_unsubscribe_new :: "key list \<Rightarrow> dbus_plugin \<Rightarrow> dp_result" where
  "dp_unsubscribe_new [] p = (p, [])"
| "dp_unsubscribe_new (key # keys) p =
     (let objectPath = keyToPath key;
          p1 = p\<lparr>objectPathToKey := amap_remove objectPath (objectPathToKey p),
                 dp_connected := qset_remove objectPath (dp_connected p)\<rparr>
      in case dp_unsubscribe_new keys p1 of (p2, os) \<Rightarrow> (p2, WUnsubscribe objectPath # os))"

definition dp_unsubscribe :: "bool \<Rightarrow> key list \<Rightarrow> dbus_plugin \<Rightarrow> dp_result" where
  "dp_unsubscribe valid keys p =
     (if newProtocol p then dp_unsubscribe_new keys p
      else (case subscriberInterface p of
              None \<Rightarrow> (p, [PNullDeref])
            | Some _ \<Rightarrow> (p, concat (map dp_from_si (si_unsubscribe valid keys)))))"

definition onNewValueChanged :: "qvariant list \<Rightarrow> 64 word \<Rightarrow> string \<Rightarrow> dbus_plugin \<Rightarrow> plugin_out list" where
  "onNewValueChanged v timestamp path p = (case map_of (objectPathToKey p) path of
      Some key \<Rightarrow> [PValueChanged key (createTimedValue v timestamp)]
    | None \<Rightarrow> [])"

definition dp_blockUntilReady :: "unhooker \<Rightarrow> bool option \<Rightarrow> dbus_plugin \<Rightarrow> dp_result" where
  "dp_blockUntilReady unhook call p = onProviderAppeared unhook call p"

lemma length_qset_remove_hd: "xs \<noteq> [] \<Longrightarrow> length (qset_remove (hd xs) xs) < length xs"
  by (cases xs) (simp_all add: qset_remove_def less_Suc_eq_le)

function dp_forcePending :: "dbus_plugin \<Rightarrow> dp_result" where
  "dp_forcePending p =
     (if newProtocol p \<and> length (pendingKeys p) > 0 then
        case newSubscribe (hd (pendingKeys p)) p of (p1, os) \<Rightarrow>
        case dp_forcePending p1 of (p2, os') \<Rightarrow> (p2, os @ os')
      else (p, []))"
  by pat_completeness auto
termination
  by (relation "measure (\<lambda>p. length (pendingKeys p))")
    (auto simp: newSubscribe_def Let_def length_qset_remove_hd)

declare dp_forcePending.simps [simp del]

definition dp_blockUntilSubscribed :: "key \<Rightarrow> dbus_plugin \<Rightarrow> dp_result" where
  "dp_blockUntilSubscribed key p =
     (case dp_forcePending p of (p1, os) \<Rightarrow>
      if key \<in> set (pendingWatchers p1) then (p1, os @ [WWaitForReply key]) else (p1, os))"

definition removePendingWatcher :: "key \<Rightarrow> dbus_plugin \<Rightarrow> dbus_plugin" where
  "removePendingWatcher key p = p\<lparr>pendingWatchers := qset_remove key (pendingWatchers p)\<rparr>"

text \<open>\<open>PendingSubscribeWatcher::onFinished\<close>: an error message, or a value list and a time.\<close>

definition psw_onFinished :: "key \<Rightarrow> string + (qvariant list \<times> 64 word) \<Rightarrow> dbus_plugin \<Rightarrow> dp_result" where
  "psw_onFinished key reply p = (case reply of
      Inl err \<Rightarrow> (removePendingWatcher key p, [PSubscribeFailed key err])
    | Inr (v, t) \<Rightarrow> (removePendingWatcher key p, [PValueChanged key (createTimedValue v t), PSubscribeFinished key]))"

section \<open>Events\<close>

datatype dp_event =
    DPPosted "bool option"
  | DPName nl_event "bool option"
  | DPGotSubscriber string
  | DPNoSubscriber bool
  | DPSubscribe bool "key list"
  | DPUnsubscribe bool "key list"
  | DPReply key "string + (qvariant list \<times> 64 word)"
  | DPOldReply "key list" "((key \<times> qvariant) list \<times> key list) option"
  | DPChanged "(key \<times> qvariant) list" "key list"
  | DPValue "qvariant list" "64 word" string
  | DPBlockReady "bool option"
  | DPBlockSubscribed key

fun dp_on_name :: "unhooker \<Rightarrow> bool option \<Rightarrow> nl_out list \<Rightarrow> dbus_plugin \<Rightarrow> dp_result" where
  "dp_on_name unhook call [] p = (p, [])"
| "dp_on_name unhook call (NameAppeared # os) p = onProviderAppeared unhook call p"
| "dp_on_name unhook call (NameDisappeared # os) p = onProviderDisappeared unhook p"
| "dp_on_name unhook call (NameHasOwnerCall _ # os) p = dp_on_name unhook call os p"

fun dp_step :: "unhooker \<Rightarrow> dp_event \<Rightarrow> dbus_plugin \<Rightarrow> dp_result" where
  "dp_step U (DPPosted call) p = (case dp_posted p of
      [] \<Rightarrow> (p, [])
    | PostProviderAppeared # r \<Rightarrow> onProviderAppeared U call (p\<lparr>dp_posted := r\<rparr>)
    | PostNewSubscribe k # r \<Rightarrow> newSubscribe k (p\<lparr>dp_posted := r\<rparr>))"
| "dp_step U (DPName e call) p = (case nl_step e (providerListener p) of
      (l, os) \<Rightarrow> dp_on_name U call os (p\<lparr>providerListener := l\<rparr>))"
| "dp_step U (DPGotSubscriber path) p = onDBusGetSubscriberFinished path p"
| "dp_step U (DPNoSubscriber unknownObject) p = onDBusGetSubscriberFailed U unknownObject p"
| "dp_step U (DPSubscribe valid keys) p = dp_subscribe valid keys p"
| "dp_step U (DPUnsubscribe valid keys) p = dp_unsubscribe valid keys p"
| "dp_step U (DPReply k r) p = psw_onFinished k r p"
| "dp_step U (DPOldReply req r) p = (p, concat (map dp_from_si (si_onSubscribeFinished req r)))"
| "dp_step U (DPChanged vs ns) p = (p, concat (map dp_from_si (onChanged vs ns)))"
| "dp_step U (DPValue v t path) p = (p, onNewValueChanged v t path p)"
| "dp_step U (DPBlockReady call) p = dp_blockUntilReady U call p"
| "dp_step U (DPBlockSubscribed k) p = dp_blockUntilSubscribed k p"

section \<open>Object paths\<close>

text \<open>A D-Bus object path: slash-separated non-empty segments of letters, digits and underscores.\<close>

definition legal_path :: "string \<Rightarrow> bool" where
  "legal_path p = (case p of [] \<Rightarrow> False
     | c # r \<Rightarrow> c = CHR ''/'' \<and> (\<forall>s \<in> set (qs_split (CHR ''/'') r). s \<noteq> [] \<and> list_all is_path_char s))"

definition core_key :: "key \<Rightarrow> bool" where
  "core_key k = (CHR ''/'' \<notin> set k \<and> [] \<notin> set (qs_split (CHR ''.'') k))"

lemma is_path_char_seps [simp]: "\<not> is_path_char (CHR ''/'')" "\<not> is_path_char (CHR ''.'')" "is_path_char (CHR ''_'')"
  by (simp_all add: is_path_char_def Let_def)

lemma path_char_cases: "path_char c = CHR ''/'' \<or> is_path_char (path_char c)"
  by (simp add: path_char_def)

lemma path_char_slash: "path_char c = CHR ''/'' \<longleftrightarrow> c = CHR ''.'' \<or> c = CHR ''/''"
  by (auto simp: path_char_def)

lemma split_path: "CHR ''/'' \<notin> set k \<Longrightarrow>
    qs_split (CHR ''/'') (map path_char k) = map (map path_char) (qs_split (CHR ''.'') k)"
  by (induction k) (auto simp: path_char_slash path_char_def split: list.splits)

text \<open>C21: a core key whose dot-separated parts are not empty has a legal D-Bus object path under
  the core prefix, and the path has one segment for each part of the key.\<close>

theorem keyToPath_legal:
  assumes "core_key k"
  shows "legal_path (keyToPath k) \<and> qs_startsWith (keyToPath k) corePrefix \<and>
    count_list (keyToPath k) (CHR ''/'') = 4 + count_list k (CHR ''.'')"
proof -
  have ns: "\<not> qs_startsWith k ''/''" and nk: "k \<noteq> []"
    using assms by (cases k; force simp: core_key_def qs_startsWith_def)+
  have "qs_split (CHR ''/'') (''org/maemo/contextkit'' @ CHR ''/'' # map path_char k) =
      [''org'', ''maemo'', ''contextkit''] @ map (map path_char) (qs_split (CHR ''.'') k)"
    using assms by (subst qs_split_append_sep) (simp add: split_path core_key_def)
  moreover have "list_all is_path_char (map path_char s)" if "s \<in> set (qs_split (CHR ''.'') k)" for s
  proof -
    have "CHR ''.'' \<notin> set s" by (rule qs_split_no_sep [OF that])
    moreover have "CHR ''/'' \<notin> set s"
      using qs_split_subset [OF that] assms by (auto simp: core_key_def)
    ultimately have "path_char c \<noteq> CHR ''/''" if "c \<in> set s" for c
      using that by (auto simp: path_char_slash)
    then show ?thesis using path_char_cases by (auto simp: list_all_iff)
  qed
  moreover have "list_all is_path_char ''org''" "list_all is_path_char ''maemo''"
      "list_all is_path_char ''contextkit''"
    by code_simp+
  moreover have "\<forall>s \<in> set (qs_split (CHR ''.'') k). s \<noteq> []"
    using assms by (auto simp: core_key_def)
  ultimately have "\<forall>s \<in> set (qs_split (CHR ''/'') (''org/maemo/contextkit'' @ CHR ''/'' # map path_char k)).
      s \<noteq> [] \<and> list_all is_path_char s"
    by (simp only: set_append set_map) auto
  then have "legal_path (keyToPath k)"
    using ns by (simp add: legal_path_def keyToPath_def corePrefix_def)
  moreover have "count_list (map path_char k) (CHR ''/'') = count_list k (CHR ''.'')" if "CHR ''/'' \<notin> set k" for k
    using that by (induction k) (auto simp: path_char_slash)
  then have "count_list (keyToPath k) (CHR ''/'') = 4 + count_list k (CHR ''.'')"
    using ns assms by (simp add: keyToPath_def corePrefix_def core_key_def)
  moreover have "qs_startsWith (keyToPath k) corePrefix"
    using ns by (simp add: keyToPath_def)
  ultimately show ?thesis by blast
qed

lemma keyToPath_legal_witness: "legal_path (keyToPath ''Screen.Top-Edge'')"
  using keyToPath_legal [of "''Screen.Top-Edge''"] by (simp add: core_key_def)

section \<open>Subscriptions forced early\<close>

lemma newSubscribe_hd: "pendingKeys p = k # ks \<Longrightarrow> k \<notin> set ks \<Longrightarrow>
    snd (newSubscribe k p) = [WSubscribe (keyToPath k)] \<and>
    pendingKeys (fst (newSubscribe k p)) = ks \<and> newProtocol (fst (newSubscribe k p)) = newProtocol p \<and>
    set (pendingWatchers (fst (newSubscribe k p))) = insert k (set (pendingWatchers p))"
  by (simp add: newSubscribe_def Let_def qset_remove_def) (auto intro: filter_True)

lemma forcePending_all: "newProtocol p \<Longrightarrow> distinct (pendingKeys p) \<Longrightarrow>
    dp_forcePending p = (p', os) \<Longrightarrow>
    os = map (\<lambda>k. WSubscribe (keyToPath k)) (pendingKeys p) \<and> pendingKeys p' = [] \<and>
    set (pendingWatchers p') = set (pendingWatchers p) \<union> set (pendingKeys p)"
proof (induction "pendingKeys p" arbitrary: p p' os)
  case Nil
  then show ?case by (simp add: dp_forcePending.simps)
next
  case (Cons k ks)
  have pk: "pendingKeys p = k # ks" using Cons.hyps(2) by simp
  obtain p1 o1 where 1: "newSubscribe k p = (p1, o1)" by (cases "newSubscribe k p")
  obtain o2 where 2: "dp_forcePending p1 = (p', o2)" "os = o1 @ o2"
    using Cons.prems(1,3) 1 pk by (subst (asm) dp_forcePending.simps) (auto split: prod.splits)
  have k: "o1 = [WSubscribe (keyToPath k)]" "pendingKeys p1 = ks" "newProtocol p1"
      "set (pendingWatchers p1) = insert k (set (pendingWatchers p))"
    using newSubscribe_hd [OF pk] 1 Cons.prems pk by auto
  have "o2 = map (\<lambda>k. WSubscribe (keyToPath k)) ks \<and> pendingKeys p' = [] \<and>
      set (pendingWatchers p') = set (pendingWatchers p1) \<union> set ks"
    using Cons.hyps(1) [of p1 p' o2] k 2(1) Cons.prems(2) pk by simp
  then show ?case using k 2(2) pk by simp
qed

text \<open>C19: \<open>blockUntilSubscribed\<close> sends every scheduled subscription at once, each exactly one
  time, and waits for the reply of the key when it was among them; the queued calls left behind
  send nothing any more.\<close>

theorem forced_subscriptions_sent_once:
  assumes "newProtocol p" and "distinct (pendingKeys p)" and "k \<in> set (pendingKeys p)"
    and "dp_blockUntilSubscribed k p = (p', os)"
  shows "os = map (\<lambda>k. WSubscribe (keyToPath k)) (pendingKeys p) @ [WWaitForReply k] \<and>
    (\<forall>l. newSubscribe l p' = (p', []))"
proof -
  obtain q os' where q: "dp_forcePending p = (q, os')" by (cases "dp_forcePending p")
  note all = forcePending_all [OF assms(1,2) q]
  then have "k \<in> set (pendingWatchers q)" using assms(3) by blast
  then have "p' = q" "os = os' @ [WWaitForReply k]"
    using assms(4) q by (auto simp: dp_blockUntilSubscribed_def)
  then show ?thesis using all by (simp add: newSubscribe_def)
qed

definition sample_plugin :: dbus_plugin where
  "sample_plugin = dp_new (\<lambda>_. []) SessionBus ''org.example''"

lemma forced_subscriptions_sent_once_witness:
  "snd (dp_blockUntilSubscribed ''B.c'' (fst (dp_subscribe True [''A.b'', ''B.c''] sample_plugin))) =
     map (\<lambda>k. WSubscribe (keyToPath k)) [''A.b'', ''B.c''] @ [WWaitForReply ''B.c'']"
proof -
  let ?p = "fst (dp_subscribe True [''A.b'', ''B.c''] sample_plugin)"
  have k: "newProtocol ?p" "pendingKeys ?p = [''A.b'', ''B.c'']" by code_simp+
  show ?thesis
    using forced_subscriptions_sent_once [of ?p "''B.c''" "fst (dp_blockUntilSubscribed ''B.c'' ?p)"
        "snd (dp_blockUntilSubscribed ''B.c'' ?p)"] k by simp
qed

section \<open>Routing of values\<close>

lemma dp_reset_simps [simp]:
  "objectPathToKey (dp_reset U p) = objectPathToKey p" "pendingKeys (dp_reset U p) = pendingKeys p"
  "defaultNewProtocol (dp_reset U p) = defaultNewProtocol p" "newProtocol (dp_reset U p) = defaultNewProtocol p"
  by (simp_all add: dp_reset_def)

lemma dp_subscribe_keys: "objectPathToKey (fst (dp_subscribe valid ks p)) = objectPathToKey p \<and>
    set (pendingKeys (fst (dp_subscribe valid ks p))) \<subseteq> set (pendingKeys p) \<union> set ks"
proof -
  let ?f = "\<lambda>q key. q\<lparr>pendingKeys := qset_insert key (pendingKeys q),
                      dp_posted := dp_posted q @ [PostNewSubscribe key]\<rparr>"
  have "objectPathToKey (foldl ?f p ks) = objectPathToKey p \<and>
      set (pendingKeys (foldl ?f p ks)) = set (pendingKeys p) \<union> set ks"
    by (induction ks arbitrary: p) auto
  then show ?thesis by (auto simp: dp_subscribe_def split: option.splits)
qed

lemma unsubscribe_new_keys: "pendingKeys (fst (dp_unsubscribe_new ks p)) = pendingKeys p \<and>
    map_of (objectPathToKey (fst (dp_unsubscribe_new ks p))) path =
      (if path \<in> keyToPath ` set ks then None else map_of (objectPathToKey p) path)"
  by (induction ks arbitrary: p) (auto simp: Let_def case_prod_unfold)

definition path_of_key :: "dbus_plugin \<Rightarrow> bool" where
  "path_of_key p = (\<forall>path k. map_of (objectPathToKey p) path = Some k \<longrightarrow> keyToPath k = path)"

definition routed :: "key \<Rightarrow> dbus_plugin \<Rightarrow> bool" where
  "routed k p = (map_of (objectPathToKey p) (keyToPath k) = Some k \<and>
     (\<forall>l \<in> set (pendingKeys p). keyToPath l = keyToPath k \<longrightarrow> l = k))"

text \<open>The events that neither subscribe a different key with the path of \<open>k\<close> nor unsubscribe it.\<close>

fun leaves_alone :: "key \<Rightarrow> dp_event \<Rightarrow> bool" where
  "leaves_alone k (DPSubscribe _ keys) = (\<forall>l \<in> set keys. keyToPath l = keyToPath k \<longrightarrow> l = k)"
| "leaves_alone k (DPUnsubscribe _ keys) = (\<forall>l \<in> set keys. keyToPath l \<noteq> keyToPath k)"
| "leaves_alone k _ = True"

lemma newSubscribe_path_of_key: "path_of_key p \<Longrightarrow> path_of_key (fst (newSubscribe l p))"
  by (auto simp: path_of_key_def newSubscribe_def Let_def)

lemma newSubscribe_routed: "routed k p \<Longrightarrow> routed k (fst (newSubscribe l p))"
  by (auto simp: routed_def newSubscribe_def Let_def)

lemma forcePending_induct:
  assumes "\<And>q l. P q \<Longrightarrow> P (fst (newSubscribe l q))" and "P p"
  shows "P (fst (dp_forcePending p))"
  using assms(2)
proof (induction p rule: dp_forcePending.induct)
  case (1 p)
  show ?case
  proof (cases "newProtocol p \<and> length (pendingKeys p) > 0")
    case True
    have "P (fst (dp_forcePending (fst (newSubscribe (hd (pendingKeys p)) p))))"
      by (rule "1.IH" [OF True prod.collapse]) (rule assms(1) [OF "1.prems"])
    then show ?thesis using True by (simp add: dp_forcePending.simps [of p] case_prod_unfold)
  next
    case False
    show ?thesis
      using "1.prems" by (subst dp_forcePending.simps, subst if_not_P [OF False]) simp
  qed
qed

lemma block_induct:
  assumes "\<And>q l. P q \<Longrightarrow> P (fst (newSubscribe l q))" and "P p"
  shows "P (fst (dp_blockUntilSubscribed k p))"
  using forcePending_induct [of P p] assms
  by (auto simp: dp_blockUntilSubscribed_def split: prod.splits if_splits)

text \<open>The handlers that touch neither the routing nor the pending keys.\<close>

definition same_keys :: "dbus_plugin \<Rightarrow> dbus_plugin \<Rightarrow> bool" where
  "same_keys p q = (objectPathToKey p = objectPathToKey q \<and> pendingKeys p = pendingKeys q)"

lemma same_keys_handlers:
  "same_keys (fst (useNewProtocol p)) p" "same_keys (fst (onDBusGetSubscriberFailed U b p)) p"
  "same_keys (fst (onProviderAppeared U c p)) p" "same_keys (fst (onProviderDisappeared U p)) p"
  "same_keys (fst (onDBusGetSubscriberFinished s p)) p" "same_keys (fst (psw_onFinished k r p)) p"
  "same_keys (fst (dp_blockUntilReady U c p)) p"
  by (auto simp: same_keys_def useNewProtocol_def onDBusGetSubscriberFailed_def onProviderAppeared_def
      onProviderDisappeared_def onDBusGetSubscriberFinished_def psw_onFinished_def removePendingWatcher_def
      dp_blockUntilReady_def Let_def split: option.splits sum.splits prod.splits if_splits)

lemma same_keys_on_name: "same_keys (fst (dp_on_name U c os p)) p"
  by (induction U c os p rule: dp_on_name.induct) (simp_all add: same_keys_handlers, simp add: same_keys_def)

lemma same_keys_path_of_key: "same_keys q p \<Longrightarrow> path_of_key p \<Longrightarrow> path_of_key q"
  and same_keys_routed: "same_keys q p \<Longrightarrow> routed k p \<Longrightarrow> routed k q"
  by (simp_all add: same_keys_def path_of_key_def routed_def)

lemma same_keys_upd: "same_keys (fst (f p')) p' \<Longrightarrow> same_keys p' p \<Longrightarrow> same_keys (fst (f p')) p"
  by (simp add: same_keys_def)

lemma dp_step_path_of_key: "path_of_key p \<Longrightarrow> path_of_key (fst (dp_step U e p))"
proof (cases e)
  case (DPPosted c)
  assume "path_of_key p"
  then have *: "path_of_key (p\<lparr>dp_posted := r\<rparr>)" for r by (simp add: path_of_key_def)
  show ?thesis unfolding DPPosted
    using \<open>path_of_key p\<close> newSubscribe_path_of_key [OF *] same_keys_path_of_key [OF same_keys_handlers(3) *]
    by (auto split: list.splits dp_post.splits)
next
  case (DPName n c)
  assume "path_of_key p"
  then have "path_of_key (p\<lparr>providerListener := l\<rparr>)" for l by (simp add: path_of_key_def)
  then show ?thesis unfolding DPName
    using same_keys_path_of_key [OF same_keys_on_name] by (auto split: prod.splits)
next
  case (DPSubscribe valid ks)
  assume "path_of_key p"
  then show ?thesis unfolding DPSubscribe by (simp add: path_of_key_def dp_subscribe_keys)
next
  case (DPUnsubscribe valid ks)
  assume "path_of_key p"
  then show ?thesis unfolding DPUnsubscribe
    by (auto simp: path_of_key_def dp_unsubscribe_def unsubscribe_new_keys split: option.splits if_splits)
next
  case (DPBlockSubscribed k)
  assume "path_of_key p"
  then show ?thesis unfolding DPBlockSubscribed
    by (simp add: block_induct [where P = path_of_key] newSubscribe_path_of_key)
qed (use same_keys_path_of_key [OF same_keys_handlers(5)] same_keys_path_of_key [OF same_keys_handlers(2)]
    same_keys_path_of_key [OF same_keys_handlers(6)] same_keys_path_of_key [OF same_keys_handlers(7)] in simp_all)

lemma dp_step_routed: "routed k p \<Longrightarrow> leaves_alone k e \<Longrightarrow> routed k (fst (dp_step U e p))"
proof (cases e)
  case (DPPosted c)
  assume "routed k p"
  then have *: "routed k (p\<lparr>dp_posted := r\<rparr>)" for r by (simp add: routed_def)
  show ?thesis unfolding DPPosted
    using \<open>routed k p\<close> newSubscribe_routed [OF *] same_keys_routed [OF same_keys_handlers(3) *]
    by (auto split: list.splits dp_post.splits)
next
  case (DPName n c)
  assume "routed k p"
  then have "routed k (p\<lparr>providerListener := l\<rparr>)" for l by (simp add: routed_def)
  then show ?thesis unfolding DPName
    using same_keys_routed [OF same_keys_on_name] by (auto split: prod.splits)
next
  case (DPSubscribe valid ks)
  assume "routed k p" "leaves_alone k e"
  then show ?thesis unfolding DPSubscribe
    using dp_subscribe_keys [of valid ks p] by (fastforce simp: routed_def)
next
  case (DPUnsubscribe valid ks)
  assume "routed k p" "leaves_alone k e"
  then show ?thesis unfolding DPUnsubscribe
    by (auto simp: routed_def dp_unsubscribe_def unsubscribe_new_keys split: option.splits if_splits)
next
  case (DPBlockSubscribed l)
  assume "routed k p"
  then show ?thesis unfolding DPBlockSubscribed
    by (simp add: block_induct [where P = "routed k"] newSubscribe_routed)
qed (use same_keys_routed [OF same_keys_handlers(5)] same_keys_routed [OF same_keys_handlers(2)]
    same_keys_routed [OF same_keys_handlers(6)] same_keys_routed [OF same_keys_handlers(7)] in simp_all)

lemma path_of_key_new: "path_of_key (dp_new U bus name)"
  by (simp add: path_of_key_def dp_new_def Let_def dp_reset_def)

lemma routed_after:
  assumes "k \<in> set (pendingKeys p)" and "\<forall>l \<in> set (pendingKeys p). keyToPath l = keyToPath k \<longrightarrow> l = k"
    and "list_all (leaves_alone k) es"
  shows "routed k (fst (ev_run (dp_step U) es (fst (newSubscribe k p))))"
proof -
  have "routed k (fst (newSubscribe k p))"
    using assms(1,2) by (auto simp: routed_def newSubscribe_def Let_def)
  then show ?thesis
    by (rule ev_run_inv [rotated]) (use assms(3) in \<open>auto simp: list_all_iff dp_step_routed\<close>)
qed



text \<open>Two different keys can have the same object path; then the values of the one subscribed
  first are announced for the other.\<close>

lemma colliding_keys_misrouted:
  "keyToPath ''A.b-c'' = keyToPath ''A.b_c'' \<and>
   (let p = fst (dp_forcePending (fst (dp_subscribe True [''A.b-c'', ''A.b_c''] sample_plugin)))
    in set (pendingWatchers p) = {''A.b-c'', ''A.b_c''} \<and>
       onNewValueChanged [VInt 7] 1 (keyToPath ''A.b-c'') p =
         [PValueChanged ''A.b_c'' (createTimedValue [VInt 7] 1)])"
proof -
  have "keyToPath ''A.b-c'' = keyToPath ''A.b_c''" by code_simp
  moreover have "pendingWatchers (fst (dp_forcePending (fst (dp_subscribe True [''A.b-c'', ''A.b_c''] sample_plugin))))
      = [''A.b-c'', ''A.b_c'']" by code_simp
  moreover have "map_of (objectPathToKey (fst (dp_forcePending (fst (dp_subscribe True [''A.b-c'', ''A.b_c''] sample_plugin)))))
      (keyToPath ''A.b-c'') = Some ''A.b_c''" by code_simp
  ultimately show ?thesis by (simp add: Let_def onNewValueChanged_def)
qed

section \<open>Choice of the protocol\<close>

definition new_only :: "dp_result \<Rightarrow> bool" where
  "new_only r = (defaultNewProtocol (fst r) \<and> newProtocol (fst r) \<and> WGetSubscriber \<notin> set (snd r))"

lemma new_only_useNew: "defaultNewProtocol p \<Longrightarrow> new_only (useNewProtocol p)"
  by (simp add: new_only_def useNewProtocol_def Let_def)

lemma new_only_failed: "defaultNewProtocol p \<Longrightarrow> newProtocol p \<Longrightarrow> new_only (onDBusGetSubscriberFailed U b p)"
  by (auto simp: onDBusGetSubscriberFailed_def new_only_useNew) (simp add: new_only_def)

lemma new_only_appeared: "defaultNewProtocol p \<Longrightarrow> new_only (onProviderAppeared U c p)"
  by (simp add: onProviderAppeared_def new_only_useNew Let_def)

lemma new_only_newSubscribe: "defaultNewProtocol p \<Longrightarrow> newProtocol p \<Longrightarrow> new_only (newSubscribe k p)"
  by (simp add: new_only_def newSubscribe_def Let_def)

lemma new_only_on_name: "defaultNewProtocol p \<Longrightarrow> newProtocol p \<Longrightarrow> new_only (dp_on_name U c os p)"
proof (induction U c os p rule: dp_on_name.induct)
  case (3 U c os p)
  then show ?case by (simp add: new_only_def onProviderDisappeared_def)
qed (simp_all add: new_only_appeared, simp add: new_only_def)

lemma new_only_unsubscribe: "defaultNewProtocol p \<Longrightarrow> newProtocol p \<Longrightarrow> new_only (dp_unsubscribe_new ks p)"
  by (induction ks arbitrary: p) (auto simp: new_only_def Let_def case_prod_unfold)

lemma new_only_subscribe: "defaultNewProtocol p \<Longrightarrow> newProtocol p \<Longrightarrow> new_only (dp_subscribe valid ks p)"
proof -
  let ?f = "\<lambda>q key. q\<lparr>pendingKeys := qset_insert key (pendingKeys q),
                      dp_posted := dp_posted q @ [PostNewSubscribe key]\<rparr>"
  have "defaultNewProtocol (foldl ?f p ks) = defaultNewProtocol p \<and> newProtocol (foldl ?f p ks) = newProtocol p"
    by (induction ks arbitrary: p) auto
  then show "defaultNewProtocol p \<Longrightarrow> newProtocol p \<Longrightarrow> new_only (dp_subscribe valid ks p)"
    by (simp add: new_only_def dp_subscribe_def)
qed

lemma new_only_force: "defaultNewProtocol p \<Longrightarrow> newProtocol p \<Longrightarrow> new_only (dp_forcePending p)"
proof (induction p rule: dp_forcePending.induct)
  case (1 p)
  show ?case
  proof (cases "newProtocol p \<and> length (pendingKeys p) > 0")
    case True
    have "new_only (newSubscribe (hd (pendingKeys p)) p)" using 1 by (simp add: new_only_newSubscribe)
    moreover from this have "new_only (dp_forcePending (fst (newSubscribe (hd (pendingKeys p)) p)))"
      by (intro "1.IH" [OF True prod.collapse]) (simp_all add: new_only_def)
    ultimately show ?thesis using True
      by (simp add: dp_forcePending.simps [of p] case_prod_unfold new_only_def)
  next
    case False
    show ?thesis
      using "1.prems" by (subst dp_forcePending.simps, subst if_not_P [OF False]) (simp add: new_only_def)
  qed
qed

lemma WGetSubscriber_from_si: "WGetSubscriber \<notin> set (concat (map dp_from_si os))"
proof -
  have "WGetSubscriber \<notin> set (dp_from_si x)" for x
    by (cases x) (auto simp: onDBusSubscribeFinished_def onDBusSubscribeFailed_def onDBusValuesChanged_def)
  then show ?thesis by auto
qed

lemma new_only_step: "defaultNewProtocol p \<Longrightarrow> newProtocol p \<Longrightarrow> new_only (dp_step U e p)"
proof (cases e)
  case (DPPosted c)
  assume "defaultNewProtocol p" "newProtocol p"
  then show ?thesis unfolding DPPosted
    by (auto simp: new_only_appeared new_only_newSubscribe split: list.splits dp_post.splits)
      (simp add: new_only_def)
next
  case (DPName n c)
  assume "defaultNewProtocol p" "newProtocol p"
  then show ?thesis unfolding DPName by (simp add: new_only_on_name case_prod_unfold)
next
  case (DPUnsubscribe valid ks)
  assume "defaultNewProtocol p" "newProtocol p"
  then show ?thesis unfolding DPUnsubscribe by (simp add: dp_unsubscribe_def new_only_unsubscribe)
next
  case (DPReply k r)
  assume "defaultNewProtocol p" "newProtocol p"
  then show ?thesis unfolding DPReply
    by (auto simp: psw_onFinished_def new_only_def removePendingWatcher_def split: sum.splits)
next
  case (DPValue v t path)
  assume "defaultNewProtocol p" "newProtocol p"
  then show ?thesis unfolding DPValue
    by (auto simp: onNewValueChanged_def new_only_def split: option.splits)
next
  case (DPBlockSubscribed k)
  assume "defaultNewProtocol p" "newProtocol p"
  then have "new_only (dp_forcePending p)" by (rule new_only_force)
  then show ?thesis unfolding DPBlockSubscribed
    by (auto simp: dp_blockUntilSubscribed_def new_only_def split: prod.splits)
next
  case (DPOldReply req r)
  assume "defaultNewProtocol p" "newProtocol p"
  then show ?thesis unfolding DPOldReply
    using WGetSubscriber_from_si by (simp only: dp_step.simps new_only_def fst_conv snd_conv) blast
next
  case (DPChanged vs ns)
  assume "defaultNewProtocol p" "newProtocol p"
  then show ?thesis unfolding DPChanged
    using WGetSubscriber_from_si by (simp only: dp_step.simps new_only_def fst_conv snd_conv) blast
next
  case (DPGotSubscriber path)
  assume "defaultNewProtocol p" "newProtocol p"
  then show ?thesis unfolding DPGotSubscriber by (simp add: new_only_def onDBusGetSubscriberFinished_def)
qed (simp_all add: new_only_failed new_only_appeared dp_blockUntilReady_def new_only_subscribe)

text \<open>C20: the fallback to the new protocol is final: after the provider has answered
  \<open>GetSubscriber\<close> with an unknown object, no event makes the plugin ask for a subscriber
  object again, and every later subscription uses the new protocol.\<close>

theorem protocol_fallback_final:
  assumes "ev_run (dp_step U) es (fst (onDBusGetSubscriberFailed U True p)) = (p', os)"
  shows "WGetSubscriber \<notin> set os \<and> newProtocol p' \<and>
    (\<forall>valid ks. snd (dp_subscribe valid ks p') = [])"
proof -
  let ?p = "fst (onDBusGetSubscriberFailed U True p)"
  have start: "defaultNewProtocol ?p" "newProtocol ?p"
    by (simp_all add: onDBusGetSubscriberFailed_def useNewProtocol_def Let_def)
  have "new_only (ev_run (dp_step U) es q)" if "defaultNewProtocol q" "newProtocol q" for q
    using that
  proof (induction es arbitrary: q)
    case Nil
    then show ?case by (simp add: new_only_def)
  next
    case (Cons e es)
    have 1: "new_only (dp_step U e q)" using Cons.prems by (rule new_only_step)
    then have "new_only (ev_run (dp_step U) es (fst (dp_step U e q)))"
      by (intro Cons.IH) (simp_all add: new_only_def)
    with 1 show ?case by (auto simp: new_only_def split: prod.splits)
  qed
  from this [OF start] show ?thesis unfolding assms by (simp add: new_only_def dp_subscribe_def)
qed

lemma protocol_fallback_final_witness:
  "WGetSubscriber \<notin> set (snd (ev_run (dp_step (\<lambda>_. [])) [DPName NLRegistered None, DPPosted None]
     (fst (onDBusGetSubscriberFailed (\<lambda>_. []) True sample_plugin))))"
  using protocol_fallback_final [OF prod.collapse [symmetric], of "\<lambda>_. []"
      "[DPName NLRegistered None, DPPosted None]" sample_plugin] by blast

text \<open>Under the old protocol, blocking for readiness drops the subscriber object of a plugin
  that is ready already; a subscription before the next \<open>GetSubscriber\<close> reply then goes
  through a null pointer.\<close>

lemma block_until_ready_drops_subscriber:
  assumes "\<not> defaultNewProtocol p"
  shows "dp_blockUntilReady U None p = (dp_reset U p\<lparr>managerInterface := True\<rparr>, [WGetSubscriber]) \<and>
    snd (dp_subscribe valid ks (fst (dp_blockUntilReady U None p))) = [PNullDeref]"
  using assms by (simp add: dp_blockUntilReady_def onProviderAppeared_def dp_subscribe_def dp_reset_def Let_def)

lemma block_until_ready_drops_subscriber_witness:
  "snd (dp_subscribe True [''A.b'']
     (fst (dp_blockUntilReady (\<lambda>_. []) None (fst (onDBusGetSubscriberFinished ''/sub''
        (setDefaultNewProtocol False sample_plugin)))))) = [PNullDeref]"
  by (rule conjunct2 [OF block_until_ready_drops_subscriber])
    (simp add: onDBusGetSubscriberFinished_def setDefaultNewProtocol_def)

end
