(* ===== verification/Provider_Info.thy ===== *)
theory Provider_Info
  imports CK_Prelude
begin

text \<open>
  \<open>ContextProviderInfo\<close> (contextproviderinfo.h): the plugin and the construction string that
  identify a provider, with the order under which \<open>Provider::instance\<close> keys its instances.
\<close>

record provider_info =
  pi_plugin :: string
  pi_construction :: string

definition pi_less :: "provider_info \<Rightarrow> provider_info \<Rightarrow> bool" where
  "pi_less a b = (pi_plugin a < pi_plugin b \<or>
     (pi_plugin a = pi_plugin b \<and> pi_construction a < pi_construction b))"

instantiation provider_info_ext :: (linorder) linorder
begin

definition less_provider_info_ext :: "'a provider_info_scheme \<Rightarrow> 'a provider_info_scheme \<Rightarrow> bool" where
  "a < b = (pi_plugin a < pi_plugin b \<or> (pi_plugin a = pi_plugin b \<and>
     (pi_construction a < pi_construction b \<or> (pi_construction a = pi_construction b \<and>
       provider_info.more a < provider_info.more b))))"

definition less_eq_provider_info_ext :: "'a provider_info_scheme \<Rightarrow> 'a provider_info_scheme \<Rightarrow> bool" where
  "a \<le> b = (a < b \<or> a = (b :: 'a provider_info_scheme))"

instance
proof
  fix x y :: "'a provider_info_scheme"
  show "x \<le> y \<or> y \<le> x"
    using provider_info.equality [of x y]
    by (auto simp: less_provider_info_ext_def less_eq_provider_info_ext_def not_less order_le_less)
qed (auto simp: less_provider_info_ext_def less_eq_provider_info_ext_def)

end

lemma pi_less_order: "pi_less a b \<longleftrightarrow> a < (b :: provider_info)"
  by (auto simp: pi_less_def less_provider_info_ext_def)

end
