(* ===== verification/Provider.thy ===== *)
theory Provider
  imports Queued_Invoker Dbus_Plugin Provider_Info
begin

text \<open>
  \<open>Provider\<close> (provider.cpp): one plugin, the subscriptions intended by the upper layer and
  those scheduled for the plugin, and the values received. Calls to the plugin and signals to
  the handles are outputs; the plugin's signals are the events \<open>plugin_signal\<close>. Subscribing
  and unsubscribing only schedule; the plugin is called from \<open>handleSubscribes\<close>, which the
  event loop runs through the queue of deferred calls.
\<close>

datatype plugin_state = INITIALIZING | READY | FAILED

record provider =
  pr_info :: provider_info
  pr_plugin :: bool
  pluginState :: plugin_state
  toSubscribe :: "key list"
  toUnsubscribe :: "key list"
  subscribedKeys :: "key list"
  pr_values :: "(key \<times> timed_value) list"
  pluginConstructed :: bool
  pr_queue :: invoker

datatype provider_out =
    CallSubscribe "key list"
  | CallUnsubscribe "key list"
  | CallBlockUntilReady
  | CallBlockUntilSubscribed key
  | SubscribeFinished key
  | ValueChanged key

type_synonym pr_result = "provider \<times> provider_out list"

text \<open>What loading a plugin depends on: the environment variable for the plugin directory, its
  default, and whether a library resolves and its factory returns a plugin.\<close>

record plugin_env =
  pe_pluginsEnv :: "string option"
  pe_pluginsDefault :: string
  pe_library :: "string \<Rightarrow> string \<Rightarrow> bool"

definition pr_queueOnce :: "string \<Rightarrow> provider \<Rightarrow> provider" where
  "pr_queueOnce m p = p\<lparr>pr_queue := queueOnce m (pr_queue p)\<rparr>"

definition provider_new :: "provider_info \<Rightarrow> provider" where
  "provider_new info = pr_queueOnce ''constructPlugin''
     \<lparr>pr_info = info, pr_plugin = False, pluginState = INITIALIZING, toSubscribe = [], toUnsubscribe = [],
      subscribedKeys = [], pr_values = [], pluginConstructed = False, pr_queue = qi_new\<rparr>"

definition handleSubscribes :: "provider \<Rightarrow> pr_result" where
  "handleSubscribes p = (case pluginState p of
      READY \<Rightarrow>
        (p\<lparr>toSubscribe := [], toUnsubscribe := []\<rparr>,
         (if length (toSubscribe p) > 0 then [CallSubscribe (toSubscribe p)] else []) @
         (if length (toUnsubscribe p) > 0 then [CallUnsubscribe (toUnsubscribe p)] else []))
    | FAILED \<Rightarrow> (p\<lparr>toSubscribe := [], toUnsubscribe := []\<rparr>, map SubscribeFinished (toSubscribe p))
    | INITIALIZING \<Rightarrow> (p, []))"

definition pluginFilename :: "plugin_env \<Rightarrow> string \<Rightarrow> string" where
  "pluginFilename E plugin =
     (let pluginPath = (case pe_pluginsEnv E of Some d \<Rightarrow> d | None \<Rightarrow> pe_pluginsDefault E);
          dir = (if qs_endsWith pluginPath ''/'' then butlast pluginPath else pluginPath)
      in dir @ plugin)"

definition loads :: "plugin_env \<Rightarrow> provider_info \<Rightarrow> bool" where
  "loads E info =
     (if pi_plugin info = ''contextkit-dbus'' then
        contextKitPluginFactory (\<lambda>c. c) (pi_construction info) \<noteq> None
      else if qs_startsWith (pi_plugin info) ''/'' then
        pe_library E (pluginFilename E (pi_plugin info)) (pi_construction info)
      else False)"

definition constructPlugin :: "plugin_env \<Rightarrow> provider \<Rightarrow> pr_result" where
  "constructPlugin E p =
     (if pluginConstructed p then (p, [])
      else
        let p1 = p\<lparr>pluginConstructed := True, pr_plugin := loads E (pr_info p)\<rparr>
        in if \<not> pr_plugin p1 then handleSubscribes (p1\<lparr>pluginState := FAILED\<rparr>)
           else (p1, []))"

definition onPluginReady :: "provider \<Rightarrow> pr_result" where
  "onPluginReady p =
     (if pluginState p = READY then (p, [])
      else handleSubscribes (p\<lparr>toUnsubscribe := [], toSubscribe := qset_union [] (subscribedKeys p),
             pluginState := READY\<rparr>))"

definition clearValues :: "provider \<Rightarrow> provider" where
  "clearValues p = p\<lparr>pr_values := []\<rparr>"

definition onPluginFailed :: "provider \<Rightarrow> pr_result" where
  "onPluginFailed p = handleSubscribes (p\<lparr>pluginState := FAILED\<rparr>)"

definition signalSubscribeFinished :: "key \<Rightarrow> provider \<Rightarrow> provider_out list" where
  "signalSubscribeFinished key p = (if key \<in> set (subscribedKeys p) then [SubscribeFinished key] else [])"

definition onPluginValueChanged :: "key \<Rightarrow> timed_value \<Rightarrow> provider \<Rightarrow> pr_result" where
  "onPluginValueChanged key newValue p =
     (if key \<in> set (subscribedKeys p)
      then (p\<lparr>pr_values := smap_insert key newValue (pr_values p)\<rparr>, [ValueChanged key])
      else (p, []))"

definition onPluginVariantChanged :: "64 word \<times> 64 word \<Rightarrow> key \<Rightarrow> qvariant \<Rightarrow> provider \<Rightarrow> pr_result" where
  "onPluginVariantChanged clock key newValue p =
     (if key \<in> set (subscribedKeys p)
      then (p\<lparr>pr_values := smap_insert key (tv_now (fst clock) (snd clock) newValue) (pr_values p)\<rparr>, [ValueChanged key])
      else (p, []))"

definition onPluginSubscribeFinishedValue :: "key \<Rightarrow> timed_value \<Rightarrow> provider \<Rightarrow> pr_result" where
  "onPluginSubscribeFinishedValue key v p =
     (case onPluginValueChanged key v p of (p1, os) \<Rightarrow> (p1, signalSubscribeFinished key p @ os))"

definition onPluginSubscribeFinished :: "key \<Rightarrow> provider \<Rightarrow> pr_result" where
  "onPluginSubscribeFinished key p = (p, signalSubscribeFinished key p)"

definition onPluginSubscribeFailed :: "key \<Rightarrow> string \<Rightarrow> provider \<Rightarrow> pr_result" where
  "onPluginSubscribeFailed key err p = (p, signalSubscribeFinished key p)"

text \<open>The result of \<open>subscribe\<close> says whether the main loop has to run for the subscription.\<close>

definition pr_subscribe :: "key \<Rightarrow> provider \<Rightarrow> bool \<times> provider" where
  "pr_subscribe key p =
     (let p1 = p\<lparr>subscribedKeys := qset_insert key (subscribedKeys p)\<rparr>
      in if key \<in> set (toUnsubscribe p1) then
           (False, p1\<lparr>toUnsubscribe := qset_remove key (toUnsubscribe p1)\<rparr>)
         else (True, pr_queueOnce ''handleSubscribes'' (p1\<lparr>toSubscribe := qset_insert key (toSubscribe p1)\<rparr>)))"

definition pr_unsubscribe :: "key \<Rightarrow> provider \<Rightarrow> provider" where
  "pr_unsubscribe key p =
     (let p1 = p\<lparr>subscribedKeys := qset_remove key (subscribedKeys p)\<rparr>
      in if key \<in> set (toSubscribe p1) then p1\<lparr>toSubscribe := qset_remove key (toSubscribe p1)\<rparr>
         else pr_queueOnce ''handleSubscribes'' (p1\<lparr>toUnsubscribe := qset_insert key (toUnsubscribe p1)\<rparr>))"

text \<open>For a key without a value \<open>get\<close> returns the null value; its time, which the code takes
  from the clock, is not read.\<close>

definition pr_get :: "key \<Rightarrow> provider \<Rightarrow> timed_value" where
  "pr_get key p = (case map_of (pr_values p) key of Some v \<Rightarrow> v | None \<Rightarrow> tv_null)"

section \<open>Events\<close>

datatype plugin_signal =
    SigReady
  | SigFailed
  | SigSubscribeFinished key
  | SigSubscribeFinishedValue key timed_value
  | SigSubscribeFailed key string
  | SigValueChanged key timed_value
  | SigVariantChanged "64 word \<times> 64 word" key qvariant

fun pr_on_plugin :: "plugin_signal \<Rightarrow> provider \<Rightarrow> pr_result" where
  "pr_on_plugin SigReady p = onPluginReady p"
| "pr_on_plugin SigFailed p = onPluginFailed p"
| "pr_on_plugin (SigSubscribeFinished k) p = onPluginSubscribeFinished k p"
| "pr_on_plugin (SigSubscribeFinishedValue k v) p = onPluginSubscribeFinishedValue k v p"
| "pr_on_plugin (SigSubscribeFailed k err) p = onPluginSubscribeFailed k err p"
| "pr_on_plugin (SigValueChanged k v) p = onPluginValueChanged k v p"
| "pr_on_plugin (SigVariantChanged clock k v) p = onPluginVariantChanged clock k v p"

definition pr_invoke :: "plugin_env \<Rightarrow> string \<Rightarrow> provider \<Rightarrow> pr_result" where
  "pr_invoke E method p =
     (if method = ''constructPlugin'' then constructPlugin E p
      else if method = ''handleSubscribes'' then handleSubscribes p else (p, []))"

text \<open>One turn of the event loop for this provider.\<close>

definition pr_loop :: "plugin_env \<Rightarrow> provider \<Rightarrow> pr_result" where
  "pr_loop E p = (case onQueuedCall (pr_queue p) of
      (q, []) \<Rightarrow> (p\<lparr>pr_queue := q\<rparr>, [])
    | (q, method # _) \<Rightarrow> pr_invoke E method (p\<lparr>pr_queue := q\<rparr>))"

text \<open>\<open>reaction\<close>: the signals the plugin emits while \<open>blockUntilReady\<close> runs.\<close>

definition pr_blockUntilSubscribed ::
    "plugin_env \<Rightarrow> plugin_signal list \<Rightarrow> key \<Rightarrow> provider \<Rightarrow> pr_result" where
  "pr_blockUntilSubscribed E reaction key p =
     (case constructPlugin E p of (p1, o1) \<Rightarrow>
      if \<not> pr_plugin p1 then (p1, o1)
      else case ev_run pr_on_plugin reaction p1 of (p2, o2) \<Rightarrow>
        (p2, o1 @ CallBlockUntilReady # o2 @
           (if pluginState p2 = READY then [CallBlockUntilSubscribed key] else [])))"

definition provider_instance ::
    "provider_info \<Rightarrow> (provider_info \<times> provider) list \<Rightarrow> provider \<times> (provider_info \<times> provider) list" where
  "provider_instance info instances =
     (let instances1 = (if map_of instances info = None then smap_insert info (provider_new info) instances
                        else instances)
      in (the (map_of instances1 info), instances1))"

lemmas provider_defs = provider_new_def pr_queueOnce_def handleSubscribes_def constructPlugin_def
  onPluginReady_def clearValues_def onPluginFailed_def signalSubscribeFinished_def onPluginValueChanged_def
  onPluginVariantChanged_def onPluginSubscribeFinishedValue_def onPluginSubscribeFinished_def
  onPluginSubscribeFailed_def pr_subscribe_def pr_unsubscribe_def pr_get_def pr_invoke_def pr_loop_def Let_def

section \<open>The subscriptions on the wire\<close>

text \<open>
  The plugin's side of the subscriptions: the keys it was last told to be subscribed to. Its
  documented contract is that it is subscribed to nothing when it becomes ready.
\<close>

fun wire_out :: "key set \<Rightarrow> provider_out \<Rightarrow> key set" where
  "wire_out w (CallSubscribe ks) = w \<union> set ks"
| "wire_out w (CallUnsubscribe ks) = w - set ks"
| "wire_out w _ = w"

definition wire_after :: "key set \<Rightarrow> provider_out list \<Rightarrow> key set" where
  "wire_after w os = foldl wire_out w os"

text \<open>
  The steps of one provider. The upper layer subscribes a key only when it is not subscribed and
  unsubscribes it only when it is (the subscribe count of the handle); signals come from a
  plugin that exists.
\<close>

inductive pr_trans :: "plugin_env \<Rightarrow> provider \<times> key set \<Rightarrow> provider \<times> key set \<Rightarrow> bool" for E where
  loop: "pr_loop E p = (p', os) \<Longrightarrow> pr_trans E (p, w) (p', wire_after w os)"
| construct: "constructPlugin E p = (p', os) \<Longrightarrow> pr_trans E (p, w) (p', wire_after w os)"
| subscribe: "k \<notin> set (subscribedKeys p) \<Longrightarrow> pr_trans E (p, w) (snd (pr_subscribe k p), w)"
| unsubscribe: "k \<in> set (subscribedKeys p) \<Longrightarrow> pr_trans E (p, w) (pr_unsubscribe k p, w)"
| clear: "pr_trans E (p, w) (clearValues p, w)"
| ready: "pr_plugin p \<Longrightarrow> onPluginReady p = (p', os) \<Longrightarrow>
    pr_trans E (p, w) (p', wire_after (if pluginState p = READY then w else {}) os)"
| signal: "pr_plugin p \<Longrightarrow> sg \<noteq> SigReady \<Longrightarrow> pr_on_plugin sg p = (p', os) \<Longrightarrow>
    pr_trans E (p, w) (p', wire_after w os)"

inductive_cases pr_transE: "pr_trans E s s'"

definition pr_ok :: "provider \<times> key set \<Rightarrow> bool" where
  "pr_ok s = (case s of (p, w) \<Rightarrow>
     qi_ok (pr_queue p) \<and>
     set (toSubscribe p) \<subseteq> set (subscribedKeys p) \<and>
     set (toUnsubscribe p) \<inter> set (subscribedKeys p) = {} \<and>
     (\<not> pluginConstructed p \<longrightarrow> \<not> pr_plugin p \<and> ''constructPlugin'' \<in> set (qi_posted (pr_queue p))) \<and>
     (\<not> pr_plugin p \<longrightarrow> pluginState p = (if pluginConstructed p then FAILED else INITIALIZING)) \<and>
     (pluginState p \<noteq> INITIALIZING \<longrightarrow> toSubscribe p \<noteq> [] \<or> toUnsubscribe p \<noteq> [] \<longrightarrow>
        ''handleSubscribes'' \<in> set (qi_posted (pr_queue p))) \<and>
     (pluginState p = READY \<longrightarrow>
        w = set (subscribedKeys p) - set (toSubscribe p) \<union> set (toUnsubscribe p)))"

lemma wire_after_finished [simp]: "wire_after w (map SubscribeFinished ks) = w"
  unfolding wire_after_def by (induction ks) simp_all

lemma wire_after_calls [simp]:
  "wire_after w ((if length xs > 0 then [CallSubscribe xs] else []) @
                 (if length ys > 0 then [CallUnsubscribe ys] else [])) = (w \<union> set xs) - set ys"
  by (cases xs; cases ys) (simp_all add: wire_after_def)

lemma wire_after_Nil [simp]: "wire_after w [] = w"
  by (simp add: wire_after_def)

lemma handleSubscribes_ok:
  assumes "qi_ok (pr_queue p)" and "set (toSubscribe p) \<subseteq> set (subscribedKeys p)"
    and "set (toUnsubscribe p) \<inter> set (subscribedKeys p) = {}"
    and "\<not> pluginConstructed p \<longrightarrow> \<not> pr_plugin p \<and> ''constructPlugin'' \<in> set (qi_posted (pr_queue p))"
    and "\<not> pr_plugin p \<longrightarrow> pluginState p = (if pluginConstructed p then FAILED else INITIALIZING)"
    and "pluginState p = READY \<longrightarrow>
        w = set (subscribedKeys p) - set (toSubscribe p) \<union> set (toUnsubscribe p)"
    and "handleSubscribes p = (p', os)"
  shows "pr_ok (p', wire_after w os)"
proof (cases "pluginState p")
  case INITIALIZING
  then have "p' = p" "os = []" using assms(7) by (auto simp: handleSubscribes_def)
  then show ?thesis using assms(1-6) INITIALIZING by (simp add: pr_ok_def)
next
  case READY
  then have "p' = p\<lparr>toSubscribe := [], toUnsubscribe := []\<rparr>"
      "wire_after w os = (w \<union> set (toSubscribe p)) - set (toUnsubscribe p)"
    using assms(7) wire_after_calls [of w "toSubscribe p" "toUnsubscribe p"]
    by (simp_all add: handleSubscribes_def)
  moreover have "(w \<union> set (toSubscribe p)) - set (toUnsubscribe p) = set (subscribedKeys p)"
    using assms(2,3,6) READY by blast
  ultimately show ?thesis using assms(1-5) READY by (simp add: pr_ok_def)
next
  case FAILED
  then have "p' = p\<lparr>toSubscribe := [], toUnsubscribe := []\<rparr>" "wire_after w os = w"
    using assms(7) by (auto simp: handleSubscribes_def)
  then show ?thesis using assms(1-5) FAILED by (simp add: pr_ok_def)
qed

lemma pr_loop_ok:
  assumes "pr_ok (p, w)" and "pr_loop E p = (p', os)"
  shows "pr_ok (p', wire_after w os)"
proof -
  obtain q ms where q: "onQueuedCall (pr_queue p) = (q, ms)" by (cases "onQueuedCall (pr_queue p)")
  have qok: "qi_ok q" using q qi_ok_onQueuedCall [of "pr_queue p"] assms(1) by (simp add: pr_ok_def)
  have posted: "qi_posted (pr_queue p) = ms @ qi_posted q"
    using qi.posted_deq [OF _ q] assms(1) by (simp add: pr_ok_def)
  have len: "ms = [] \<or> (\<exists>m. ms = [m])" using q by (auto simp: onQueuedCall_def split: list.splits)
  show ?thesis
  proof (cases "ms = []")
    case True
    then have "p' = p\<lparr>pr_queue := q\<rparr>" "os = []" using assms(2) q by (auto simp: pr_loop_def)
    then show ?thesis using assms(1) qok posted True by (auto simp: pr_ok_def wire_after_def)
  next
    case False
    then obtain m where m: "ms = [m]" using len by blast
    have inv: "pr_invoke E m (p\<lparr>pr_queue := q\<rparr>) = (p', os)" using assms(2) q m by (simp add: pr_loop_def)
    consider "m = ''constructPlugin''" | "m = ''handleSubscribes''" | "m \<noteq> ''constructPlugin''" "m \<noteq> ''handleSubscribes''"
      by blast
    then show ?thesis
    proof cases
      case 1
      show ?thesis
      proof (cases "pluginConstructed p \<or> loads E (pr_info p)")
        case True
        then have "p' = p\<lparr>pr_queue := q, pluginConstructed := True, pr_plugin := (if pluginConstructed p then pr_plugin p else True)\<rparr>" "os = []"
          using inv 1 by (auto simp: pr_invoke_def constructPlugin_def Let_def split: if_splits)
        then show ?thesis using assms(1) qok posted m 1 by (auto simp: pr_ok_def wire_after_def split: if_splits)
      next
        case False
        then have "handleSubscribes (p\<lparr>pr_queue := q, pluginConstructed := True, pr_plugin := False, pluginState := FAILED\<rparr>) = (p', os)"
          using inv 1 by (simp add: pr_invoke_def constructPlugin_def Let_def)
        then show ?thesis
          by (rule handleSubscribes_ok [rotated 6]) (use assms(1) qok in \<open>auto simp: pr_ok_def\<close>)
      qed
    next
      case 2
      then have "handleSubscribes (p\<lparr>pr_queue := q\<rparr>) = (p', os)" using inv by (simp add: pr_invoke_def)
      then show ?thesis
        by (rule handleSubscribes_ok [rotated 6]) (use assms(1) qok posted m 2 in \<open>auto simp: pr_ok_def\<close>)
    next
      case 3
      then have "p' = p\<lparr>pr_queue := q\<rparr>" "os = []" using inv by (auto simp: pr_invoke_def)
      then show ?thesis using assms(1) qok posted m 3 by (auto simp: pr_ok_def wire_after_def)
    qed
  qed
qed

lemma constructPlugin_ok:
  assumes "pr_ok (p, w)" and "constructPlugin E p = (p', os)"
  shows "pr_ok (p', wire_after w os)"
proof (cases "pluginConstructed p \<or> loads E (pr_info p)")
  case True
  then have "p' = p\<lparr>pluginConstructed := True, pr_plugin := (if pluginConstructed p then pr_plugin p else True)\<rparr>" "os = []"
    using assms(2) by (auto simp: constructPlugin_def Let_def split: if_splits)
  then show ?thesis using assms(1) by (auto simp: pr_ok_def split: if_splits)
next
  case False
  then have "handleSubscribes (p\<lparr>pluginConstructed := True, pr_plugin := False, pluginState := FAILED\<rparr>) = (p', os)"
    using assms(2) by (simp add: constructPlugin_def Let_def)
  then show ?thesis
    by (rule handleSubscribes_ok [rotated 6]) (use assms(1) in \<open>auto simp: pr_ok_def\<close>)
qed

lemma pr_subscribe_ok: "pr_ok (p, w) \<Longrightarrow> k \<notin> set (subscribedKeys p) \<Longrightarrow> pr_ok (snd (pr_subscribe k p), w)"
  by (cases "k \<in> set (toUnsubscribe p)") (auto simp: pr_ok_def pr_subscribe_def pr_queueOnce_def Let_def)

lemma pr_unsubscribe_ok: "pr_ok (p, w) \<Longrightarrow> k \<in> set (subscribedKeys p) \<Longrightarrow> pr_ok (pr_unsubscribe k p, w)"
  by (cases "k \<in> set (toSubscribe p)") (auto simp: pr_ok_def pr_unsubscribe_def pr_queueOnce_def Let_def)

lemma clearValues_ok: "pr_ok (p, w) \<Longrightarrow> pr_ok (clearValues p, w)"
  by (simp add: pr_ok_def clearValues_def)

lemma onPluginReady_ok:
  assumes "pr_ok (p, w)" and "pr_plugin p" and "onPluginReady p = (p', os)"
  shows "pr_ok (p', wire_after (if pluginState p = READY then w else {}) os)"
proof (cases "pluginState p = READY")
  case True
  then show ?thesis using assms by (auto simp: onPluginReady_def)
next
  case False
  then have "handleSubscribes (p\<lparr>toUnsubscribe := [], toSubscribe := qset_union [] (subscribedKeys p),
      pluginState := READY\<rparr>) = (p', os)"
    using assms(3) by (simp add: onPluginReady_def)
  then have "pr_ok (p', wire_after {} os)"
    by (rule handleSubscribes_ok [rotated 6]) (use assms(1,2) in \<open>auto simp: pr_ok_def\<close>)
  then show ?thesis using False by simp
qed

lemma pr_signal_ok:
  assumes "pr_ok (p, w)" and "pr_plugin p" and "sg \<noteq> SigReady" and "pr_on_plugin sg p = (p', os)"
  shows "pr_ok (p', wire_after w os)"
proof (cases "sg = SigFailed")
  case True
  then have "handleSubscribes (p\<lparr>pluginState := FAILED\<rparr>) = (p', os)"
    using assms(4) by (simp add: onPluginFailed_def)
  then show ?thesis
    by (rule handleSubscribes_ok [rotated 6]) (use assms(1,2) in \<open>auto simp: pr_ok_def\<close>)
next
  case False
  have "p' = p\<lparr>pr_values := pr_values p'\<rparr>"
    using assms(3,4) False by (cases sg) (auto simp: provider_defs split: if_splits prod.splits)
  moreover have "wire_after w os = w"
    using assms(3,4) False
    by (cases sg) (auto simp: provider_defs wire_after_def split: if_splits prod.splits)
  ultimately show ?thesis using assms(1) by (cases "qi_posted (pr_queue p)"; cases p; cases p') (simp_all add: pr_ok_def)
qed

lemma pr_trans_ok: "pr_trans E s s' \<Longrightarrow> pr_ok s \<Longrightarrow> pr_ok s'"
  by (induction rule: pr_trans.induct)
    (simp_all add: pr_loop_ok constructPlugin_ok pr_subscribe_ok pr_unsubscribe_ok clearValues_ok
      onPluginReady_ok pr_signal_ok)

lemma provider_new_ok: "pr_ok (provider_new info, {})"
  by (simp add: pr_ok_def provider_new_def pr_queueOnce_def posted_queueOnce)

lemma pr_reachable_ok: "(pr_trans E)\<^sup>*\<^sup>* (provider_new info, {}) s \<Longrightarrow> pr_ok s"
  by (induction rule: rtranclp_induct) (auto intro: provider_new_ok pr_trans_ok)

text \<open>C4: the plugin follows the subscriptions. In every state a provider can reach, whatever the
  order of subscriptions, plugin signals and event loop turns: a plugin that was never loaded is
  never called, scheduled subscriptions are intended ones and scheduled unsubscriptions are not;
  and when the plugin is ready and the event loop has nothing left for the provider, the keys the
  plugin is subscribed to are exactly the intended ones.\<close>

theorem wire_follows_subscriptions:
  assumes "(pr_trans E)\<^sup>*\<^sup>* (provider_new info, {}) (p, w)"
  shows "(pluginState p = READY \<longrightarrow> pr_plugin p) \<and>
    set (toSubscribe p) \<subseteq> set (subscribedKeys p) \<and> set (toUnsubscribe p) \<inter> set (subscribedKeys p) = {} \<and>
    (pluginState p = READY \<and> qi_posted (pr_queue p) = [] \<longrightarrow>
       w = set (subscribedKeys p) \<and> toSubscribe p = [] \<and> toUnsubscribe p = [])"
  using pr_reachable_ok [OF assms] by (auto simp: pr_ok_def split: if_splits)

definition no_plugins :: plugin_env where
  "no_plugins = \<lparr>pe_pluginsEnv = None, pe_pluginsDefault = ''/usr/lib'', pe_library = (\<lambda>_ _. False)\<rparr>"

definition session_info :: provider_info where
  "session_info = \<lparr>pi_plugin = ''contextkit-dbus'', pi_construction = ''session:org.example''\<rparr>"

lemma session_loads: "loads no_plugins session_info"
  by code_simp

lemma sample_run:
  defines "p1 \<equiv> fst (pr_loop no_plugins (provider_new session_info))"
  defines "p2 \<equiv> snd (pr_subscribe ''A.b'' p1)"
  defines "p3 \<equiv> fst (onPluginReady p2)"
  defines "p4 \<equiv> fst (pr_loop no_plugins p3)"
  shows "(pr_trans no_plugins)\<^sup>*\<^sup>* (provider_new session_info, {}) (p4, {''A.b''})"
    and "pluginState p4 = READY" "qi_posted (pr_queue p4) = []" "subscribedKeys p4 = [''A.b'']"
proof -
  have 1: "pr_loop no_plugins (provider_new session_info) = (p1, [])" and p1: "''A.b'' \<notin> set (subscribedKeys p1)"
    unfolding p1_def by code_simp+
  have 3: "onPluginReady p2 = (p3, [CallSubscribe [''A.b'']])" "pluginState p2 \<noteq> READY" "pr_plugin p2"
    unfolding p3_def p2_def p1_def by code_simp+
  have 4: "pr_loop no_plugins p3 = (p4, [])"
    unfolding p4_def p3_def p2_def p1_def by code_simp
  have s1: "pr_trans no_plugins (provider_new session_info, {}) (p1, {})"
    using pr_trans.loop [OF 1, of "{}"] by simp
  have s2: "pr_trans no_plugins (p1, {}) (p2, {})"
    unfolding p2_def by (rule pr_trans.subscribe [OF p1])
  have s3: "pr_trans no_plugins (p2, {}) (p3, {''A.b''})"
    using pr_trans.ready [OF 3(3,1), of no_plugins "{}"] 3(2) by (simp add: wire_after_def)
  have s4: "pr_trans no_plugins (p3, {''A.b''}) (p4, {''A.b''})"
    using pr_trans.loop [OF 4, of "{''A.b''}"] by simp
  show "(pr_trans no_plugins)\<^sup>*\<^sup>* (provider_new session_info, {}) (p4, {''A.b''})"
    by (meson rtranclp.rtrancl_into_rtrancl rtranclp.rtrancl_refl s1 s2 s3 s4)
  show "pluginState p4 = READY" "qi_posted (pr_queue p4) = []" "subscribedKeys p4 = [''A.b'']"
    unfolding p4_def p3_def p2_def p1_def by code_simp+
qed

lemma wire_follows_subscriptions_witness:
  "\<exists>p :: provider. pluginState p = READY \<and> qi_posted (pr_queue p) = [] \<and> {''A.b''} = set (subscribedKeys p)"
proof -
  obtain p where p: "(pr_trans no_plugins)\<^sup>*\<^sup>* (provider_new session_info, {}) (p, {''A.b''})"
      "pluginState p = READY" "qi_posted (pr_queue p) = []"
    using sample_run(1-3) by blast
  have "{''A.b''} = set (subscribedKeys p)"
    using conjunct2 [OF conjunct2 [OF conjunct2 [OF wire_follows_subscriptions [OF p(1)]]]] p(2,3) by simp
  then show ?thesis using p(2,3) by (intro exI [of _ p]) simp
qed

end
