(* ===== verification/Property_System.thy ===== *)
theory Property_System
  imports Provider
begin

text \<open>
  The subscriber side of the library put together: \<open>PropertyHandle\<close> (propertyhandle.cpp),
  \<open>HandleSignalRouter\<close> (handlesignalrouter.cpp) and \<open>ContextProperty\<close>
  (contextproperty.cpp) over the providers. A provider pointer is the \<open>provider_info\<close> that
  \<open>Provider::instance\<close> maps to it. The registry, the type check and the bus are parameters.
  The signals between handles and providers are direct calls and are routed inside a step; calls
  to the plugins and the signals to the application are outputs.
\<close>

record handle =
  subscribeCount :: "32 word"
  myProviders :: "provider_info list"
  pendingSubscriptions :: "provider_info list"
  myValue :: qvariant
  h_listens :: bool

record context_property =
  cp_key :: key
  cp_subscribed :: bool
  cp_value :: qvariant

record sys =
  sy_providers :: "(provider_info \<times> provider) list"
  sy_handles :: "(key \<times> handle) list"
  sy_props :: "context_property list"
  commanderListener :: name_listener
  commandingEnabled :: bool
  typeCheckEnabled :: bool
  sy_registry :: "key \<Rightarrow> provider_info list"

record sys_env =
  en_qt :: qt_lib
  en_plugins :: plugin_env
  en_typeOk :: "key \<Rightarrow> qvariant \<Rightarrow> bool"
  en_commanding :: bool
  en_busConnected :: bool

datatype sys_out =
    HandleChanged key
  | PropertyChanged nat
  | PluginCall provider_info provider_out
  | ListenerCall nl_out

type_synonym sy_result = "sys \<times> sys_out list"

definition commanderInfo :: provider_info where
  "commanderInfo = \<lparr>pi_plugin = ''contextkit-dbus'', pi_construction = commanderConstruction\<rparr>"

definition sys_new :: "(key \<Rightarrow> provider_info list) \<Rightarrow> sys" where
  "sys_new registry = \<lparr>sy_providers = [], sy_handles = [], sy_props = [],
     commanderListener = nl_of_busType SessionBus ''org.freedesktop.ContextKit.Commander'',
     commandingEnabled = True, typeCheckEnabled = False, sy_registry = registry\<rparr>"

section \<open>Access to the instances\<close>

definition sy_instance :: "provider_info \<Rightarrow> sys \<Rightarrow> sys" where
  "sy_instance i sy = sy\<lparr>sy_providers := snd (provider_instance i (sy_providers sy))\<rparr>"

definition sy_provider :: "provider_info \<Rightarrow> sys \<Rightarrow> provider" where
  "sy_provider i sy = fst (provider_instance i (sy_providers sy))"

definition sy_put :: "provider_info \<Rightarrow> provider \<Rightarrow> sys \<Rightarrow> sys" where
  "sy_put i p sy = sy\<lparr>sy_providers := smap_insert i p (sy_providers sy)\<rparr>"

definition handle_new :: "bool \<Rightarrow> handle" where
  "handle_new listens = \<lparr>subscribeCount = 0, myProviders = [], pendingSubscriptions = [],
     myValue = VInvalid, h_listens = listens\<rparr>"

definition sy_handle :: "key \<Rightarrow> sys \<Rightarrow> handle" where
  "sy_handle k sy = (case map_of (sy_handles sy) k of Some h \<Rightarrow> h | None \<Rightarrow> handle_new False)"

definition sy_put_handle :: "key \<Rightarrow> handle \<Rightarrow> sys \<Rightarrow> sys" where
  "sy_put_handle k h sy = sy\<lparr>sy_handles := amap_insert k h (sy_handles sy)\<rparr>"

section \<open>PropertyHandle\<close>

text \<open>The latest of the values that are not null; the first of equally late ones.\<close>

definition h_latest :: "timed_value list \<Rightarrow> timed_value option" where
  "h_latest tvs = foldl (\<lambda>latest current.
     if qv_isNull (tv_value current) then latest
     else (case latest of None \<Rightarrow> Some current
           | Some l \<Rightarrow> if tv_less l current then Some current else Some l)) None tvs"

definition h_newValue :: "key \<Rightarrow> sys \<Rightarrow> qvariant" where
  "h_newValue k sy =
     (case h_latest (map (\<lambda>i. pr_get k (sy_provider i sy)) (myProviders (sy_handle k sy))) of
        Some tv \<Rightarrow> tv_value tv | None \<Rightarrow> VInvalid)"

definition h_onValueChanged :: "sys_env \<Rightarrow> key \<Rightarrow> sys \<Rightarrow> sy_result" where
  "h_onValueChanged E k sy =
     (let h = sy_handle k sy;
          newValue = h_newValue k sy
      in if typeCheckEnabled sy \<and> \<not> qv_isNull newValue \<and> \<not> en_typeOk E k newValue then (sy, [])
         else if qv_differs (en_qt E) (myValue h) newValue
              then (sy_put_handle k (h\<lparr>myValue := newValue\<rparr>) sy, [HandleChanged k])
              else (sy, []))"

fun h_unsubscribeAll :: "key \<Rightarrow> provider_info list \<Rightarrow> sys \<Rightarrow> sys" where
  "h_unsubscribeAll k [] sy = sy"
| "h_unsubscribeAll k (i # is) sy = h_unsubscribeAll k is (sy_put i (pr_unsubscribe k (sy_provider i sy)) sy)"

text \<open>Subscribes to each provider and collects those whose subscription is pending.\<close>

fun h_subscribeAll :: "key \<Rightarrow> provider_info list \<Rightarrow> provider_info list \<Rightarrow> sys \<Rightarrow> sys \<times> provider_info list" where
  "h_subscribeAll k [] pend sy = (sy, pend)"
| "h_subscribeAll k (i # is) pend sy = (case pr_subscribe k (sy_provider i sy) of
      (waits, p) \<Rightarrow> h_subscribeAll k is (if waits then qset_insert i pend else pend) (sy_put i p sy))"

definition updateProvider :: "sys_env \<Rightarrow> key \<Rightarrow> sys \<Rightarrow> sy_result" where
  "updateProvider E k sy =
     (let commanded = (commandingEnabled sy \<and> isServicePresent (commanderListener sy) = Present);
          newProviders = (if commanded then [commanderInfo] else sy_registry sy k);
          sy1 = (if commanded then sy_put commanderInfo (clearValues (sy_provider commanderInfo sy)) sy
                 else fold sy_instance newProviders sy);
          h = sy_handle k sy1
      in if subscribeCount h > 0 then
           (let sy2 = h_unsubscribeAll k (myProviders h) sy1
            in case h_subscribeAll k newProviders [] sy2 of (sy3, pend) \<Rightarrow>
               let sy4 = sy_put_handle k (h\<lparr>pendingSubscriptions := pend, myProviders := newProviders\<rparr>) sy3
               in if pend = [] then h_onValueChanged E k sy4 else (sy4, []))
         else (sy_put_handle k (h\<lparr>myProviders := newProviders\<rparr>) sy1, []))"

definition setSubscribeFinished :: "provider_info \<Rightarrow> key \<Rightarrow> sys \<Rightarrow> sys" where
  "setSubscribeFinished i k sy =
     (let h = sy_handle k sy
      in sy_put_handle k (h\<lparr>pendingSubscriptions := qset_remove i (pendingSubscriptions h)\<rparr>) sy)"

definition h_subscribe :: "key \<Rightarrow> sys \<Rightarrow> sys" where
  "h_subscribe k sy =
     (let h = (sy_handle k sy)\<lparr>subscribeCount := subscribeCount (sy_handle k sy) + 1\<rparr>
      in if subscribeCount h = 1 then
           (case h_subscribeAll k (myProviders h) [] sy of (sy1, pend) \<Rightarrow>
              sy_put_handle k (h\<lparr>pendingSubscriptions := pend\<rparr>) sy1)
         else sy_put_handle k h sy)"

definition h_unsubscribe :: "key \<Rightarrow> sys \<Rightarrow> sys" where
  "h_unsubscribe k sy =
     (let h = (sy_handle k sy)\<lparr>subscribeCount := subscribeCount (sy_handle k sy) - 1\<rparr>
      in if subscribeCount h = 0 then
           sy_put_handle k (h\<lparr>pendingSubscriptions := []\<rparr>) (h_unsubscribeAll k (myProviders h) sy)
         else sy_put_handle k h sy)"

definition h_isSubscribePending :: "key \<Rightarrow> sys \<Rightarrow> bool" where
  "h_isSubscribePending k sy =
     (if commandingEnabled sy \<and> isServicePresent (commanderListener sy) = Unknown then True
      else if \<not> qv_isNull (myValue (sy_handle k sy)) then False
      else length (pendingSubscriptions (sy_handle k sy)) \<noteq> 0)"

text \<open>The presence signals reach every handle that listens, in the order they connected.\<close>

fun sy_updateAll :: "sys_env \<Rightarrow> key list \<Rightarrow> sys \<Rightarrow> sy_result" where
  "sy_updateAll E [] sy = (sy, [])"
| "sy_updateAll E (k # ks) sy =
     (case (if h_listens (sy_handle k sy) then updateProvider E k sy else (sy, [])) of (sy1, o1) \<Rightarrow>
      case sy_updateAll E ks sy1 of (sy2, o2) \<Rightarrow> (sy2, o1 @ o2))"

fun sy_on_listener :: "sys_env \<Rightarrow> nl_out list \<Rightarrow> sys \<Rightarrow> sy_result" where
  "sy_on_listener E [] sy = (sy, [])"
| "sy_on_listener E (x # xs) sy =
     (case (case x of NameHasOwnerCall n \<Rightarrow> (sy, [ListenerCall (NameHasOwnerCall n)])
                    | _ \<Rightarrow> sy_updateAll E (amap_keys (sy_handles sy)) sy) of (sy1, o1) \<Rightarrow>
      case sy_on_listener E xs sy1 of (sy2, o2) \<Rightarrow> (sy2, o1 @ o2))"

definition sy_listener_event :: "sys_env \<Rightarrow> nl_event \<Rightarrow> sys \<Rightarrow> sy_result" where
  "sy_listener_event E e sy = (case nl_step e (commanderListener sy) of
      (l, os) \<Rightarrow> sy_on_listener E os (sy\<lparr>commanderListener := l\<rparr>))"

definition handle_construct :: "sys_env \<Rightarrow> key \<Rightarrow> sys \<Rightarrow> sy_result" where
  "handle_construct E k sy =
     (let en = (commandingEnabled sy \<and> en_commanding E);
          sy1 = sy_put_handle k (handle_new en) (sy\<lparr>commandingEnabled := en\<rparr>)
      in if en then
           (case sy_listener_event E (NLStart (en_busConnected E) True) sy1 of (sy2, o2) \<Rightarrow>
            if isServicePresent (commanderListener sy2) \<noteq> Unknown then
              (case updateProvider E k sy2 of (sy3, o3) \<Rightarrow> (sy3, o2 @ o3))
            else (sy2, o2))
         else updateProvider E k sy1)"

definition handle_instance :: "sys_env \<Rightarrow> key \<Rightarrow> sys \<Rightarrow> sy_result" where
  "handle_instance E k sy =
     (if map_of (sy_handles sy) k = None then handle_construct E k sy else (sy, []))"

section \<open>HandleSignalRouter\<close>

definition router_onValueChanged :: "sys_env \<Rightarrow> key \<Rightarrow> sys \<Rightarrow> sy_result" where
  "router_onValueChanged E k sy = (case handle_instance E k sy of (sy1, o1) \<Rightarrow>
     case h_onValueChanged E k sy1 of (sy2, o2) \<Rightarrow> (sy2, o1 @ o2))"

definition router_onSubscribeFinished :: "sys_env \<Rightarrow> provider_info \<Rightarrow> key \<Rightarrow> sys \<Rightarrow> sy_result" where
  "router_onSubscribeFinished E i k sy = (case handle_instance E k sy of (sy1, o1) \<Rightarrow>
     (setSubscribeFinished i k sy1, o1))"

fun sy_route :: "sys_env \<Rightarrow> provider_info \<Rightarrow> provider_out list \<Rightarrow> sys \<Rightarrow> sy_result" where
  "sy_route E i [] sy = (sy, [])"
| "sy_route E i (x # xs) sy =
     (case (case x of
              SubscribeFinished k \<Rightarrow> router_onSubscribeFinished E i k sy
            | ValueChanged k \<Rightarrow> router_onValueChanged E k sy
            | call \<Rightarrow> (sy, [PluginCall i call])) of (sy1, o1) \<Rightarrow>
      case sy_route E i xs sy1 of (sy2, o2) \<Rightarrow> (sy2, o1 @ o2))"

text \<open>A provider operation: its state is stored, its signals are routed.\<close>

definition sy_provider_op :: "sys_env \<Rightarrow> provider_info \<Rightarrow> (provider \<Rightarrow> pr_result) \<Rightarrow> sys \<Rightarrow> sy_result" where
  "sy_provider_op E i f sy = (case f (sy_provider i sy) of (p, os) \<Rightarrow> sy_route E i os (sy_put i p sy))"

fun h_blockAll :: "sys_env \<Rightarrow> (provider_info \<Rightarrow> plugin_signal list) \<Rightarrow> key \<Rightarrow> provider_info list \<Rightarrow> sys \<Rightarrow> sy_result" where
  "h_blockAll E react k [] sy = (sy, [])"
| "h_blockAll E react k (i # is) sy =
     (case sy_provider_op E i (pr_blockUntilSubscribed (en_plugins E) (react i) k) sy of (sy1, o1) \<Rightarrow>
      case h_blockAll E react k is sy1 of (sy2, o2) \<Rightarrow> (sy2, o1 @ o2))"

definition h_blockUntilSubscribed ::
    "sys_env \<Rightarrow> (provider_info \<Rightarrow> plugin_signal list) \<Rightarrow> key \<Rightarrow> sys \<Rightarrow> sy_result" where
  "h_blockUntilSubscribed E react k sy = h_blockAll E react k (pendingSubscriptions (sy_handle k sy)) sy"

section \<open>ContextProperty\<close>

definition cp_put :: "nat \<Rightarrow> context_property \<Rightarrow> sys \<Rightarrow> sys" where
  "cp_put n c sy = sy\<lparr>sy_props := (sy_props sy)[n := c]\<rparr>"

definition cp_subscribe :: "nat \<Rightarrow> sys \<Rightarrow> sys" where
  "cp_subscribe n sy =
     (let c = sy_props sy ! n
      in if cp_subscribed c then sy
         else cp_put n (c\<lparr>cp_subscribed := True\<rparr>) (h_subscribe (cp_key c) sy))"

definition cp_unsubscribe :: "nat \<Rightarrow> sys \<Rightarrow> sys" where
  "cp_unsubscribe n sy =
     (let c = sy_props sy ! n
      in if \<not> cp_subscribed c then sy
         else cp_put n (c\<lparr>cp_subscribed := False\<rparr>) (h_unsubscribe (cp_key c) sy))"

definition cp_new :: "sys_env \<Rightarrow> key \<Rightarrow> sys \<Rightarrow> sy_result" where
  "cp_new E k sy = (case handle_instance E k sy of (sy1, o1) \<Rightarrow>
     (cp_subscribe (length (sy_props sy1))
        (sy1\<lparr>sy_props := sy_props sy1 @ [\<lparr>cp_key = k, cp_subscribed = False, cp_value = VInvalid\<rparr>]\<rparr>), o1))"

definition cp_valueOf :: "nat \<Rightarrow> sys \<Rightarrow> qvariant" where
  "cp_valueOf n sy = myValue (sy_handle (cp_key (sy_props sy ! n)) sy)"

definition cp_valueDefault :: "nat \<Rightarrow> qvariant \<Rightarrow> sys \<Rightarrow> qvariant" where
  "cp_valueDefault n d sy = (if qv_isNull (cp_valueOf n sy) then d else cp_valueOf n sy)"

definition cp_onValueChanged :: "sys_env \<Rightarrow> nat \<Rightarrow> sys \<Rightarrow> sy_result" where
  "cp_onValueChanged E n sy =
     (let c = sy_props sy ! n; newValue = cp_valueOf n sy
      in if qv_differs (en_qt E) (cp_value c) newValue
         then (cp_put n (c\<lparr>cp_value := newValue\<rparr>) sy, [PropertyChanged n]) else (sy, []))"

text \<open>Whether a non-blocking wait goes on; \<open>processEvents\<close> is the next event of the run.\<close>

definition cp_waits :: "nat \<Rightarrow> sys \<Rightarrow> bool" where
  "cp_waits n sy = (cp_subscribed (sy_props sy ! n) \<and> h_isSubscribePending (cp_key (sy_props sy ! n)) sy)"

definition cp_waitBlocking ::
    "sys_env \<Rightarrow> (provider_info \<Rightarrow> plugin_signal list) \<Rightarrow> nat \<Rightarrow> sys \<Rightarrow> sy_result" where
  "cp_waitBlocking E react n sy =
     (if \<not> cp_subscribed (sy_props sy ! n) then (sy, [])
      else h_blockUntilSubscribed E react (cp_key (sy_props sy ! n)) sy)"

definition ignoreCommander :: "sys \<Rightarrow> sys" where
  "ignoreCommander sy = sy\<lparr>commandingEnabled := False\<rparr>"

definition setTypeCheck :: "bool \<Rightarrow> sys \<Rightarrow> sys" where
  "setTypeCheck b sy = sy\<lparr>typeCheckEnabled := b\<rparr>"

text \<open>The destructor; nothing refers to the property afterwards.\<close>

definition cp_delete :: "nat \<Rightarrow> sys \<Rightarrow> sys" where
  "cp_delete n sy = cp_unsubscribe n sy"

section \<open>Events\<close>

text \<open>\<open>SYNotify n\<close> is the delivery of a queued notification to property \<open>n\<close>. Disconnecting does not
  withdraw a notification that is already queued, so it can come after the property has been
  unsubscribed.\<close>

datatype sy_event =
    SYNew key
  | SYSubscribe nat
  | SYUnsubscribe nat
  | SYNotify nat
  | SYWaitBlocking "provider_info \<Rightarrow> plugin_signal list" nat
  | SYLoop provider_info
  | SYPlugin provider_info plugin_signal
  | SYName nl_event
  | SYRegistry key "provider_info list"
  | SYIgnoreCommander
  | SYTypeCheck bool

fun sy_step :: "sys_env \<Rightarrow> sy_event \<Rightarrow> sys \<Rightarrow> sy_result" where
  "sy_step E (SYNew k) sy = cp_new E k sy"
| "sy_step E (SYSubscribe n) sy = (if n < length (sy_props sy) then cp_subscribe n sy else sy, [])"
| "sy_step E (SYUnsubscribe n) sy = (if n < length (sy_props sy) then cp_unsubscribe n sy else sy, [])"
| "sy_step E (SYNotify n) sy = (if n < length (sy_props sy) then cp_onValueChanged E n sy else (sy, []))"
| "sy_step E (SYWaitBlocking react n) sy =
     (if n < length (sy_props sy) then cp_waitBlocking E react n sy else (sy, []))"
| "sy_step E (SYLoop i) sy =
     (if map_of (sy_providers sy) i = None then (sy, [])
      else sy_provider_op E i (pr_loop (en_plugins E)) sy)"
| "sy_step E (SYPlugin i sg) sy =
     (if map_of (sy_providers sy) i \<noteq> None \<and> pr_plugin (sy_provider i sy)
      then sy_provider_op E i (pr_on_plugin sg) sy else (sy, []))"
| "sy_step E (SYName e) sy =
     (case e of NLStart _ _ \<Rightarrow> (sy, []) | _ \<Rightarrow> sy_listener_event E e sy)"
| "sy_step E (SYRegistry k infos) sy =
     (let sy1 = sy\<lparr>sy_registry := (sy_registry sy)(k := infos)\<rparr>
      in if map_of (sy_handles sy) k = None then (sy1, []) else updateProvider E k sy1)"
| "sy_step E SYIgnoreCommander sy = (ignoreCommander sy, [])"
| "sy_step E (SYTypeCheck b) sy = (setTypeCheck b sy, [])"

section \<open>What the operations leave alone\<close>

definition subs :: "provider_info \<Rightarrow> sys \<Rightarrow> key set" where
  "subs i sy = set (subscribedKeys (sy_provider i sy))"

lemma sy_provider_put [simp]: "sy_provider j (sy_put i p sy) = (if j = i then p else sy_provider j sy)"
  by (simp add: sy_provider_def sy_put_def provider_instance_def Let_def)

lemma sy_provider_instance [simp]: "sy_provider j (sy_instance i sy) = sy_provider j sy"
  by (simp add: sy_provider_def sy_instance_def provider_instance_def Let_def)

lemma sy_put_frame [simp]:
  "sy_handles (sy_put i p sy) = sy_handles sy" "sy_props (sy_put i p sy) = sy_props sy"
  "commanderListener (sy_put i p sy) = commanderListener sy" "commandingEnabled (sy_put i p sy) = commandingEnabled sy"
  "sy_registry (sy_put i p sy) = sy_registry sy" "typeCheckEnabled (sy_put i p sy) = typeCheckEnabled sy"
  "sy_handle k (sy_put i p sy) = sy_handle k sy"
  by (simp_all add: sy_put_def sy_handle_def)

lemma sy_instance_frame [simp]:
  "sy_handles (sy_instance i sy) = sy_handles sy" "sy_props (sy_instance i sy) = sy_props sy"
  "commanderListener (sy_instance i sy) = commanderListener sy"
  "commandingEnabled (sy_instance i sy) = commandingEnabled sy"
  "sy_registry (sy_instance i sy) = sy_registry sy" "sy_handle k (sy_instance i sy) = sy_handle k sy"
  by (simp_all add: sy_instance_def sy_handle_def)

lemma fold_instance_frame [simp]:
  "sy_provider j (fold sy_instance is sy) = sy_provider j sy" "sy_handles (fold sy_instance is sy) = sy_handles sy"
  "sy_props (fold sy_instance is sy) = sy_props sy" "sy_handle k (fold sy_instance is sy) = sy_handle k sy"
  "commanderListener (fold sy_instance is sy) = commanderListener sy"
  "commandingEnabled (fold sy_instance is sy) = commandingEnabled sy" "sy_registry (fold sy_instance is sy) = sy_registry sy"
  by (induction "is" arbitrary: sy) simp_all

lemma sy_handle_put [simp]: "sy_handle l (sy_put_handle k h sy) = (if l = k then h else sy_handle l sy)"
  by (simp add: sy_handle_def sy_put_handle_def)

lemma sy_put_handle_frame [simp]:
  "sy_provider j (sy_put_handle k h sy) = sy_provider j sy" "sy_props (sy_put_handle k h sy) = sy_props sy"
  "commanderListener (sy_put_handle k h sy) = commanderListener sy"
  "commandingEnabled (sy_put_handle k h sy) = commandingEnabled sy" "sy_registry (sy_put_handle k h sy) = sy_registry sy"
  by (simp_all add: sy_put_handle_def sy_provider_def)

lemma subscribedKeys_simps [simp]:
  "set (subscribedKeys (snd (pr_subscribe k p))) = insert k (set (subscribedKeys p))"
  "set (subscribedKeys (pr_unsubscribe k p)) = set (subscribedKeys p) - {k}"
  "subscribedKeys (clearValues p) = subscribedKeys p"
  by (simp_all add: provider_defs)

lemma subscribedKeys_handleSubscribes: "subscribedKeys (fst (handleSubscribes p)) = subscribedKeys p"
  by (cases "pluginState p") (simp_all add: handleSubscribes_def)

lemma subscribedKeys_construct: "subscribedKeys (fst (constructPlugin E p)) = subscribedKeys p"
  by (simp add: constructPlugin_def Let_def subscribedKeys_handleSubscribes)

lemma subscribedKeys_plugin: "subscribedKeys (fst (pr_on_plugin sg p)) = subscribedKeys p"
  by (cases sg) (simp_all add: subscribedKeys_handleSubscribes onPluginReady_def onPluginFailed_def
    onPluginValueChanged_def onPluginVariantChanged_def onPluginSubscribeFinishedValue_def
    onPluginSubscribeFinished_def onPluginSubscribeFailed_def split: prod.splits)

lemma subscribedKeys_loop: "subscribedKeys (fst (pr_loop E p)) = subscribedKeys p"
proof -
  have "subscribedKeys (fst (pr_invoke E m q)) = subscribedKeys q" for m q
    by (simp add: pr_invoke_def subscribedKeys_construct subscribedKeys_handleSubscribes)
  then show ?thesis by (auto simp: pr_loop_def split: prod.splits list.splits)
qed

lemma subscribedKeys_block: "subscribedKeys (fst (pr_blockUntilSubscribed E r k p)) = subscribedKeys p"
proof -
  have "subscribedKeys (fst (ev_run pr_on_plugin r q)) = subscribedKeys q" for q
    by (rule ev_run_inv [where P = "\<lambda>x. subscribedKeys x = subscribedKeys q"]) (simp_all add: subscribedKeys_plugin)
  then show ?thesis
    by (auto simp: pr_blockUntilSubscribed_def case_prod_unfold subscribedKeys_construct)
qed

lemma unsubscribeAll_frame [simp]:
  "sy_handles (h_unsubscribeAll k is sy) = sy_handles sy" "sy_props (h_unsubscribeAll k is sy) = sy_props sy"
  "commanderListener (h_unsubscribeAll k is sy) = commanderListener sy"
  "commandingEnabled (h_unsubscribeAll k is sy) = commandingEnabled sy"
  "sy_registry (h_unsubscribeAll k is sy) = sy_registry sy" "sy_handle l (h_unsubscribeAll k is sy) = sy_handle l sy"
  by (induction "is" arbitrary: sy) simp_all

lemma subs_unsubscribeAll: "subs j (h_unsubscribeAll k is sy) = (if j \<in> set is then subs j sy - {k} else subs j sy)"
  by (induction "is" arbitrary: sy) (auto simp: subs_def)

lemma subscribeAll_frame:
  assumes "h_subscribeAll k is pend sy = (sy', pend')"
  shows "sy_handles sy' = sy_handles sy \<and> sy_props sy' = sy_props sy \<and> sy_handle l sy' = sy_handle l sy \<and>
    commanderListener sy' = commanderListener sy \<and> commandingEnabled sy' = commandingEnabled sy \<and>
    sy_registry sy' = sy_registry sy \<and>
    subs j sy' = (if j \<in> set is then insert k (subs j sy) else subs j sy) \<and>
    set pend' \<subseteq> set pend \<union> set is"
  using assms
proof (induction "is" arbitrary: pend sy)
  case (Cons i "is")
  obtain b q where q: "pr_subscribe k (sy_provider i sy) = (b, q)" by (cases "pr_subscribe k (sy_provider i sy)")
  have sq: "set (subscribedKeys q) = insert k (set (subscribedKeys (sy_provider i sy)))"
    using subscribedKeys_simps(1) [of k "sy_provider i sy"] q by simp
  have "h_subscribeAll k is (if b then qset_insert i pend else pend) (sy_put i q sy) = (sy', pend')"
    using Cons.prems q by simp
  from Cons.IH [OF this] show ?case
    by (auto simp: subs_def sq split: if_splits)
qed simp

section \<open>The invariant of the system\<close>

definition prop_count :: "key \<Rightarrow> sys \<Rightarrow> nat" where
  "prop_count k sy = length (filter (\<lambda>c. cp_subscribed c \<and> cp_key c = k) (sy_props sy))"

definition sys_ok :: "sys \<Rightarrow> bool" where
  "sys_ok sy =
     ((\<forall>k. set (pendingSubscriptions (sy_handle k sy)) \<subseteq> set (myProviders (sy_handle k sy)) \<and>
          (subscribeCount (sy_handle k sy) = 0 \<longrightarrow> pendingSubscriptions (sy_handle k sy) = [])) \<and>
      (\<forall>i k. k \<in> subs i sy \<longleftrightarrow> subscribeCount (sy_handle k sy) \<noteq> 0 \<and> i \<in> set (myProviders (sy_handle k sy))) \<and>
      (\<forall>k. unat (subscribeCount (sy_handle k sy)) = prop_count k sy))"

definition ok_from :: "sys \<Rightarrow> sy_result \<Rightarrow> bool" where
  "ok_from sy r = (sys_ok (fst r) \<and> sy_props (fst r) = sy_props sy)"

lemma ok_from_refl: "sys_ok sy \<Longrightarrow> ok_from sy (sy, os)"
  by (simp add: ok_from_def)

lemma ok_from_chain:
  "ok_from sy (f sy) \<Longrightarrow> (\<And>sy1. sys_ok sy1 \<Longrightarrow> ok_from sy1 (g sy1)) \<Longrightarrow>
     ok_from sy (case f sy of (sy1, o1) \<Rightarrow> case g sy1 of (sy2, o2) \<Rightarrow> (sy2, o1 @ o2))"
  by (auto simp: ok_from_def split: prod.splits) (metis fst_conv)+

text \<open>Nothing the invariant reads has changed.\<close>

definition same_view :: "sys \<Rightarrow> sys \<Rightarrow> bool" where
  "same_view sy sy' = (sy_props sy' = sy_props sy \<and> (\<forall>i. subs i sy' = subs i sy) \<and>
     (\<forall>k. subscribeCount (sy_handle k sy') = subscribeCount (sy_handle k sy) \<and>
          myProviders (sy_handle k sy') = myProviders (sy_handle k sy) \<and>
          (pendingSubscriptions (sy_handle k sy') = [] \<or>
           set (pendingSubscriptions (sy_handle k sy')) \<subseteq> set (pendingSubscriptions (sy_handle k sy)))))"

lemma same_view_ok: "same_view sy sy' \<Longrightarrow> sys_ok sy \<Longrightarrow> sys_ok sy'"
  unfolding same_view_def sys_ok_def prop_count_def
  by (intro conjI allI impI) (metis (lifting) empty_set subset_empty set_empty order_trans empty_subsetI)+

lemma same_view_ok_from: "same_view sy sy' \<Longrightarrow> sys_ok sy \<Longrightarrow> ok_from sy (sy', os)"
  using same_view_ok by (auto simp: ok_from_def same_view_def)

lemma onValueChanged_view: "same_view sy (fst (h_onValueChanged E k sy))"
  by (simp add: same_view_def h_onValueChanged_def Let_def subs_def)

lemma onValueChanged_ok: "sys_ok sy \<Longrightarrow> ok_from sy (h_onValueChanged E k sy)"
  using same_view_ok_from [OF onValueChanged_view, of sy E k "snd (h_onValueChanged E k sy)"] by simp

lemma setSubscribeFinished_view: "same_view sy (setSubscribeFinished i k sy)"
  by (auto simp: same_view_def setSubscribeFinished_def Let_def subs_def)

lemma updateProvider_ok:
  assumes "sys_ok sy"
  shows "ok_from sy (updateProvider E k sy)"
proof -
  define commanded where "commanded = (commandingEnabled sy \<and> isServicePresent (commanderListener sy) = Present)"
  define new where "new = (if commanded then [commanderInfo] else sy_registry sy k)"
  define sy1 where "sy1 = (if commanded then sy_put commanderInfo (clearValues (sy_provider commanderInfo sy)) sy
      else fold sy_instance new sy)"
  define h where "h = sy_handle k sy"
  have 1: "subs i sy1 = subs i sy" "sy_handle l sy1 = sy_handle l sy" "sy_props sy1 = sy_props sy" for i l
    by (simp_all add: sy1_def subs_def)
  have up: "updateProvider E k sy =
     (if subscribeCount h > 0 then
        (let sy2 = h_unsubscribeAll k (myProviders h) sy1
         in case h_subscribeAll k new [] sy2 of (sy3, pend) \<Rightarrow>
            let sy4 = sy_put_handle k (h\<lparr>pendingSubscriptions := pend, myProviders := new\<rparr>) sy3
            in if pend = [] then h_onValueChanged E k sy4 else (sy4, []))
      else (sy_put_handle k (h\<lparr>myProviders := new\<rparr>) sy1, []))"
    unfolding updateProvider_def commanded_def [symmetric] Let_def
    by (simp only: new_def [symmetric] sy1_def [symmetric] 1(2) h_def [symmetric])
  show ?thesis
  proof (cases "subscribeCount h > 0")
    case False
    then have z: "subscribeCount h = 0" by (simp add: word_gt_0)
    then have "pendingSubscriptions h = []" "\<forall>i. k \<notin> subs i sy"
      using assms by (simp_all add: sys_ok_def h_def)
    define sy' where "sy' = sy_put_handle k (h\<lparr>myProviders := new\<rparr>) sy1"
    have v: "subs i sy' = subs i sy" "sy_props sy' = sy_props sy"
        "subscribeCount (sy_handle l sy') = subscribeCount (sy_handle l sy)"
        "pendingSubscriptions (sy_handle l sy') = pendingSubscriptions (sy_handle l sy)"
        "l \<noteq> k \<Longrightarrow> sy_handle l sy' = sy_handle l sy" for i l
      using 1 by (simp_all add: sy'_def subs_def h_def)
    have "sys_ok sy'"
      unfolding sys_ok_def prop_count_def v(1-4)
    proof (intro conjI allI)
      show "set (pendingSubscriptions (sy_handle l sy)) \<subseteq> set (myProviders (sy_handle l sy'))" for l
        using assms v(5) [of l] \<open>pendingSubscriptions h = []\<close> by (cases "l = k") (auto simp: sys_ok_def h_def)
      show "(l \<in> subs i sy) = (subscribeCount (sy_handle l sy) \<noteq> 0 \<and> i \<in> set (myProviders (sy_handle l sy')))" for i l
        using assms v(5) [of l] z by (cases "l = k") (auto simp: sys_ok_def h_def)
    qed (use assms in \<open>auto simp: sys_ok_def prop_count_def\<close>)
    then show ?thesis using False v(2) by (simp add: up ok_from_def sy'_def)
  next
    case True
    define sy2 where "sy2 = h_unsubscribeAll k (myProviders h) sy1"
    obtain sy3 pend where 3: "h_subscribeAll k new [] sy2 = (sy3, pend)" by (cases "h_subscribeAll k new [] sy2")
    define sy4 where "sy4 = sy_put_handle k (h\<lparr>pendingSubscriptions := pend, myProviders := new\<rparr>) sy3"
    have nz: "subscribeCount h \<noteq> 0" using True by (simp add: word_gt_0)
    have s2: "subs i sy2 = subs i sy - {k}" for i
      using assms nz by (auto simp: sy2_def subs_unsubscribeAll 1 sys_ok_def h_def)
    have s4: "subs i sy4 = (if i \<in> set new then insert k (subs i sy - {k}) else subs i sy - {k})" for i
      using subscribeAll_frame [OF 3, of k i] by (simp add: sy4_def subs_def) (simp add: subs_def [symmetric] s2)
    have h4: "sy_handle l sy4 = (if l = k then h\<lparr>pendingSubscriptions := pend, myProviders := new\<rparr> else sy_handle l sy)" for l
      using subscribeAll_frame [OF 3, of l] by (simp add: sy4_def sy2_def 1)
    have p4: "sy_props sy4 = sy_props sy" "set pend \<subseteq> set new"
      using subscribeAll_frame [OF 3] by (simp_all add: sy4_def sy2_def 1)
    have "sys_ok sy4"
      using assms nz unfolding sys_ok_def h4 s4 prop_count_def p4(1) using p4(2) by (auto simp: h_def)
    then have "ok_from sy4 (if pend = [] then h_onValueChanged E k sy4 else (sy4, []))"
      by (auto intro: onValueChanged_ok ok_from_refl)
    then show ?thesis using True p4(1)
      unfolding up Let_def sy2_def [symmetric] sy4_def by (cases "pend = []") (simp_all add: 3 ok_from_def)
  qed
qed

lemma updateAll_ok: "sys_ok sy \<Longrightarrow> ok_from sy (sy_updateAll E ks sy)"
proof (induction ks arbitrary: sy)
  case (Cons k ks)
  show ?case unfolding sy_updateAll.simps
    by (rule ok_from_chain) (auto intro: Cons updateProvider_ok ok_from_refl)
qed (simp add: ok_from_def)

lemma on_listener_ok: "sys_ok sy \<Longrightarrow> ok_from sy (sy_on_listener E os sy)"
proof (induction os arbitrary: sy)
  case (Cons x xs)
  show ?case unfolding sy_on_listener.simps
    by (rule ok_from_chain) (auto intro: Cons updateAll_ok ok_from_refl split: nl_out.splits)
qed (simp add: ok_from_def)

lemma listener_event_ok: "sys_ok sy \<Longrightarrow> ok_from sy (sy_listener_event E e sy)"
proof -
  assume ok: "sys_ok sy"
  obtain l os where l: "nl_step e (commanderListener sy) = (l, os)" by (cases "nl_step e (commanderListener sy)")
  have "same_view sy (sy\<lparr>commanderListener := l\<rparr>)"
    by (simp add: same_view_def subs_def sy_provider_def sy_handle_def)
  then have "ok_from sy (sy\<lparr>commanderListener := l\<rparr>, [])" using ok by (rule same_view_ok_from)
  then show ?thesis
    using on_listener_ok [of "sy\<lparr>commanderListener := l\<rparr>" E os] by (simp add: sy_listener_event_def l ok_from_def)
qed

lemma handle_construct_ok:
  assumes "sys_ok sy" and "map_of (sy_handles sy) k = None"
  shows "ok_from sy (handle_construct E k sy)"
proof -
  define en where "en = (commandingEnabled sy \<and> en_commanding E)"
  define sy1 where "sy1 = sy_put_handle k (handle_new en) (sy\<lparr>commandingEnabled := en\<rparr>)"
  have none: "sy_handle k sy = handle_new False" using assms(2) by (simp add: sy_handle_def)
  have "same_view sy sy1"
    using none by (auto simp: same_view_def sy1_def subs_def sy_provider_def sy_put_handle_def handle_new_def
        sy_handle_def fun_upd_apply)
  then have "ok_from sy (sy1, [])" using assms(1) by (rule same_view_ok_from)
  then have ok1: "sys_ok sy1" "sy_props sy1 = sy_props sy" by (simp_all add: ok_from_def)
  show ?thesis
  proof (cases en)
    case False
    then have "handle_construct E k sy = updateProvider E k sy1"
      unfolding handle_construct_def Let_def en_def [symmetric] sy1_def [symmetric] by (simp only: if_False)
    then show ?thesis using updateProvider_ok [OF ok1(1), of E k] ok1(2) by (simp add: ok_from_def)
  next
    case True
    obtain sy2 o2 where 2: "sy_listener_event E (NLStart (en_busConnected E) True) sy1 = (sy2, o2)"
      by (cases "sy_listener_event E (NLStart (en_busConnected E) True) sy1")
    then have ok2: "sys_ok sy2" "sy_props sy2 = sy_props sy"
      using listener_event_ok [OF ok1(1), of E "NLStart (en_busConnected E) True"] ok1(2) by (simp_all add: ok_from_def)
    then show ?thesis using True updateProvider_ok [OF ok2(1), of E k] ok2(2)
      unfolding handle_construct_def Let_def en_def [symmetric] sy1_def [symmetric]
      by (auto simp: 2 ok_from_def split: prod.splits)
  qed
qed

lemma handle_instance_ok: "sys_ok sy \<Longrightarrow> ok_from sy (handle_instance E k sy)"
  by (simp add: handle_instance_def handle_construct_ok ok_from_refl)

lemma router_finished_ok: "sys_ok sy \<Longrightarrow> ok_from sy (router_onSubscribeFinished E i k sy)"
proof -
  assume "sys_ok sy"
  then have "ok_from sy (handle_instance E k sy)" by (rule handle_instance_ok)
  then show ?thesis
    using same_view_ok_from [OF setSubscribeFinished_view, of "fst (handle_instance E k sy)" i k]
    by (auto simp: router_onSubscribeFinished_def ok_from_def split: prod.splits)
qed

lemma router_value_ok: "sys_ok sy \<Longrightarrow> ok_from sy (router_onValueChanged E k sy)"
  unfolding router_onValueChanged_def
  by (rule ok_from_chain) (auto intro: handle_instance_ok onValueChanged_ok)

lemma route_ok: "sys_ok sy \<Longrightarrow> ok_from sy (sy_route E i os sy)"
proof (induction os arbitrary: sy)
  case (Cons x xs)
  show ?case unfolding sy_route.simps
    by (rule ok_from_chain) (auto intro: Cons router_finished_ok router_value_ok ok_from_refl split: provider_out.splits)
qed (simp add: ok_from_def)

lemma provider_op_ok:
  assumes "sys_ok sy" and "\<And>p. subscribedKeys (fst (f p)) = subscribedKeys p"
  shows "ok_from sy (sy_provider_op E i f sy)"
proof -
  obtain p os where p: "f (sy_provider i sy) = (p, os)" by (cases "f (sy_provider i sy)")
  have "same_view sy (sy_put i p sy)"
    using assms(2) [of "sy_provider i sy"] p by (simp add: same_view_def subs_def)
  then have "ok_from sy (sy_put i p sy, [])" using assms(1) by (rule same_view_ok_from)
  then show ?thesis using route_ok [of "sy_put i p sy" E i os] by (simp add: sy_provider_op_def p ok_from_def)
qed

lemma blockAll_ok: "sys_ok sy \<Longrightarrow> ok_from sy (h_blockAll E react k is sy)"
proof (induction "is" arbitrary: sy)
  case (Cons i "is")
  show ?case unfolding h_blockAll.simps
    by (rule ok_from_chain) (auto intro: Cons provider_op_ok simp: subscribedKeys_block)
qed (simp add: ok_from_def)

text \<open>Subscribing and unsubscribing of the properties of the application.\<close>

lemma prop_count_split:
  assumes "n < length (sy_props sy)"
  shows "prop_count k sy = length (filter (\<lambda>c. cp_subscribed c \<and> cp_key c = k) (take n (sy_props sy))) +
      (if cp_subscribed (sy_props sy ! n) \<and> cp_key (sy_props sy ! n) = k then 1 else 0) +
      length (filter (\<lambda>c. cp_subscribed c \<and> cp_key c = k) (drop (Suc n) (sy_props sy)))"
proof -
  let ?xs = "sy_props sy"
  have xs: "?xs = take n ?xs @ ?xs ! n # drop (Suc n) ?xs" using assms by (rule id_take_nth_drop)
  show ?thesis unfolding prop_count_def by (subst xs, subst filter_append) simp
qed

lemma prop_count_put_split:
  assumes "n < length (sy_props sy)"
  shows "prop_count k (cp_put n c sy) =
      length (filter (\<lambda>c. cp_subscribed c \<and> cp_key c = k) (take n (sy_props sy))) +
      (if cp_subscribed c \<and> cp_key c = k then 1 else 0) +
      length (filter (\<lambda>c. cp_subscribed c \<and> cp_key c = k) (drop (Suc n) (sy_props sy)))"
  unfolding prop_count_def using assms by (simp add: cp_put_def upd_conv_take_nth_drop)

lemma prop_count_put:
  assumes "n < length (sy_props sy)" and "cp_subscribed (sy_props sy ! n) \<noteq> cp_subscribed c"
    and "cp_key c = cp_key (sy_props sy ! n)"
  shows "prop_count k (cp_put n c sy) =
    (if cp_key c \<noteq> k then prop_count k sy
     else if cp_subscribed c then Suc (prop_count k sy) else prop_count k sy - 1)"
    and "cp_subscribed (sy_props sy ! n) \<Longrightarrow> prop_count (cp_key c) sy > 0"
  using assms(2,3) by (auto simp: prop_count_put_split [OF assms(1)] prop_count_split [OF assms(1)])

lemma prop_count_le: "prop_count k sy \<le> length (sy_props sy)"
  by (simp add: prop_count_def)

lemma h_subscribe_frame: "sy_props (h_subscribe k sy) = sy_props sy"
  by (auto simp: h_subscribe_def Let_def dest: subscribeAll_frame split: prod.splits)

lemma h_unsubscribe_frame: "sy_props (h_unsubscribe k sy) = sy_props sy"
  by (simp add: h_unsubscribe_def Let_def)

lemma cp_put_frame [simp]:
  "sy_handle l (cp_put n c sy) = sy_handle l sy" "subs i (cp_put n c sy) = subs i sy"
  "length (sy_props (cp_put n c sy)) = length (sy_props sy)"
  by (simp_all add: cp_put_def sy_handle_def subs_def sy_provider_def)

lemma h_subscribe_view:
  assumes "sys_ok sy" and "subscribeCount (sy_handle k sy) + 1 \<noteq> 0"
  shows "subscribeCount (sy_handle l (h_subscribe k sy)) = subscribeCount (sy_handle l sy) + (if l = k then 1 else 0)"
    and "myProviders (sy_handle l (h_subscribe k sy)) = myProviders (sy_handle l sy)"
    and "set (pendingSubscriptions (sy_handle l (h_subscribe k sy))) \<subseteq> set (myProviders (sy_handle l sy))"
    and "l \<noteq> k \<Longrightarrow> sy_handle l (h_subscribe k sy) = sy_handle l sy"
    and "subs i (h_subscribe k sy) = subs i sy \<union> (if i \<in> set (myProviders (sy_handle k sy)) then {k} else {})"
proof -
  define h where "h = (sy_handle k sy)\<lparr>subscribeCount := subscribeCount (sy_handle k sy) + 1\<rparr>"
  obtain sy1 pend where 1: "h_subscribeAll k (myProviders h) [] sy = (sy1, pend)"
    by (cases "h_subscribeAll k (myProviders h) [] sy")
  note f = subscribeAll_frame [OF 1]
  have hs: "h_subscribe k sy = (if subscribeCount h = 1 then sy_put_handle k (h\<lparr>pendingSubscriptions := pend\<rparr>) sy1
      else sy_put_handle k h sy)"
    unfolding h_subscribe_def Let_def h_def [symmetric] by (simp add: 1)
  have mp: "myProviders h = myProviders (sy_handle k sy)" by (simp add: h_def)
  show "subscribeCount (sy_handle l (h_subscribe k sy)) = subscribeCount (sy_handle l sy) + (if l = k then 1 else 0)"
    "myProviders (sy_handle l (h_subscribe k sy)) = myProviders (sy_handle l sy)"
    "l \<noteq> k \<Longrightarrow> sy_handle l (h_subscribe k sy) = sy_handle l sy"
    using f [of l] by (simp_all add: hs) (simp_all add: h_def)
  show "set (pendingSubscriptions (sy_handle l (h_subscribe k sy))) \<subseteq> set (myProviders (sy_handle l sy))"
    using f [of l] mp assms(1) by (auto simp: hs sys_ok_def) (auto simp: h_def)
  show "subs i (h_subscribe k sy) = subs i sy \<union> (if i \<in> set (myProviders (sy_handle k sy)) then {k} else {})"
  proof (cases "subscribeCount h = 1")
    case True
    then show ?thesis using f [of k i] mp by (auto simp: hs subs_def)
  next
    case False
    then have "subscribeCount (sy_handle k sy) \<noteq> 0" by (auto simp: h_def)
    then show ?thesis using False assms(1) by (auto simp: hs sys_ok_def subs_def)
  qed
qed

lemma cp_subscribe_ok:
  assumes "sys_ok sy" and "n < length (sy_props sy)" and "length (sy_props sy) < 2 ^ 32"
  shows "sys_ok (cp_subscribe n sy) \<and> length (sy_props (cp_subscribe n sy)) = length (sy_props sy)"
proof (cases "cp_subscribed (sy_props sy ! n)")
  case True
  then show ?thesis using assms(1) by (simp add: cp_subscribe_def)
next
  case False
  define c where "c = (sy_props sy ! n)\<lparr>cp_subscribed := True\<rparr>"
  define k where "k = cp_key c"
  define sy1 where "sy1 = h_subscribe k sy"
  have cs: "cp_subscribe n sy = cp_put n c sy1"
    using False by (simp add: cp_subscribe_def Let_def c_def k_def sy1_def)
  have p1: "sy_props sy1 = sy_props sy" by (simp add: sy1_def h_subscribe_frame)
  have pc: "prop_count l (cp_put n c sy1) = (if l = k then Suc (prop_count l sy) else prop_count l sy)" for l
    using prop_count_put(1) [of n sy1 c l] assms(2) False p1 by (auto simp: c_def k_def prop_count_def)
  have "prop_count k (cp_put n c sy1) \<le> length (sy_props sy)"
    using prop_count_le [of k "cp_put n c sy1"] p1 by simp
  then have small: "Suc (prop_count k sy) < 2 ^ 32" using pc [of k] assms(3) by simp
  have u: "unat (subscribeCount (sy_handle k sy)) = prop_count k sy" using assms(1) by (simp add: sys_ok_def)
  then have u1: "unat (subscribeCount (sy_handle k sy) + 1) = Suc (prop_count k sy)"
    using small by (simp add: unat_word_ariths)
  then have nz: "subscribeCount (sy_handle k sy) + 1 \<noteq> 0" by auto
  note v = h_subscribe_view [OF assms(1) nz]
  have "sys_ok (cp_put n c sy1)"
    unfolding sys_ok_def pc
  proof (intro conjI allI impI)
    show "set (pendingSubscriptions (sy_handle l (cp_put n c sy1))) \<subseteq> set (myProviders (sy_handle l (cp_put n c sy1)))" for l
      using v(2,3) [of l] by (simp add: sy1_def)
    show "pendingSubscriptions (sy_handle l (cp_put n c sy1)) = []"
      if "subscribeCount (sy_handle l (cp_put n c sy1)) = 0" for l
      using that v(1,4) [of l] nz assms(1) by (cases "l = k") (auto simp: sy1_def sys_ok_def)
    show "(l \<in> subs i (cp_put n c sy1)) =
        (subscribeCount (sy_handle l (cp_put n c sy1)) \<noteq> 0 \<and> i \<in> set (myProviders (sy_handle l (cp_put n c sy1))))" for i l
      using v(1,2) [of l] v(5) [of i] nz assms(1) by (cases "l = k") (auto simp: sy1_def sys_ok_def)
    show "unat (subscribeCount (sy_handle l (cp_put n c sy1))) = (if l = k then Suc (prop_count l sy) else prop_count l sy)" for l
      using v(1) [of l] u1 assms(1) by (auto simp: sy1_def sys_ok_def)
  qed
  then show ?thesis by (simp add: cs p1)
qed

lemma cp_unsubscribe_ok:
  assumes "sys_ok sy" and "n < length (sy_props sy)"
  shows "sys_ok (cp_unsubscribe n sy) \<and> length (sy_props (cp_unsubscribe n sy)) = length (sy_props sy)"
proof (cases "cp_subscribed (sy_props sy ! n)")
  case False
  then show ?thesis using assms(1) by (simp add: cp_unsubscribe_def)
next
  case True
  define c where "c = (sy_props sy ! n)\<lparr>cp_subscribed := False\<rparr>"
  define k where "k = cp_key c"
  define h where "h = (sy_handle k sy)\<lparr>subscribeCount := subscribeCount (sy_handle k sy) - 1\<rparr>"
  define sy1 where "sy1 = h_unsubscribe k sy"
  have cs: "cp_unsubscribe n sy = cp_put n c sy1"
    using True by (simp add: cp_unsubscribe_def Let_def c_def k_def sy1_def)
  have p1: "sy_props sy1 = sy_props sy" by (simp add: sy1_def h_unsubscribe_frame)
  have pc: "prop_count l (cp_put n c sy1) = (if l = k then prop_count l sy - 1 else prop_count l sy)" for l
    using prop_count_put(1) [of n sy1 c l] assms(2) True p1 by (auto simp: c_def k_def prop_count_def)
  have pos: "prop_count k sy > 0"
    using prop_count_put(2) [of n sy c] assms(2) True by (simp add: c_def k_def)
  have u: "unat (subscribeCount (sy_handle k sy)) = prop_count k sy" using assms(1) by (simp add: sys_ok_def)
  then have nz: "subscribeCount (sy_handle k sy) \<noteq> 0" using pos by auto
  have u1: "unat (subscribeCount h) = prop_count k sy - 1"
    using u nz by (simp add: h_def unat_minus_one)
  have hs: "sy1 = (if subscribeCount h = 0
      then sy_put_handle k (h\<lparr>pendingSubscriptions := []\<rparr>) (h_unsubscribeAll k (myProviders h) sy)
      else sy_put_handle k h sy)"
    unfolding sy1_def h_unsubscribe_def Let_def h_def [symmetric] ..
  have mp: "myProviders h = myProviders (sy_handle k sy)" "pendingSubscriptions h = pendingSubscriptions (sy_handle k sy)"
    by (simp_all add: h_def)
  have s1: "subs i sy1 = (if subscribeCount h = 0 \<and> i \<in> set (myProviders h) then subs i sy - {k} else subs i sy)" for i
    using subs_unsubscribeAll [of i k "myProviders h" sy] by (simp add: hs subs_def)
  have h1: "sy_handle l sy1 = (if l = k then (if subscribeCount h = 0 then h\<lparr>pendingSubscriptions := []\<rparr> else h)
      else sy_handle l sy)" for l
    by (simp add: hs)
  have "sys_ok (cp_put n c sy1)"
    unfolding sys_ok_def pc cp_put_frame h1
  proof (intro conjI allI impI)
    show "(l \<in> subs i sy1) = (subscribeCount (if l = k then if subscribeCount h = 0 then h\<lparr>pendingSubscriptions := []\<rparr> else h
           else sy_handle l sy) \<noteq> 0 \<and> i \<in> set (myProviders (if l = k then if subscribeCount h = 0
             then h\<lparr>pendingSubscriptions := []\<rparr> else h else sy_handle l sy)))" for i l
      using assms(1) nz mp by (auto simp: s1 sys_ok_def)
    show "unat (subscribeCount (if l = k then if subscribeCount h = 0 then h\<lparr>pendingSubscriptions := []\<rparr> else h
           else sy_handle l sy)) = (if l = k then prop_count l sy - 1 else prop_count l sy)" for l
      using assms(1) u1 by (auto simp: sys_ok_def)
  qed (use assms(1) nz mp in \<open>auto simp: sys_ok_def split: if_splits\<close>)
  then show ?thesis by (simp add: cs p1)
qed

lemma cp_new_ok:
  assumes "sys_ok sy" and "Suc (length (sy_props sy)) < 2 ^ 32"
  shows "sys_ok (fst (cp_new E k sy)) \<and> length (sy_props (fst (cp_new E k sy))) = Suc (length (sy_props sy))"
proof -
  obtain sy1 o1 where 1: "handle_instance E k sy = (sy1, o1)" by (cases "handle_instance E k sy")
  then have ok1: "sys_ok sy1" "sy_props sy1 = sy_props sy"
    using handle_instance_ok [OF assms(1), of E k] by (simp_all add: ok_from_def)
  define sy2 where "sy2 = sy1\<lparr>sy_props := sy_props sy1 @ [\<lparr>cp_key = k, cp_subscribed = False, cp_value = VInvalid\<rparr>]\<rparr>"
  have "sys_ok sy2" using ok1(1)
    by (simp add: sys_ok_def sy2_def prop_count_def sy_handle_def subs_def sy_provider_def)
  then show ?thesis
    using cp_subscribe_ok [of sy2 "length (sy_props sy1)"] assms(2) ok1(2)
    by (simp add: cp_new_def 1 sy2_def)
qed

lemma prop_count_value: "cp_subscribed c = cp_subscribed (sy_props sy ! n) \<Longrightarrow>
    cp_key c = cp_key (sy_props sy ! n) \<Longrightarrow> n < length (sy_props sy) \<Longrightarrow>
    prop_count k (cp_put n c sy) = prop_count k sy"
  by (simp add: prop_count_put_split prop_count_split [of n sy])

lemma sy_step_ok:
  assumes "sys_ok sy" and "length (sy_props (fst (sy_step E e sy))) < 2 ^ 32"
  shows "sys_ok (fst (sy_step E e sy))"
proof (cases e)
  case (SYNew k)
  have "length (sy_props (fst (cp_new E k sy))) = Suc (length (sy_props sy))"
  proof -
    have "length (sy_props (cp_subscribe n s)) = length (sy_props s)" for n s
      by (simp add: cp_subscribe_def Let_def h_subscribe_frame)
    moreover have "sy_props (fst (handle_instance E k sy)) = sy_props sy"
      using handle_instance_ok [OF assms(1), of E k] by (simp add: ok_from_def)
    ultimately show ?thesis by (auto simp: cp_new_def split: prod.splits)
  qed
  then show ?thesis using assms cp_new_ok [OF assms(1), of E k] SYNew by simp
next
  case (SYSubscribe n)
  then show ?thesis using assms cp_subscribe_ok [of sy n]
    by (auto simp: cp_subscribe_def Let_def h_subscribe_frame split: if_splits)
next
  case (SYUnsubscribe n)
  then show ?thesis using assms(1) cp_unsubscribe_ok [of sy n] by auto
next
  case (SYNotify n)
  show ?thesis
  proof (cases "n < length (sy_props sy)")
    case True
    then have "sys_ok (cp_put n ((sy_props sy ! n)\<lparr>cp_value := v\<rparr>) sy)" for v
      using assms(1) prop_count_value [of "(sy_props sy ! n)\<lparr>cp_value := v\<rparr>" sy n]
      by (simp add: sys_ok_def)
    then show ?thesis using SYNotify assms(1) by (auto simp: cp_onValueChanged_def Let_def)
  qed (use SYNotify assms(1) in auto)
next
  case (SYWaitBlocking react n)
  then show ?thesis
    using assms(1) blockAll_ok [OF assms(1), of E react "cp_key (sy_props sy ! n)"]
    by (auto simp: cp_waitBlocking_def h_blockUntilSubscribed_def ok_from_def)
next
  case (SYLoop i)
  then show ?thesis
    using assms(1) provider_op_ok [OF assms(1), of "pr_loop (en_plugins E)" E i]
    by (auto simp: ok_from_def subscribedKeys_loop)
next
  case (SYPlugin i sg)
  then show ?thesis
    using assms(1) provider_op_ok [OF assms(1), of "pr_on_plugin sg" E i]
    by (auto simp: ok_from_def subscribedKeys_plugin)
next
  case (SYName x)
  then show ?thesis using assms(1) listener_event_ok [OF assms(1), of E x]
    by (auto simp: ok_from_def split: nl_event.splits)
next
  case (SYRegistry k infos)
  have "sys_ok (sy\<lparr>sy_registry := r\<rparr>)" for r
    using assms(1) by (simp add: sys_ok_def subs_def sy_handle_def sy_provider_def prop_count_def)
  then show ?thesis using SYRegistry updateProvider_ok [of "sy\<lparr>sy_registry := (sy_registry sy)(k := infos)\<rparr>" E k]
    by (auto simp: ok_from_def Let_def)
next
  case SYIgnoreCommander
  then show ?thesis using assms(1)
    by (simp add: ignoreCommander_def sys_ok_def subs_def sy_handle_def sy_provider_def prop_count_def)
next
  case (SYTypeCheck b)
  then show ?thesis using assms(1)
    by (simp add: setTypeCheck_def sys_ok_def subs_def sy_handle_def sy_provider_def prop_count_def)
qed

fun is_new :: "sy_event \<Rightarrow> bool" where
  "is_new (SYNew _) = True"
| "is_new _ = False"

lemma sy_step_grow: "sys_ok sy \<Longrightarrow>
    length (sy_props (fst (sy_step E e sy))) = length (sy_props sy) + (if is_new e then 1 else 0)"
proof (cases e)
  case (SYNew k)
  assume ok: "sys_ok sy"
  have "length (sy_props (cp_subscribe n s)) = length (sy_props s)" for n s
    by (simp add: cp_subscribe_def Let_def h_subscribe_frame)
  then show ?thesis using SYNew handle_instance_ok [OF ok, of E k]
    by (auto simp: cp_new_def ok_from_def split: prod.splits)
next
  case (SYName x)
  assume "sys_ok sy"
  then show ?thesis using SYName listener_event_ok [of sy E x] by (auto simp: ok_from_def split: nl_event.splits)
next
  case (SYRegistry k infos)
  assume "sys_ok sy"
  then have "sys_ok (sy\<lparr>sy_registry := (sy_registry sy)(k := infos)\<rparr>)"
    by (simp add: sys_ok_def subs_def sy_handle_def sy_provider_def prop_count_def)
  then show ?thesis using SYRegistry updateProvider_ok [of "sy\<lparr>sy_registry := (sy_registry sy)(k := infos)\<rparr>" E k]
    by (auto simp: ok_from_def Let_def)
next
  case (SYWaitBlocking react n)
  assume "sys_ok sy"
  then show ?thesis using SYWaitBlocking blockAll_ok [of sy E react "cp_key (sy_props sy ! n)"]
    by (auto simp: cp_waitBlocking_def h_blockUntilSubscribed_def ok_from_def)
next
  case (SYLoop i)
  assume "sys_ok sy"
  then show ?thesis using SYLoop provider_op_ok [of sy "pr_loop (en_plugins E)" E i]
    by (auto simp: ok_from_def subscribedKeys_loop)
next
  case (SYPlugin i sg)
  assume "sys_ok sy"
  then show ?thesis using SYPlugin provider_op_ok [of sy "pr_on_plugin sg" E i]
    by (auto simp: ok_from_def subscribedKeys_plugin)
qed (auto simp: cp_subscribe_def cp_unsubscribe_def cp_onValueChanged_def ignoreCommander_def setTypeCheck_def Let_def
    h_subscribe_frame h_unsubscribe_frame)

lemma sys_new_ok: "sys_ok (sys_new registry)"
  by (simp add: sys_ok_def sys_new_def sy_handle_def handle_new_def subs_def sy_provider_def provider_instance_def
      provider_new_def pr_queueOnce_def prop_count_def)

lemma sys_run_ok: "sys_ok sy \<Longrightarrow> length (sy_props sy) + length (filter is_new es) < 2 ^ 32 \<Longrightarrow>
    sys_ok (fst (ev_run (sy_step E) es sy))"
proof (induction es arbitrary: sy)
  case (Cons e es)
  let ?sy1 = "fst (sy_step E e sy)"
  have len: "length (sy_props ?sy1) + length (filter is_new es) < 2 ^ 32"
    using sy_step_grow [OF Cons.prems(1), of E e] Cons.prems(2) by (cases "is_new e") simp_all
  then have "sys_ok ?sy1" by (intro sy_step_ok Cons.prems(1)) linarith
  then have "sys_ok (fst (ev_run (sy_step E) es ?sy1))" using len by (rule Cons.IH)
  then show ?case by (simp add: case_prod_unfold)
qed simp

text \<open>C3: a key is subscribed at a provider exactly when some property of the application for
  this key is subscribed and the handle of the key currently uses the provider: in every run of
  the system, over any interleaving of subscriptions, plugin and commander signals, registry
  changes and event loop turns, with fewer than 2^32 properties constructed. The subscribe count
  of a handle is the number of its subscribed properties, and only providers in use are pending.\<close>

theorem subscriptions_exact:
  assumes "length (filter is_new es) < 2 ^ 32"
    and "sy = fst (ev_run (sy_step E) es (sys_new registry))"
  shows "(k \<in> set (subscribedKeys (sy_provider i sy)) \<longleftrightarrow>
      (\<exists>c \<in> set (sy_props sy). cp_subscribed c \<and> cp_key c = k) \<and> i \<in> set (myProviders (sy_handle k sy))) \<and>
    unat (subscribeCount (sy_handle k sy)) =
      length (filter (\<lambda>c. cp_subscribed c \<and> cp_key c = k) (sy_props sy)) \<and>
    set (pendingSubscriptions (sy_handle k sy)) \<subseteq> set (myProviders (sy_handle k sy)) \<and>
    (\<not> (\<exists>c \<in> set (sy_props sy). cp_subscribed c \<and> cp_key c = k) \<longrightarrow>
       pendingSubscriptions (sy_handle k sy) = [])"
proof -
  have ok: "sys_ok sy" unfolding assms(2)
    by (rule sys_run_ok [OF sys_new_ok]) (use assms(1) in \<open>simp add: sys_new_def\<close>)
  then have u: "unat (subscribeCount (sy_handle k sy)) = prop_count k sy" by (simp add: sys_ok_def)
  have z: "subscribeCount (sy_handle k sy) = 0 \<longleftrightarrow> \<not> (\<exists>c \<in> set (sy_props sy). cp_subscribed c \<and> cp_key c = k)"
    unfolding unat_eq_zero [symmetric] u prop_count_def by (auto simp: filter_empty_conv)
  show ?thesis using ok u z unfolding sys_ok_def subs_def prop_count_def by blast
qed

definition sample_env :: sys_env where
  "sample_env = \<lparr>en_qt = qt_ref, en_plugins = no_plugins\<lparr>pe_library := (\<lambda>_ _. True)\<rparr>, en_typeOk = (\<lambda>_ _. True), en_commanding = False,
     en_busConnected = True\<rparr>"

definition lib_info :: provider_info where
  "lib_info = \<lparr>pi_plugin = ''/p'', pi_construction = []\<rparr>"

definition sample_registry :: "key \<Rightarrow> provider_info list" where
  "sample_registry k = (if k = ''A.b'' then [lib_info] else [])"

definition sample_events :: "sy_event list" where
  "sample_events = [SYNew ''A.b'', SYLoop lib_info, SYLoop lib_info, SYPlugin lib_info SigReady]"

definition sample_sys :: sys where
  "sample_sys = fst (ev_run (sy_step sample_env) sample_events (sys_new sample_registry))"

lemmas sys_eval = sample_sys_def sample_events_def sys_new_def cp_new_def handle_instance_def handle_construct_def
  sample_env_def updateProvider_def sy_put_handle_def sy_handle_def handle_new_def sample_registry_def
  sy_instance_def sy_provider_def provider_instance_def provider_new_def pr_queueOnce_def cp_subscribe_def h_subscribe_def
  cp_put_def nl_of_busType_def qi_new_def queueOnce_def qset_insert_def pr_subscribe_def sy_put_def lib_info_def
  sy_provider_op_def pr_loop_def onQueuedCall_def pr_invoke_def constructPlugin_def loads_def handleSubscribes_def
  qset_remove_def onPluginReady_def qset_union_def no_plugins_def qs_startsWith_def word_gt_0

definition sample_state :: sys where
  "sample_state = \<lparr>sy_providers =
    [(lib_info, \<lparr>pr_info = lib_info, pr_plugin = True, pluginState = READY, toSubscribe = [], toUnsubscribe = [],
       subscribedKeys = [''A.b''], pr_values = [], pluginConstructed = True,
       pr_queue = \<lparr>callQueue = [], qi_posted = []\<rparr>\<rparr>)],
    sy_handles = [(''A.b'', \<lparr>subscribeCount = 1, myProviders = [lib_info], pendingSubscriptions = [lib_info],
       myValue = VInvalid, h_listens = False\<rparr>)],
    sy_props = [\<lparr>cp_key = ''A.b'', cp_subscribed = True, cp_value = VInvalid\<rparr>],
    commanderListener = nl_of_busType SessionBus ''org.freedesktop.ContextKit.Commander'',
    commandingEnabled = False, typeCheckEnabled = False, sy_registry = sample_registry\<rparr>"

lemma sample_sys_pred: "P sample_state \<Longrightarrow> P sample_sys"
  unfolding sample_state_def by (simp add: sys_eval)

lemma sample_sys_eval: "sample_sys = sample_state"
  by (rule sample_sys_pred [of "\<lambda>x. x = sample_state"]) (rule refl)

lemmas sample_access = sample_sys_eval sample_state_def sy_handle_def sy_provider_def provider_instance_def Let_def

lemma sample_sys_facts:
  "sy_props sample_sys = [\<lparr>cp_key = ''A.b'', cp_subscribed = True, cp_value = VInvalid\<rparr>]"
  "myProviders (sy_handle ''A.b'' sample_sys) = [lib_info]"
  by (simp_all add: sample_access)

lemma subscriptions_exact_witness: "''A.b'' \<in> set (subscribedKeys (sy_provider lib_info sample_sys))"
proof -
  have n: "length (filter is_new sample_events) < 2 ^ 32" by (simp add: sample_events_def)
  have "\<exists>c \<in> set (sy_props sample_sys). cp_subscribed c \<and> cp_key c = ''A.b''"
    by (simp add: sample_sys_facts)
  then show ?thesis
    using subscriptions_exact [OF n sample_sys_def, of "''A.b''" lib_info] sample_sys_facts(2) by simp
qed

section \<open>Values\<close>

lemma h_latest_snoc: "h_latest (tvs @ [tv]) =
    (if qv_isNull (tv_value tv) then h_latest tvs
     else case h_latest tvs of None \<Rightarrow> Some tv | Some l \<Rightarrow> if tv_less l tv then Some tv else Some l)"
  by (simp add: h_latest_def)

lemma h_latest_spec:
  "(h_latest tvs = None \<longleftrightarrow> (\<forall>tv \<in> set tvs. qv_isNull (tv_value tv))) \<and>
   (\<forall>tv. h_latest tvs = Some tv \<longrightarrow>
     (\<exists>n < length tvs. tvs ! n = tv \<and> \<not> qv_isNull (tv_value tv) \<and>
       (\<forall>m < length tvs. \<not> qv_isNull (tv_value (tvs ! m)) \<longrightarrow> tv_time (tvs ! m) \<le> tv_time tv) \<and>
       (\<forall>m < n. \<not> qv_isNull (tv_value (tvs ! m)) \<longrightarrow> tv_time (tvs ! m) < tv_time tv)))"
proof (induction tvs rule: rev_induct)
  case Nil
  then show ?case by (simp add: h_latest_def)
next
  case (snoc x xs)
  show ?case
  proof (cases "qv_isNull (tv_value x)")
    case True
    then have l: "h_latest (xs @ [x]) = h_latest xs" by (simp add: h_latest_snoc)
    show ?thesis
    proof (intro conjI allI impI)
      show "(h_latest (xs @ [x]) = None) = (\<forall>tv \<in> set (xs @ [x]). qv_isNull (tv_value tv))"
        using snoc True l by simp
      fix tv assume "h_latest (xs @ [x]) = Some tv"
      then obtain n where "n < length xs" "xs ! n = tv" "\<not> qv_isNull (tv_value tv)"
        "\<forall>m < length xs. \<not> qv_isNull (tv_value (xs ! m)) \<longrightarrow> tv_time (xs ! m) \<le> tv_time tv"
        "\<forall>m < n. \<not> qv_isNull (tv_value (xs ! m)) \<longrightarrow> tv_time (xs ! m) < tv_time tv"
        using snoc l by auto
      then show "\<exists>n < length (xs @ [x]). (xs @ [x]) ! n = tv \<and> \<not> qv_isNull (tv_value tv) \<and>
          (\<forall>m < length (xs @ [x]). \<not> qv_isNull (tv_value ((xs @ [x]) ! m)) \<longrightarrow> tv_time ((xs @ [x]) ! m) \<le> tv_time tv) \<and>
          (\<forall>m < n. \<not> qv_isNull (tv_value ((xs @ [x]) ! m)) \<longrightarrow> tv_time ((xs @ [x]) ! m) < tv_time tv)"
        using True by (intro exI [of _ n]) (auto simp: nth_append less_Suc_eq)
    qed
  next
    case False
    show ?thesis
    proof (cases "h_latest xs")
      case None
      then have "h_latest (xs @ [x]) = Some x" using False by (simp add: h_latest_snoc)
      moreover have "\<forall>tv \<in> set xs. qv_isNull (tv_value tv)" using snoc None by simp
      ultimately show ?thesis using False
        by (auto intro!: exI [of _ "length xs"] simp: nth_append less_Suc_eq all_set_conv_all_nth)
    next
      case (Some l)
      then obtain n where n: "n < length xs" "xs ! n = l" "\<not> qv_isNull (tv_value l)"
        "\<forall>m < length xs. \<not> qv_isNull (tv_value (xs ! m)) \<longrightarrow> tv_time (xs ! m) \<le> tv_time l"
        "\<forall>m < n. \<not> qv_isNull (tv_value (xs ! m)) \<longrightarrow> tv_time (xs ! m) < tv_time l"
        using snoc by auto
      show ?thesis
      proof (cases "tv_less l x")
        case True
        then have "h_latest (xs @ [x]) = Some x" using False Some by (simp add: h_latest_snoc)
        moreover have "\<forall>m < length xs. \<not> qv_isNull (tv_value (xs ! m)) \<longrightarrow> tv_time (xs ! m) < tv_time x"
          using n(4) True by (auto simp: tv_less_def)
        ultimately show ?thesis using False
          by (auto intro!: exI [of _ "length xs"] simp: nth_append less_Suc_eq)
      next
        case leq: False
        then have "h_latest (xs @ [x]) = Some l" using False Some by (simp add: h_latest_snoc)
        then show ?thesis using False n leq
          by (auto intro!: exI [of _ n] simp: nth_append less_Suc_eq tv_less_def)
      qed
    qed
  qed
qed

lemma newest_of_providers:
  shows "if \<forall>i \<in> set (myProviders (sy_handle k sy)). qv_isNull (tv_value (pr_get k (sy_provider i sy)))
     then h_newValue k sy = VInvalid
     else \<exists>i \<in> set (myProviders (sy_handle k sy)).
       h_newValue k sy = tv_value (pr_get k (sy_provider i sy)) \<and> \<not> qv_isNull (h_newValue k sy) \<and>
       (\<forall>j \<in> set (myProviders (sy_handle k sy)). qv_isNull (tv_value (pr_get k (sy_provider j sy))) \<or>
          tv_time (pr_get k (sy_provider j sy)) \<le> tv_time (pr_get k (sy_provider i sy)))"
proof (cases "h_latest (map (\<lambda>i. pr_get k (sy_provider i sy)) (myProviders (sy_handle k sy)))")
  case None
  then show ?thesis
    using h_latest_spec [of "map (\<lambda>i. pr_get k (sy_provider i sy)) (myProviders (sy_handle k sy))"]
    by (simp add: h_newValue_def)
next
  case (Some tv)
  let ?l = "map (\<lambda>i. pr_get k (sy_provider i sy)) (myProviders (sy_handle k sy))"
  have v: "h_newValue k sy = tv_value tv" using Some by (simp add: h_newValue_def)
  obtain n where n: "n < length ?l" "?l ! n = tv" "\<not> qv_isNull (tv_value tv)"
    "\<forall>m < length ?l. \<not> qv_isNull (tv_value (?l ! m)) \<longrightarrow> tv_time (?l ! m) \<le> tv_time tv"
    using h_latest_spec [of ?l] Some by blast
  let ?i = "myProviders (sy_handle k sy) ! n"
  have "pr_get k (sy_provider ?i sy) = tv" "?i \<in> set (myProviders (sy_handle k sy))" using n(1,2) by simp_all
  moreover have "qv_isNull (tv_value (pr_get k (sy_provider j sy))) \<or> tv_time (pr_get k (sy_provider j sy)) \<le> tv_time tv"
    if "j \<in> set (myProviders (sy_handle k sy))" for j
    using that n(4) by (auto simp: in_set_conv_nth)
  ultimately show ?thesis using n(3) v by auto
qed

text \<open>C5: the value a handle announces is the newest of the values its providers have. When no
  provider has a value it is null; otherwise it is a value of one of the providers that no
  other provider's value is younger than. The handle changes and announces the change exactly when this value differs
  from its own and passes the type check, and announcing the same value twice is impossible for
  values that equal themselves.\<close>

theorem newest_value_announced:
  fixes E :: sys_env and sy :: sys
  assumes "typeCheckEnabled sy \<Longrightarrow> en_typeOk E k (h_newValue k sy)"
    and "(sy', os) = h_onValueChanged E k sy"
  shows "(os = [HandleChanged k] \<longleftrightarrow> qv_differs (en_qt E) (myValue (sy_handle k sy)) (h_newValue k sy)) \<and>
    (os = [HandleChanged k] \<longrightarrow> myValue (sy_handle k sy') = h_newValue k sy) \<and>
    (os \<noteq> [HandleChanged k] \<longrightarrow> os = [] \<and> sy' = sy) \<and>
    (qv_reflexive (h_newValue k sy) \<longrightarrow> snd (h_onValueChanged E k sy') = []) \<and>
    (if \<forall>i \<in> set (myProviders (sy_handle k sy)). qv_isNull (tv_value (pr_get k (sy_provider i sy)))
     then h_newValue k sy = VInvalid
     else \<exists>i \<in> set (myProviders (sy_handle k sy)).
       h_newValue k sy = tv_value (pr_get k (sy_provider i sy)) \<and> \<not> qv_isNull (h_newValue k sy) \<and>
       (\<forall>j \<in> set (myProviders (sy_handle k sy)). qv_isNull (tv_value (pr_get k (sy_provider j sy))) \<or>
          tv_time (pr_get k (sy_provider j sy)) \<le> tv_time (pr_get k (sy_provider i sy))))"
proof (intro conjI)
  let ?v = "h_newValue k sy"
  have eq: "h_onValueChanged E k sy = (if qv_differs (en_qt E) (myValue (sy_handle k sy)) ?v
      then (sy_put_handle k ((sy_handle k sy)\<lparr>myValue := ?v\<rparr>) sy, [HandleChanged k]) else (sy, []))"
    using assms(1) by (auto simp: h_onValueChanged_def Let_def)
  show "os = [HandleChanged k] \<longleftrightarrow> qv_differs (en_qt E) (myValue (sy_handle k sy)) ?v"
    "os = [HandleChanged k] \<longrightarrow> myValue (sy_handle k sy') = ?v"
    "os \<noteq> [HandleChanged k] \<longrightarrow> os = [] \<and> sy' = sy"
    using assms(2) eq by (simp_all split: if_splits)
  have nv: "h_newValue k (sy_put_handle k ((sy_handle k sy)\<lparr>myValue := ?v\<rparr>) sy) = ?v"
    by (simp add: h_newValue_def)
  show "qv_reflexive ?v \<longrightarrow> snd (h_onValueChanged E k sy') = []"
  proof (cases "qv_differs (en_qt E) (myValue (sy_handle k sy)) ?v")
    case False
    then show ?thesis using assms(2) eq by simp
  next
    case True
    then have sy': "sy' = sy_put_handle k ((sy_handle k sy)\<lparr>myValue := ?v\<rparr>) sy" using assms(2) eq by simp
    show ?thesis
      using qv_differs_refl [of ?v "en_qt E"] unfolding sy' h_onValueChanged_def Let_def nv by simp
  qed
qed (rule newest_of_providers)

definition sample_sys2 :: sys where
  "sample_sys2 = sy_put lib_info (fst (onPluginValueChanged ''A.b'' \<lparr>tv_time = 5, tv_value = VInt 3\<rparr>
     (sy_provider lib_info sample_sys))) sample_sys"

lemma newest_value_announced_witness:
  "myValue (sy_handle ''A.b'' (fst (h_onValueChanged sample_env ''A.b'' sample_sys2))) = VInt 3"
proof -
  have nv: "h_newValue ''A.b'' sample_sys2 = VInt 3" "myValue (sy_handle ''A.b'' sample_sys2) = VInvalid"
      "\<not> typeCheckEnabled sample_sys2"
    by (simp_all add: sample_sys2_def h_newValue_def sample_access sy_put_def onPluginValueChanged_def pr_get_def
        h_latest_def)
  have "qv_differs Q VInvalid (VInt 3)" for Q by (simp add: qv_differs_def)
  then show ?thesis
    using newest_value_announced [OF _ prod.collapse, of sample_sys2 sample_env "''A.b''"] nv by simp
qed

text \<open>A subscription that the plugin has accepted but not answered when it fails is never
  reported as finished: the failure announces only the keys still scheduled, so a property
  waiting for it keeps waiting.\<close>

lemma failed_plugin_leaves_pending:
  "(case sy_step sample_env (SYPlugin lib_info SigFailed) sample_sys of (sy, os) \<Rightarrow>
      os = [] \<and> h_isSubscribePending ''A.b'' sy \<and> pluginState (sy_provider lib_info sy) = FAILED \<and>
      toSubscribe (sy_provider lib_info sy) = [] \<and> qi_posted (pr_queue (sy_provider lib_info sy)) = [])"
  by (simp add: sample_access h_isSubscribePending_def onPluginFailed_def sy_provider_op_def handleSubscribes_def
      sy_put_def)

text \<open>A value that arrives just before the application unsubscribes is announced to it
  afterwards.\<close>

lemma notified_after_unsubscribe:
  "(case ev_run (sy_step sample_env) [SYPlugin lib_info (SigValueChanged ''A.b'' \<lparr>tv_time = 5, tv_value = VInt 3\<rparr>),
      SYUnsubscribe 0, SYNotify 0] sample_sys of (sy, os) \<Rightarrow>
      os = [HandleChanged ''A.b'', PropertyChanged 0] \<and> \<not> cp_subscribed (sy_props sy ! 0))"
  by (simp add: sample_access sy_provider_op_def onPluginValueChanged_def sy_put_def router_onValueChanged_def
      handle_instance_def h_onValueChanged_def h_newValue_def pr_get_def h_latest_def qv_differs_def sy_put_handle_def
      sample_env_def cp_unsubscribe_def h_unsubscribe_def cp_put_def cp_onValueChanged_def cp_valueOf_def)

section \<open>The commander\<close>

definition wanted_providers :: "sys \<Rightarrow> key \<Rightarrow> provider_info list" where
  "wanted_providers sy k = (if commandingEnabled sy \<and> servicePresent (commanderListener sy) = Present
     then [commanderInfo] else sy_registry sy k)"

definition same_choice :: "sys \<Rightarrow> sys \<Rightarrow> bool" where
  "same_choice sy sy' = (commandingEnabled sy' = commandingEnabled sy \<and> commanderListener sy' = commanderListener sy \<and>
     sy_registry sy' = sy_registry sy \<and> (\<forall>k. h_listens (sy_handle k sy') = h_listens (sy_handle k sy)))"

lemma same_choice_wanted: "same_choice sy sy' \<Longrightarrow> wanted_providers sy' k = wanted_providers sy k"
  by (simp add: same_choice_def wanted_providers_def)

lemma same_choice_trans: "same_choice a b \<Longrightarrow> same_choice b c \<Longrightarrow> same_choice a c"
  by (simp add: same_choice_def)

lemma onValueChanged_choice: "same_choice sy (fst (h_onValueChanged E k sy))"
  by (simp add: same_choice_def h_onValueChanged_def Let_def)

lemma updateProvider_choice:
  "same_choice sy (fst (updateProvider E k sy)) \<and>
   myProviders (sy_handle l (fst (updateProvider E k sy))) =
     (if l = k then wanted_providers sy k else myProviders (sy_handle l sy))"
proof -
  define new where "new = wanted_providers sy k"
  define sy1 where "sy1 = (if commandingEnabled sy \<and> isServicePresent (commanderListener sy) = Present
      then sy_put commanderInfo (clearValues (sy_provider commanderInfo sy)) sy else fold sy_instance new sy)"
  define h where "h = sy_handle k sy"
  have new: "(if commandingEnabled sy \<and> isServicePresent (commanderListener sy) = Present then [commanderInfo]
      else sy_registry sy k) = new"
    by (simp add: new_def wanted_providers_def isServicePresent_def)
  have 1: "sy_handle m sy1 = sy_handle m sy" "commandingEnabled sy1 = commandingEnabled sy"
      "commanderListener sy1 = commanderListener sy" "sy_registry sy1 = sy_registry sy" for m
    by (simp_all add: sy1_def)
  have up: "updateProvider E k sy =
     (if subscribeCount h > 0 then
        (let sy2 = h_unsubscribeAll k (myProviders h) sy1
         in case h_subscribeAll k new [] sy2 of (sy3, pend) \<Rightarrow>
            let sy4 = sy_put_handle k (h\<lparr>pendingSubscriptions := pend, myProviders := new\<rparr>) sy3
            in if pend = [] then h_onValueChanged E k sy4 else (sy4, []))
      else (sy_put_handle k (h\<lparr>myProviders := new\<rparr>) sy1, []))"
    unfolding updateProvider_def Let_def by (simp only: new sy1_def [symmetric] 1 h_def [symmetric])
  show ?thesis
  proof (cases "subscribeCount h > 0")
    case False
    then show ?thesis using 1 by (simp add: up same_choice_def new_def h_def)
  next
    case True
    obtain sy3 pend where 3: "h_subscribeAll k new [] (h_unsubscribeAll k (myProviders h) sy1) = (sy3, pend)"
      by (cases "h_subscribeAll k new [] (h_unsubscribeAll k (myProviders h) sy1)")
    define sy4 where "sy4 = sy_put_handle k (h\<lparr>pendingSubscriptions := pend, myProviders := new\<rparr>) sy3"
    note f = subscribeAll_frame [OF 3]
    have 4: "same_choice sy sy4" "myProviders (sy_handle m sy4) = (if m = k then new else myProviders (sy_handle m sy))" for m
      using f 1 by (simp_all add: sy4_def same_choice_def h_def)
    have "myProviders (sy_handle m (fst (h_onValueChanged E k sy4))) = myProviders (sy_handle m sy4)" for m
      using onValueChanged_view [of sy4 E k] by (simp add: same_view_def)
    moreover have "fst (updateProvider E k sy) = (if pend = [] then fst (h_onValueChanged E k sy4) else sy4)"
      using True unfolding up Let_def sy4_def by (cases "pend = []") (simp_all add: 3)
    ultimately show ?thesis
      using 4 same_choice_trans [OF 4(1) onValueChanged_choice] by (simp add: new_def)
  qed
qed

lemma updateAll_choice:
  "same_choice sy (fst (sy_updateAll E ks sy)) \<and>
   myProviders (sy_handle l (fst (sy_updateAll E ks sy))) =
     (if l \<in> set ks \<and> h_listens (sy_handle l sy) then wanted_providers sy l else myProviders (sy_handle l sy))"
proof (induction ks arbitrary: sy)
  case (Cons k ks)
  define r where "r = (if h_listens (sy_handle k sy) then updateProvider E k sy else (sy, []))"
  have 1: "same_choice sy (fst r)" "myProviders (sy_handle l (fst r)) =
      (if l = k \<and> h_listens (sy_handle k sy) then wanted_providers sy k else myProviders (sy_handle l sy))"
    using updateProvider_choice [of sy E k l] by (auto simp: r_def) (simp add: same_choice_def)
  have "fst (sy_updateAll E (k # ks) sy) = fst (sy_updateAll E ks (fst r))"
    unfolding sy_updateAll.simps r_def [symmetric] by (simp add: case_prod_unfold)
  then show ?case
    using Cons.IH [of "fst r"] 1 same_choice_wanted [OF 1(1)] same_choice_trans [OF 1(1)]
    by (auto simp: same_choice_def)
qed (simp add: same_choice_def)

text \<open>C6: the commander overrides the providers. When its name appears, every handle that listens
  for it switches to the commander alone; when it disappears, every such handle goes back to the
  providers of the registry. By the invariant of the system a subscribed key is then
  subscribed there and nowhere else.\<close>

theorem commander_overrides:
  assumes "commandingEnabled sy" and "map_of (sy_handles sy) k = Some h" and "h_listens h"
  shows "(servicePresent (commanderListener sy) \<noteq> Present \<longrightarrow>
      myProviders (sy_handle k (fst (sy_step E (SYName NLRegistered) sy))) = [commanderInfo]) \<and>
    (servicePresent (commanderListener sy) \<noteq> NotPresent \<longrightarrow>
      myProviders (sy_handle k (fst (sy_step E (SYName NLUnregistered) sy))) = sy_registry sy k)"
proof -
  have k: "k \<in> set (amap_keys (sy_handles sy))"
    using assms(2) by (force simp: amap_keys_def dest: map_of_SomeD)
  have h: "sy_handle k (sy\<lparr>commanderListener := l\<rparr>) = h" for l using assms(2) by (simp add: sy_handle_def)
  have m: "myProviders (sy_handle k (fst (sy_updateAll E (amap_keys (sy_handles sy)) (sy\<lparr>commanderListener := l\<rparr>)))) =
      wanted_providers (sy\<lparr>commanderListener := l\<rparr>) k" for l
    using updateAll_choice [of "sy\<lparr>commanderListener := l\<rparr>" E "amap_keys (sy_handles sy)" k] k h assms(3) by simp
  show ?thesis
    using m assms(1)
    by (auto simp: sy_listener_event_def setServicePresent_def setServiceGone_def case_prod_unfold
        wanted_providers_def)
qed

lemma commander_overrides_witness:
  "myProviders (sy_handle ''A.b'' (fst (sy_step sample_env (SYName NLRegistered)
     (sys_new sample_registry\<lparr>sy_handles := [(''A.b'', handle_new True)]\<rparr>)))) = [commanderInfo]"
  using commander_overrides [of "sys_new sample_registry\<lparr>sy_handles := [(''A.b'', handle_new True)]\<rparr>"
      "''A.b''" "handle_new True" sample_env]
  by (simp add: sys_new_def handle_new_def nl_of_busType_def)

end
