(* ===== verification/Assoc_Tree.thy ===== *)
theory Assoc_Tree
  imports Qt_Variant
begin

text \<open>
  \<open>AssocTree\<close> (assoctree.cpp): a \<open>QVariant\<close> read as a nano document object model,
  either a string (a tree with just a name) or a list whose first element is the name and
  whose rest are the sub-trees. All operations are read-only; \<open>filterOut\<close> returns a copy.
\<close>

type_synonym assoc_tree = qvariant

section \<open>Operations\<close>

text \<open>\<open>name()\<close>; the \<open>option\<close> is the difference between the null and the empty string.\<close>

definition tree_nameq :: "qt_lib \<Rightarrow> assoc_tree \<Rightarrow> string option" where
  "tree_nameq Q t =
     (if qv_type t = TString then qv_toQString Q t
      else if qv_type t \<noteq> TList \<or> length (qv_toList t) < 1 then None
      else qv_toQString Q (qv_toList t ! 0))"

definition tree_name :: "qt_lib \<Rightarrow> assoc_tree \<Rightarrow> string" where
  "tree_name Q t = qs_str (tree_nameq Q t)"

definition tree_nodes :: "assoc_tree \<Rightarrow> qvariant list" where
  "tree_nodes t = (if qv_type t = TList then drop 1 (qv_toList t) else [])"

text \<open>The test both \<open>node\<close> and \<open>filterOut\<close> make on a child: a list tagged \<open>name\<close>.\<close>

definition tagged :: "qt_lib \<Rightarrow> string \<Rightarrow> qvariant \<Rightarrow> bool" where
  "tagged Q name child =
     (qv_type child = TList \<and> length (qv_toList child) \<ge> 1 \<and>
      qv_eq Q (qv_toList child ! 0) (VString name))"

definition tree_node :: "qt_lib \<Rightarrow> assoc_tree \<Rightarrow> string \<Rightarrow> assoc_tree" where
  "tree_node Q t name =
     (if qv_type t \<noteq> TList then VInvalid
      else case List.find (tagged Q name) (tree_nodes t) of None \<Rightarrow> VInvalid | Some c \<Rightarrow> c)"

text \<open>The overloads \<open>node(name1, \<dots>, name5)\<close> descend one name after the other.\<close>

definition tree_node_path :: "qt_lib \<Rightarrow> assoc_tree \<Rightarrow> string list \<Rightarrow> assoc_tree" where
  "tree_node_path Q t names = foldl (tree_node Q) t names"

definition tree_value0 :: "assoc_tree \<Rightarrow> qvariant" where
  "tree_value0 t =
     (if qv_type t \<noteq> TList then VInvalid
      else if length (qv_toList t) < 2 then VInvalid
      else qv_toList t ! 1)"

definition tree_value :: "qt_lib \<Rightarrow> assoc_tree \<Rightarrow> string list \<Rightarrow> qvariant" where
  "tree_value Q t names = tree_value0 (tree_node_path Q t names)"

definition tree_filterOut :: "qt_lib \<Rightarrow> assoc_tree \<Rightarrow> string \<Rightarrow> assoc_tree" where
  "tree_filterOut Q t name =
     (if qv_type t \<noteq> TList then t
      else VList (qs_variant (tree_nameq Q t) #
             filter (\<lambda>n. \<not> (qv_type n = TString \<and> qv_eq Q n (VString name)) \<and> \<not> tagged Q name n)
               (tree_nodes t)))"

definition indent :: "nat \<Rightarrow> string" where
  "indent level = concat (replicate level ''  '')"

fun tree_dump :: "qt_lib \<Rightarrow> nat \<Rightarrow> assoc_tree \<Rightarrow> string" where
  "tree_dump Q level (VList xs) =
     indent level @ ''[\<newline>'' @ concat (map (tree_dump Q (Suc level)) xs) @ indent level @ '']\<newline>''"
| "tree_dump Q level t =
     indent level @
     (if qv_type t = TString then qv_toString Q t @ ''\<newline>''
      else if qv_type t = TList then ''[\<newline>'' @ indent level @ '']\<newline>'' else [])"

fun tree_dumpXML :: "qt_lib \<Rightarrow> nat \<Rightarrow> assoc_tree \<Rightarrow> string" where
  "tree_dumpXML Q level (VList xs) =
     indent level @
     (case xs of
        [] \<Rightarrow> ''<'' @ tree_name Q (VList xs) @ ''/>\<newline>''
      | _ # children \<Rightarrow>
          (if children = [] then ''<'' @ tree_name Q (VList xs) @ ''/>\<newline>''
           else ''<'' @ tree_name Q (VList xs) @ ''>\<newline>'' @
                concat (map (tree_dumpXML Q (Suc level)) children) @
                indent level @ ''</'' @ tree_name Q (VList xs) @ ''>\<newline>''))"
| "tree_dumpXML Q level t =
     indent level @
     (if qv_type t = TString then qv_toString Q t @ ''\<newline>''
      else if qv_type t = TList then ''<'' @ tree_name Q t @ ''/>\<newline>'' else [])"

section \<open>Lemmas\<close>

lemma tree_node_None: "tree_node Q t n = VInvalid \<or> tagged Q n (tree_node Q t n)"
  by (auto simp: tree_node_def find_Some_iff split: option.split)

lemma tree_node_VList: "tree_node Q (VList (h # xs)) n =
    (case List.find (tagged Q n) xs of None \<Rightarrow> VInvalid | Some c \<Rightarrow> c)"
  by (simp add: tree_node_def tree_nodes_def)

lemma tree_node_no_child: "(\<And>c. c \<in> set (tree_nodes t) \<Longrightarrow> \<not> tagged Q n c) \<Longrightarrow> tree_node Q t n = VInvalid"
  by (auto simp: tree_node_def find_None_iff find_Some_iff split: option.split)

lemma tree_nodes_filterOut:
  "qv_type t = TList \<Longrightarrow> tree_nodes (tree_filterOut Q t n) =
     filter (\<lambda>c. \<not> (qv_type c = TString \<and> qv_eq Q c (VString n)) \<and> \<not> tagged Q n c) (tree_nodes t)"
  by (simp add: tree_filterOut_def tree_nodes_def)

lemma find_filter_idle: "(\<And>c. c \<in> set xs \<Longrightarrow> P c \<Longrightarrow> R c) \<Longrightarrow> List.find P (filter R xs) = List.find P xs"
  by (induction xs) auto

text \<open>Trees as NanoXml builds them: every tag is a string.\<close>

fun string_tagged :: "qvariant \<Rightarrow> bool" where
  "string_tagged (VList (VString _ # _)) = True"
| "string_tagged (VList _) = False"
| "string_tagged t = (qv_type t = TString)"

lemma tagged_string: "tagged Q n (VList (VString m # xs)) \<longleftrightarrow> n = m"
  by (auto simp: tagged_def)

lemma string_tagged_unique:
  assumes "string_tagged c" and "tagged Q n c" and "tagged Q m c"
  shows "n = m"
  using assms by (cases c rule: string_tagged.cases) (auto simp: tagged_def)

section \<open>Properties\<close>

text \<open>C18: \<open>filterOut\<close> removes every sub-tree of that name, keeps every other one and the
  name of the tree, so that looking up any other name gives what it gave before.\<close>

lemma filterOut_correct:
  assumes "qv_type t = TList" and "list_all string_tagged (tree_nodes t)"
  shows "tree_node Q (tree_filterOut Q t n) n = VInvalid \<and>
    (\<forall>m. m \<noteq> n \<longrightarrow> tree_node Q (tree_filterOut Q t n) m = tree_node Q t m) \<and>
    tree_name Q (tree_filterOut Q t n) = tree_name Q t"
proof (intro conjI allI impI)
  show "tree_node Q (tree_filterOut Q t n) n = VInvalid"
    using assms by (intro tree_node_no_child) (simp add: tree_nodes_filterOut)
next
  fix m assume mn: "m \<noteq> n"
  have "List.find (tagged Q m) (tree_nodes (tree_filterOut Q t n)) = List.find (tagged Q m) (tree_nodes t)"
    unfolding tree_nodes_filterOut [OF assms(1)]
  proof (rule find_filter_idle)
    fix c assume c: "c \<in> set (tree_nodes t)" and tag: "tagged Q m c"
    from assms(2) c have "string_tagged c" by (simp add: list_all_iff)
    with tag mn show "\<not> (qv_type c = TString \<and> qv_eq Q c (VString n)) \<and> \<not> tagged Q n c"
      by (auto simp: tagged_def dest: string_tagged_unique)
  qed
  with assms(1) show "tree_node Q (tree_filterOut Q t n) m = tree_node Q t m"
    by (simp add: tree_node_def tree_filterOut_def)
next
  show "tree_name Q (tree_filterOut Q t n) = tree_name Q t"
    using assms(1)
    by (auto simp: tree_name_def tree_nameq_def tree_filterOut_def qs_variant_def qs_str_def
        split: option.splits)
qed

end
