(* ===== verification/Nano_Xml.thy ===== *)
theory Nano_Xml
  imports Assoc_Tree
begin

text \<open>
  \<open>NanoXml\<close> (nanoxml.cpp): the SAX content handler that turns the parser's callbacks into
  an association tree. The state is the list being built, the stack of the lists around it,
  and the finished root. The XML parser itself is Qt's: it is the sequence of callbacks it
  delivers. Appending while no list is open dereferences a null pointer in the code; the
  model's handlers return \<open>None\<close> there.
\<close>

record nano_xml =
  nx_current :: "qvariant list option"
  nx_stack :: "qvariant list list"
  nx_root :: qvariant
  nx_nspace :: string

definition nx_init :: nano_xml where
  "nx_init = \<lparr>nx_current = None, nx_stack = [], nx_root = VInvalid, nx_nspace = []\<rparr>"

section \<open>The handlers\<close>

definition nx_addValue :: "string \<Rightarrow> nano_xml \<Rightarrow> nano_xml option" where
  "nx_addValue v s = (case nx_current s of
      None \<Rightarrow> None
    | Some xs \<Rightarrow> Some (s\<lparr>nx_current := Some (xs @ [VString v])\<rparr>))"

definition nx_pushList :: "nano_xml \<Rightarrow> nano_xml" where
  "nx_pushList s =
     s\<lparr>nx_stack := (case nx_current s of None \<Rightarrow> nx_stack s | Some xs \<Rightarrow> xs # nx_stack s),
       nx_current := Some []\<rparr>"

definition nx_popList :: "nano_xml \<Rightarrow> nano_xml" where
  "nx_popList s = (case nx_current s of
      None \<Rightarrow> s
    | Some xs \<Rightarrow>
        (case nx_stack s of
          outer # rest \<Rightarrow> s\<lparr>nx_stack := rest, nx_current := Some (outer @ [VList xs])\<rparr>
        | [] \<Rightarrow> s\<lparr>nx_current := None, nx_root := VList xs\<rparr>))"

definition nx_startPrefixMapping :: "string \<Rightarrow> string \<Rightarrow> nano_xml \<Rightarrow> nano_xml option" where
  "nx_startPrefixMapping prefix uri s = Some (s\<lparr>nx_nspace := uri\<rparr>)"

fun nx_attrs :: "(string \<times> string) list \<Rightarrow> nano_xml \<Rightarrow> nano_xml option" where
  "nx_attrs [] s = Some s"
| "nx_attrs ((n, v) # as) s =
     Option.bind (nx_addValue n (nx_pushList s)) (\<lambda>s1.
     Option.bind (nx_addValue v s1) (\<lambda>s2.
     nx_attrs as (nx_popList s2)))"

definition nx_startElement :: "string \<Rightarrow> (string \<times> string) list \<Rightarrow> nano_xml \<Rightarrow> nano_xml option" where
  "nx_startElement name attrs s = Option.bind (nx_addValue name (nx_pushList s)) (nx_attrs attrs)"

definition nx_endElement :: "string \<Rightarrow> nano_xml \<Rightarrow> nano_xml option" where
  "nx_endElement name s = Some (nx_popList s)"

definition nx_characters :: "string \<Rightarrow> nano_xml \<Rightarrow> nano_xml option" where
  "nx_characters chars s =
     (let trimmed = qs_trimmed chars in if trimmed \<noteq> [] then nx_addValue trimmed s else Some s)"

datatype sax_event =
    StartPrefixMapping string string
  | StartElement string "(string \<times> string) list"
  | EndElement string
  | Characters string

fun nx_handle :: "sax_event \<Rightarrow> nano_xml \<Rightarrow> nano_xml option" where
  "nx_handle (StartPrefixMapping p u) s = nx_startPrefixMapping p u s"
| "nx_handle (StartElement n as) s = nx_startElement n as s"
| "nx_handle (EndElement n) s = nx_endElement n s"
| "nx_handle (Characters c) s = nx_characters c s"

fun nx_run :: "sax_event list \<Rightarrow> nano_xml \<Rightarrow> nano_xml option" where
  "nx_run [] s = Some s"
| "nx_run (e # es) s = Option.bind (nx_handle e s) (nx_run es)"

text \<open>
  \<open>initAndParse\<close>: the parser delivers callbacks until the end of the input or an error;
  \<open>ok\<close> is what \<open>reader.parse\<close> returned. The result is the object's \<open>failed\<close>
  flag, its namespace and the tree.
\<close>

record nano_result =
  nr_failed :: bool
  nr_nspace :: string
  nr_result :: assoc_tree

definition nx_initAndParse :: "sax_event list \<times> bool \<Rightarrow> nano_result option" where
  "nx_initAndParse p = (case p of (events, ok) \<Rightarrow>
     map_option (\<lambda>s. \<lparr>nr_failed = \<not> ok, nr_nspace = nx_nspace s, nr_result = nx_root s\<rparr>)
       (nx_run events nx_init))"

section \<open>Documents and the tree they stand for\<close>

text \<open>
  An element with its attributes and content; character data may arrive in any number of
  chunks. \<open>nano_encode\<close> is the tree the class comment of nanoxml.cpp describes.
\<close>

datatype xml = Element string "(string \<times> string) list" "xml list" | Text string

fun sax_events :: "xml \<Rightarrow> sax_event list" where
  "sax_events (Element n as cs) = StartElement n as # concat (map sax_events cs) @ [EndElement n]"
| "sax_events (Text t) = [Characters t]"

definition attr_tree :: "string \<times> string \<Rightarrow> qvariant" where
  "attr_tree a = VList [VString (fst a), VString (snd a)]"

fun nano_encode :: "xml \<Rightarrow> qvariant list" where
  "nano_encode (Element n as cs) =
     [VList (VString n # map attr_tree as @ concat (map nano_encode cs))]"
| "nano_encode (Text t) = (if qs_trimmed t = [] then [] else [VString (qs_trimmed t)])"

section \<open>The handlers build the encoding\<close>

lemma nx_run_append: "nx_run (es @ fs) s = Option.bind (nx_run es s) (nx_run fs)"
  by (induction es arbitrary: s) (auto simp: Option.bind_assoc split: option.splits bind_splits)

lemma nx_attrs_build:
  "nx_attrs as (s\<lparr>nx_current := Some xs\<rparr>) = Some (s\<lparr>nx_current := Some (xs @ map attr_tree as)\<rparr>)"
proof (induction as arbitrary: xs)
  case Nil
  then show ?case by simp
next
  case (Cons a as)
  obtain n v where a: "a = (n, v)" by (cases a)
  have "nx_attrs (a # as) (s\<lparr>nx_current := Some xs\<rparr>) =
      nx_attrs as (s\<lparr>nx_current := Some (xs @ [attr_tree a])\<rparr>)"
    by (simp add: a nx_addValue_def nx_pushList_def nx_popList_def attr_tree_def)
  then show ?case using Cons.IH by simp
qed

lemma nx_startElement_open:
  "nx_current s = Some xs \<Longrightarrow> nx_startElement n as s =
     Some (s\<lparr>nx_stack := xs # nx_stack s, nx_current := Some (VString n # map attr_tree as)\<rparr>)"
  using nx_attrs_build [where s = "s\<lparr>nx_stack := xs # nx_stack s\<rparr>" and xs = "[VString n]"]
  by (simp add: nx_startElement_def nx_addValue_def nx_pushList_def)

lemma nx_startElement_root:
  "nx_current s = None \<Longrightarrow> nx_startElement n as s =
     Some (s\<lparr>nx_current := Some (VString n # map attr_tree as)\<rparr>)"
  using nx_attrs_build [where s = s and xs = "[VString n]"]
  by (simp add: nx_startElement_def nx_addValue_def nx_pushList_def)

lemma nx_run_contents:
  assumes "\<And>c s xs. c \<in> set cs \<Longrightarrow> nx_current s = Some xs \<Longrightarrow>
      nx_run (sax_events c) s = Some (s\<lparr>nx_current := Some (xs @ nano_encode c)\<rparr>)"
    and "nx_current s = Some xs"
  shows "nx_run (concat (map sax_events cs)) s =
      Some (s\<lparr>nx_current := Some (xs @ concat (map nano_encode cs))\<rparr>)"
  using assms
proof (induction cs arbitrary: s xs)
  case Nil
  then show ?case by simp
next
  case (Cons c cs)
  have "nx_run (concat (map sax_events cs)) (s\<lparr>nx_current := Some (xs @ nano_encode c)\<rparr>) =
      Some (s\<lparr>nx_current := Some (xs @ nano_encode c), nx_current :=
        Some ((xs @ nano_encode c) @ concat (map nano_encode cs))\<rparr>)"
    by (rule Cons.IH) (use Cons.prems(1) in auto)
  with Cons.prems show ?case by (simp add: nx_run_append)
qed

lemma nx_run_element:
  "nx_current s = Some xs \<Longrightarrow>
     nx_run (sax_events x) s = Some (s\<lparr>nx_current := Some (xs @ nano_encode x)\<rparr>)"
proof (induction x arbitrary: s xs)
  case (Element n as cs)
  let ?s = "s\<lparr>nx_stack := xs # nx_stack s, nx_current := Some (VString n # map attr_tree as)\<rparr>"
  have "nx_run (concat (map sax_events cs)) ?s =
      Some (?s\<lparr>nx_current := Some ((VString n # map attr_tree as) @ concat (map nano_encode cs))\<rparr>)"
    by (rule nx_run_contents) (use Element.IH in auto)
  with Element.prems show ?case
    by (simp add: nx_startElement_open nx_run_append nx_endElement_def nx_popList_def)
next
  case (Text t)
  then show ?case by (auto simp: nx_characters_def nx_addValue_def Let_def)
qed

lemma nx_run_document:
  "nx_run (sax_events (Element n as cs)) nx_init =
     Some (nx_init\<lparr>nx_root := hd (nano_encode (Element n as cs))\<rparr>)"
proof -
  let ?s = "nx_init\<lparr>nx_current := Some (VString n # map attr_tree as)\<rparr>"
  have "nx_run (concat (map sax_events cs)) ?s =
      Some (?s\<lparr>nx_current := Some ((VString n # map attr_tree as) @ concat (map nano_encode cs))\<rparr>)"
    by (rule nx_run_contents) (auto intro: nx_run_element)
  then show ?thesis
    by (simp add: nx_startElement_root nx_run_append nx_endElement_def nx_popList_def nx_init_def)
qed

section \<open>Properties\<close>


end
