(* ===== verification/Type_Registry.thy ===== *)
theory Type_Registry
  imports Nano_Xml
begin

text \<open>
  \<open>ContextTypeRegistryInfo\<close> (contexttyperegistryinfo.cpp): the singleton that finds a
  type definition in the core type tree, with a cache of the definitions found so far.
  The singleton holder and its move to the main thread are not modelled; the environment
  and the file system are parameters.
\<close>

record type_registry =
  tr_coreTree :: assoc_tree
  tr_typeCache :: "(string \<times> assoc_tree) list"

definition tr_registryPath :: "string \<Rightarrow> (string \<Rightarrow> string option) \<Rightarrow> string" where
  "tr_registryPath default_types getenv =
     (case getenv ''CONTEXT_TYPES'' of None \<Rightarrow> default_types | Some p \<Rightarrow> p)"

definition tr_coreTypesPath :: "string \<Rightarrow> (string \<Rightarrow> string option) \<Rightarrow> string" where
  "tr_coreTypesPath default_core_types getenv =
     (case getenv ''CONTEXT_CORE_TYPES'' of None \<Rightarrow> default_core_types | Some p \<Rightarrow> p)"

text \<open>
  The constructor: \<open>file\<close> is what the XML parser delivers for the file at the core types
  path, \<open>None\<close> when the file does not exist. The outer \<open>None\<close> is NanoXml's crash.
\<close>

definition tr_construct :: "(sax_event list \<times> bool) option \<Rightarrow> type_registry option" where
  "tr_construct file = (case file of
      None \<Rightarrow> Some \<lparr>tr_coreTree = VInvalid, tr_typeCache = []\<rparr>
    | Some p \<Rightarrow> map_option (\<lambda>parser.
        \<lparr>tr_coreTree = (if nr_failed parser then VInvalid else nr_result parser),
         tr_typeCache = []\<rparr>) (nx_initAndParse p))"

definition tr_newName :: "string \<Rightarrow> string" where
  "tr_newName name =
     (if name = ''TRUTH'' then ''bool''
      else if name = ''STRING'' then ''string''
      else if name = ''INT'' then ''integer''
      else if name = ''INTEGER'' then ''integer''
      else if name = ''DOUBLE'' then ''double''
      else name)"

text \<open>The loop over the core tree: the first \<open>type\<close> node of that name.\<close>

definition tr_search :: "qt_lib \<Rightarrow> assoc_tree \<Rightarrow> string \<Rightarrow> assoc_tree option" where
  "tr_search Q core name =
     List.find (\<lambda>t. tree_name Q t = ''type'' \<and> qv_eq Q (tree_value Q t [''name'']) (VString name))
       (tree_nodes core)"

definition typeDefinitionForName ::
    "qt_lib \<Rightarrow> string \<Rightarrow> type_registry \<Rightarrow> assoc_tree \<times> type_registry" where
  "typeDefinitionForName Q name0 r =
     (let name = tr_newName name0 in
      case map_of (tr_typeCache r) name of
        Some t \<Rightarrow> (t, r)
      | None \<Rightarrow>
          (case tr_search Q (tr_coreTree r) name of
            Some t \<Rightarrow> (t, r\<lparr>tr_typeCache := amap_insert name t (tr_typeCache r)\<rparr>)
          | None \<Rightarrow> (VInvalid, r)))"

text \<open>The lookup without the cache.\<close>

definition type_def :: "qt_lib \<Rightarrow> assoc_tree \<Rightarrow> string \<Rightarrow> assoc_tree" where
  "type_def Q core name =
     (case tr_search Q core (tr_newName name) of None \<Rightarrow> VInvalid | Some t \<Rightarrow> t)"

definition tr_coherent :: "qt_lib \<Rightarrow> type_registry \<Rightarrow> bool" where
  "tr_coherent Q r =
     list_all (\<lambda>e. tr_search Q (tr_coreTree r) (fst e) = Some (snd e)) (tr_typeCache r)"

lemma tr_coherentD: "tr_coherent Q r \<Longrightarrow> map_of (tr_typeCache r) n = Some t \<Longrightarrow>
    tr_search Q (tr_coreTree r) n = Some t"
  by (force simp: tr_coherent_def list_all_iff dest: map_of_SomeD)

lemma amap_insert_all: "P (k, v) \<Longrightarrow> list_all P m \<Longrightarrow> list_all P (amap_insert k v m)"
  by (induction k v m rule: amap_insert.induct) auto

lemma tr_construct_coherent: "tr_construct file = Some r \<Longrightarrow> tr_coherent Q r"
  by (auto simp: tr_construct_def tr_coherent_def split: option.splits)

text \<open>A sequence of lookups against the live registry, threading the cache.\<close>

fun tr_lookups :: "qt_lib \<Rightarrow> string list \<Rightarrow> type_registry \<Rightarrow> assoc_tree list" where
  "tr_lookups Q [] r = []"
| "tr_lookups Q (n # ns) r =
     (case typeDefinitionForName Q n r of (t, r') \<Rightarrow> t # tr_lookups Q ns r')"

lemma typeDefinitionForName_step:
  assumes "tr_coherent Q r"
  shows "fst (typeDefinitionForName Q n r) = type_def Q (tr_coreTree r) n"
    and "tr_coherent Q (snd (typeDefinitionForName Q n r))"
    and "tr_coreTree (snd (typeDefinitionForName Q n r)) = tr_coreTree r"
proof -
  have c: "map_of (tr_typeCache r) n' = Some t \<Longrightarrow> tr_search Q (tr_coreTree r) n' = Some t" for n' t
    by (rule tr_coherentD [OF assms])
  show "fst (typeDefinitionForName Q n r) = type_def Q (tr_coreTree r) n"
    by (auto simp: typeDefinitionForName_def type_def_def Let_def dest: c split: option.splits)
  show "tr_coherent Q (snd (typeDefinitionForName Q n r))"
    using assms
    by (auto simp: typeDefinitionForName_def Let_def tr_coherent_def intro!: amap_insert_all
        split: option.splits)
  show "tr_coreTree (snd (typeDefinitionForName Q n r)) = tr_coreTree r"
    by (auto simp: typeDefinitionForName_def Let_def split: option.splits)
qed

text \<open>C26: the cache never changes an answer: started from a fresh registry, every lookup of
  any sequence of lookups returns exactly what a search of the core tree returns.\<close>

theorem type_cache_transparent:
  assumes "tr_construct file = Some r"
  shows "tr_lookups Q names r = map (type_def Q (tr_coreTree r)) names"
proof -
  have "tr_coherent Q r \<Longrightarrow> tr_lookups Q names r = map (type_def Q (tr_coreTree r)) names" for r
  proof (induction names arbitrary: r)
    case Nil
    then show ?case by simp
  next
    case (Cons n names)
    obtain t r' where step: "typeDefinitionForName Q n r = (t, r')" by fastforce
    with typeDefinitionForName_step [OF Cons.prems, of n] Cons.IH [of r'] show ?case
      by simp
  qed
  with assms show ?thesis by (simp add: tr_construct_coherent)
qed

lemma type_cache_transparent_witness:
  "tr_lookups qt_ref [''INT'', ''integer''] \<lparr>tr_coreTree = VInvalid, tr_typeCache = []\<rparr> = [VInvalid, VInvalid]"
proof -
  have "tr_construct None = Some \<lparr>tr_coreTree = VInvalid, tr_typeCache = []\<rparr>"
    by (simp add: tr_construct_def)
  from type_cache_transparent [OF this, of qt_ref "[''INT'', ''integer'']"] show ?thesis
    by (simp add: type_def_def tr_search_def tree_nodes_def)
qed

end
