(* ===== verification/Type_Info.thy ===== *)
theory Type_Info
  imports Type_Registry
begin

text \<open>
  \<open>ContextTypeInfo\<close> (contexttypeinfo.cpp): a type instance is an association tree whose
  name is the type and whose sub-trees are its parameters. Its definition is looked up in the
  type registry (\<open>core\<close> is the registry's tree; the cache is transparent by
  \<open>type_cache_transparent\<close>). \<open>typeCheck\<close> recurses through the base types, which the
  registry may chain arbitrarily, so the model takes fuel and returns \<open>None\<close> when it
  runs out; \<open>typeCheck_terminates\<close> bounds the fuel for registries without base cycles.
\<close>

type_synonym type_info = assoc_tree

section \<open>Accessors\<close>

definition ti_ensureNewTypes :: "qt_lib \<Rightarrow> type_info \<Rightarrow> type_info" where
  "ti_ensureNewTypes Q t =
     (let oldName = tree_name Q t in
      if oldName = ''TRUTH'' then VString ''bool''
      else if oldName = ''INT'' \<or> oldName = ''INTEGER'' then VString ''integer''
      else if oldName = ''STRING'' then VString ''string''
      else if oldName = ''DOUBLE'' then VString ''number''
      else t)"

definition ti_parameters :: "type_info \<Rightarrow> qvariant list" where
  "ti_parameters t = tree_nodes t"

definition ti_parameterValue :: "qt_lib \<Rightarrow> type_info \<Rightarrow> string \<Rightarrow> qvariant" where
  "ti_parameterValue Q t p = tree_value Q t [p]"

definition ti_parameterNode :: "qt_lib \<Rightarrow> type_info \<Rightarrow> string \<Rightarrow> assoc_tree" where
  "ti_parameterNode Q t p = tree_node Q t p"

definition ti_definition :: "qt_lib \<Rightarrow> assoc_tree \<Rightarrow> type_info \<Rightarrow> assoc_tree" where
  "ti_definition Q core t = type_def Q core (tree_name Q t)"

definition ti_base :: "qt_lib \<Rightarrow> assoc_tree \<Rightarrow> type_info \<Rightarrow> type_info" where
  "ti_base Q core t = tree_value Q (ti_definition Q core t) [''base'']"

definition ti_parameterDoc :: "qt_lib \<Rightarrow> assoc_tree \<Rightarrow> type_info \<Rightarrow> string \<Rightarrow> string" where
  "ti_parameterDoc Q core t p = qv_toString Q (tree_value Q (ti_definition Q core t) [''params'', p, ''doc''])"

definition ti_doc :: "qt_lib \<Rightarrow> assoc_tree \<Rightarrow> type_info \<Rightarrow> string" where
  "ti_doc Q core t = qv_toString Q (tree_value Q (ti_definition Q core t) [''doc''])"

definition ti_choiceDoc :: "qt_lib \<Rightarrow> type_info \<Rightarrow> string \<Rightarrow> string" where
  "ti_choiceDoc Q t choice = qv_toString Q (tree_value Q t [choice, ''doc''])"

definition ti_choices :: "qt_lib \<Rightarrow> type_info \<Rightarrow> string list" where
  "ti_choices Q t = map (tree_name Q) (ti_parameters t)"

definition ti_list_type :: "qt_lib \<Rightarrow> type_info \<Rightarrow> type_info" where
  "ti_list_type Q t = ti_parameterValue Q t ''type''"

fun ti_hasBase :: "qt_lib \<Rightarrow> assoc_tree \<Rightarrow> type_info \<Rightarrow> string \<Rightarrow> nat \<Rightarrow> bool" where
  "ti_hasBase Q core t wanted depth =
     (if tree_name Q t = wanted then True
      else if qv_eq Q (ti_base Q core t) VInvalid then False
      else case depth of 0 \<Rightarrow> False | Suc d \<Rightarrow> ti_hasBase Q core (ti_base Q core t) wanted d)"

fun ti_getBase :: "qt_lib \<Rightarrow> assoc_tree \<Rightarrow> type_info \<Rightarrow> string \<Rightarrow> nat \<Rightarrow> type_info" where
  "ti_getBase Q core t wanted depth =
     (if tree_name Q t = wanted then t
      else if qv_eq Q (ti_base Q core t) VInvalid then VInvalid
      else case depth of 0 \<Rightarrow> VInvalid | Suc d \<Rightarrow> ti_getBase Q core (ti_base Q core t) wanted d)"

declare ti_hasBase.simps [simp del] ti_getBase.simps [simp del]

section \<open>typeCheck\<close>

text \<open>The base type with the instance's own parameters put over its default ones.\<close>

definition ti_combine :: "qt_lib \<Rightarrow> type_info \<Rightarrow> qvariant list \<Rightarrow> type_info" where
  "ti_combine Q base ps =
     fold (\<lambda>p b. VList (qv_toList (tree_filterOut Q b (tree_name Q p)) @ [p])) ps
       (if qv_type base \<noteq> TList then VList [qs_variant (tree_nameq Q base)] else base)"

text \<open>The loop over elements stops at the first that fails; fuel exhaustion stops it too.\<close>

fun all_checks :: "bool option list \<Rightarrow> bool option" where
  "all_checks [] = Some True"
| "all_checks (r # rs) = (case r of None \<Rightarrow> None | Some False \<Rightarrow> Some False | Some True \<Rightarrow> all_checks rs)"

definition ti_allowedKeys :: "qt_lib \<Rightarrow> qvariant list \<Rightarrow> (string \<times> type_info) list" where
  "ti_allowedKeys Q ps =
     fold (\<lambda>k m. if tree_name Q k = ''allow-other-keys'' then m
                 else amap_insert (tree_name Q k) (ti_parameterValue Q k ''type'') m) ps []"

definition ti_othersAllowed :: "qt_lib \<Rightarrow> qvariant list \<Rightarrow> bool" where
  "ti_othersAllowed Q ps = list_ex (\<lambda>k. tree_name Q k = ''allow-other-keys'') ps"

definition ti_check_number :: "qt_lib \<Rightarrow> type_info \<Rightarrow> qvariant \<Rightarrow> bool" where
  "ti_check_number Q t value =
     (if \<not> qv_canDouble value then False
      else let min = ti_parameterValue Q t ''min''; max = ti_parameterValue Q t ''max'';
               v = qv_toDouble Q value
           in if \<not> qv_isNull min \<and> dbl_lt v (qv_toDouble Q min) then False
              else if \<not> qv_isNull max \<and> dbl_lt (qv_toDouble Q max) v then False
              else True)"

definition ti_check_list ::
    "qt_lib \<Rightarrow> (type_info \<Rightarrow> qvariant \<Rightarrow> bool option) \<Rightarrow> type_info \<Rightarrow> qvariant \<Rightarrow> bool option" where
  "ti_check_list Q rec t value =
     (if qv_type value \<noteq> TList then Some False
      else let minlen = ti_parameterValue Q t ''min''; maxlen = ti_parameterValue Q t ''max'';
               eltype = ti_parameterValue Q t ''type''; vl = qv_toList value
           in if \<not> qv_isNull minlen \<and> int (length vl) < sint (qv_toInt Q minlen) then Some False
              else if \<not> qv_isNull maxlen \<and> int (length vl) > sint (qv_toInt Q maxlen) then Some False
              else if \<not> qv_isNull eltype then all_checks (map (rec eltype) vl)
              else Some True)"

definition ti_check_map ::
    "qt_lib \<Rightarrow> (type_info \<Rightarrow> qvariant \<Rightarrow> bool option) \<Rightarrow> type_info \<Rightarrow> qvariant \<Rightarrow> bool option" where
  "ti_check_map Q rec t value =
     (if qv_type value \<noteq> TMap then Some False
      else let allowed = ti_allowedKeys Q (ti_parameters t);
               others = ti_othersAllowed Q (ti_parameters t)
           in if allowed = [] then Some True
              else all_checks (map (\<lambda>(k, v).
                (case map_of allowed k of
                   Some kt \<Rightarrow> (if qv_isNull kt then Some True else rec kt v)
                 | None \<Rightarrow> Some others)) (qv_toMap value)))"

definition ti_check_hardwired ::
    "qt_lib \<Rightarrow> (type_info \<Rightarrow> qvariant \<Rightarrow> bool option) \<Rightarrow> type_info \<Rightarrow> qvariant \<Rightarrow> bool option" where
  "ti_check_hardwired Q rec t value =
     (let me = tree_name Q t; vtype = qv_type value in
      if me = ''value'' then Some True
      else if me = ''bool'' then Some (vtype = TBool)
      else if me = ''number'' then Some (ti_check_number Q t value)
      else if me = ''integer'' then
        Some (vtype = TInt \<or> vtype = TUInt \<or> vtype = TLongLong \<or> vtype = TULongLong)
      else if me = ''string'' then Some (vtype = TString)
      else if me = ''list'' then ti_check_list Q rec t value
      else if me = ''map'' then ti_check_map Q rec t value
      else if me = ''string-enum'' then
        Some (qv_toString Q value \<in> set (map (tree_name Q) (ti_parameters t)))
      else if me = ''int-enum'' then
        Some (qv_toInt Q value \<in>
          set (map (\<lambda>e. qv_toInt Q (tree_value Q e [''value''])) (ti_parameters t)))
      else Some True)"

fun ti_typeCheck :: "qt_lib \<Rightarrow> assoc_tree \<Rightarrow> nat \<Rightarrow> type_info \<Rightarrow> qvariant \<Rightarrow> bool option" where
  "ti_typeCheck Q core 0 t value = None"
| "ti_typeCheck Q core (Suc fuel) t value =
     (let base = ti_base Q core t;
          inherited = (if qv_isNull base then Some True
                       else ti_typeCheck Q core fuel (ti_combine Q base (ti_parameters t)) value)
      in case inherited of
           None \<Rightarrow> None
         | Some False \<Rightarrow> Some False
         | Some True \<Rightarrow> ti_check_hardwired Q (ti_typeCheck Q core fuel) t value)"

section \<open>Lemmas\<close>

lemma tree_nameq_VList [simp]: "tree_nameq Q (VList (qs_variant q # xs)) = q"
  by (cases q) (simp_all add: tree_nameq_def qs_variant_def)

lemma tree_nameq_string [simp]: "tree_nameq Q (VString s) = Some s"
  "tree_nameq Q (VList (VString s # xs)) = Some s"
  by (simp_all add: tree_nameq_def)

lemma tree_name_string [simp]: "tree_name Q (VString s) = s"
  "tree_name Q (VList (VString s # xs)) = s"
  by (simp_all add: tree_name_def qs_str_def)

lemma filterOut_VList: "qv_type b = TList \<Longrightarrow> \<exists>xs. tree_filterOut Q b n = VList (qs_variant (tree_nameq Q b) # xs)"
  by (simp add: tree_filterOut_def)

lemma tree_nameq_combine: "tree_nameq Q (ti_combine Q base ps) = tree_nameq Q base"
proof -
  have "qv_type b = TList \<Longrightarrow>
      tree_nameq Q (fold (\<lambda>p b. VList (qv_toList (tree_filterOut Q b (tree_name Q p)) @ [p])) ps b) =
      tree_nameq Q b" for b
  proof (induction ps arbitrary: b)
    case Nil
    then show ?case by simp
  next
    case (Cons p ps)
    from filterOut_VList [OF Cons.prems] obtain xs where
      "tree_filterOut Q b (tree_name Q p) = VList (qs_variant (tree_nameq Q b) # xs)" by blast
    then show ?case using Cons.IH by simp
  qed
  then show ?thesis by (simp add: ti_combine_def)
qed

lemma tree_name_combine [simp]: "tree_name Q (ti_combine Q base ps) = tree_name Q base"
  by (simp add: tree_name_def tree_nameq_combine)

lemma size_elem: "x \<in> set xs \<Longrightarrow> size x < size (VList xs)"
  by (simp add: less_Suc_eq_le size_list_estimation')

lemma size_entry:
  assumes "(k, x) \<in> set m"
  shows "size x < size (VMap m)"
proof -
  have "size x \<le> size_prod (\<lambda>_. 0) size (k, x)" by simp
  also have "\<dots> \<le> size_list (size_prod (\<lambda>_. 0) size) m"
    using assms by (rule size_list_estimation') simp
  finally show ?thesis by simp
qed

lemma qv_toList_elem: "qv_type v = TList \<Longrightarrow> x \<in> set (qv_toList v) \<Longrightarrow> size x < size v"
  by (cases v) (auto dest: size_elem)

lemma qv_toMap_entry: "qv_type v = TMap \<Longrightarrow> (k, x) \<in> set (qv_toMap v) \<Longrightarrow> size x < size v"
  by (cases v) (auto dest: size_entry)

lemma all_checks_total: "(\<And>r. r \<in> set rs \<Longrightarrow> \<exists>b. r = Some b) \<Longrightarrow> \<exists>b. all_checks rs = Some b"
  by (induction rs) (fastforce split: option.splits bool.splits)+

lemma all_checks_True_iff: "all_checks rs = Some True \<longleftrightarrow> (\<forall>r \<in> set rs. r = Some True)"
  by (induction rs) (auto split: option.splits bool.splits)

lemma ti_check_hardwired_total:
  assumes "\<And>kt x. size x < size value \<Longrightarrow> \<exists>b. rec kt x = Some b"
  shows "\<exists>b. ti_check_hardwired Q rec t value = Some b"
proof -
  have "\<exists>b. ti_check_list Q rec t value = Some b"
    unfolding ti_check_list_def Let_def
    by (auto intro!: all_checks_total assms dest: qv_toList_elem)
  moreover have "\<exists>b. ti_check_map Q rec t value = Some b"
  proof (cases "qv_type value = TMap")
    case True
    have rec: "\<exists>b. rec kt x = Some b" if "(k, x) \<in> set (qv_toMap value)" for k kt x
      using assms qv_toMap_entry [OF True that] by blast
    have "\<exists>b. all_checks (map (\<lambda>(k, v).
        (case map_of (ti_allowedKeys Q (ti_parameters t)) k of
           Some kt \<Rightarrow> (if qv_isNull kt then Some True else rec kt v)
         | None \<Rightarrow> Some (ti_othersAllowed Q (ti_parameters t)))) (qv_toMap value)) = Some b"
      by (rule all_checks_total) (use rec in \<open>auto split: option.split\<close>)
    with True show ?thesis by (auto simp: ti_check_map_def Let_def intro: exI [of _ True])
  qed (auto simp: ti_check_map_def intro: exI [of _ False])
  ultimately show ?thesis by (auto simp: ti_check_hardwired_def Let_def intro: exI [of _ True])
qed

text \<open>
  A registry whose base chains end: some rank of the type names goes down from each type to
  its base, and is at most \<open>R\<close>.
\<close>

definition base_ranked :: "qt_lib \<Rightarrow> assoc_tree \<Rightarrow> (string \<Rightarrow> nat) \<Rightarrow> nat \<Rightarrow> bool" where
  "base_ranked Q core rk R =
     ((\<forall>t. \<not> qv_isNull (ti_base Q core t) \<longrightarrow> rk (tree_name Q (ti_base Q core t)) < rk (tree_name Q t)) \<and>
      (\<forall>n. rk n \<le> R))"

lemma ti_typeCheck_total:
  "base_ranked Q core rk R \<Longrightarrow> size v * Suc R + rk (tree_name Q t) < fuel \<Longrightarrow>
     \<exists>b. ti_typeCheck Q core fuel t v = Some b"
proof (induction fuel arbitrary: t v)
  case 0
  then show ?case by simp
next
  case (Suc fuel)
  let ?base = "ti_base Q core t" and ?c = "ti_combine Q (ti_base Q core t) (ti_parameters t)"
  have "\<exists>b. ti_check_hardwired Q (ti_typeCheck Q core fuel) t v = Some b"
  proof (rule ti_check_hardwired_total)
    fix kt and x :: qvariant assume "size x < size v"
    then have "Suc (size x) * Suc R \<le> size v * Suc R" by (intro mult_le_mono1) simp
    moreover have "rk (tree_name Q kt) \<le> R" using Suc.prems(1) by (simp add: base_ranked_def)
    ultimately have "size x * Suc R + rk (tree_name Q kt) < fuel" using Suc.prems(2) by simp
    with Suc.IH [OF Suc.prems(1)] show "\<exists>b. ti_typeCheck Q core fuel kt x = Some b" by blast
  qed
  moreover have "\<not> qv_isNull ?base \<Longrightarrow> \<exists>b. ti_typeCheck Q core fuel ?c v = Some b"
    using Suc.prems by (intro Suc.IH) (auto simp: base_ranked_def)
  ultimately show ?case by (fastforce simp: Let_def split: bool.splits)
qed

lemma all_checks_mono:
  "all_checks (map f xs) = Some b \<Longrightarrow> (\<And>x c. x \<in> set xs \<Longrightarrow> f x = Some c \<Longrightarrow> g x = Some c) \<Longrightarrow>
     all_checks (map g xs) = Some b"
proof (induction xs)
  case (Cons x xs)
  then obtain c where c: "f x = Some c" by (auto split: option.splits)
  with Cons.prems(2) have "g x = Some c" by simp
  with c Cons show ?case by (auto split: bool.splits)
qed simp

lemma ti_check_hardwired_mono:
  assumes "ti_check_hardwired Q f t v = Some b"
    and "\<And>kt x c. f kt x = Some c \<Longrightarrow> g kt x = Some c"
  shows "ti_check_hardwired Q g t v = Some b"
proof -
  have "ti_check_list Q f t v = Some c \<Longrightarrow> ti_check_list Q g t v = Some c" for c
    unfolding ti_check_list_def Let_def
    by (auto split: if_splits intro: all_checks_mono assms(2))
  moreover have "ti_check_map Q f t v = Some c \<Longrightarrow> ti_check_map Q g t v = Some c" for c
    unfolding ti_check_map_def Let_def
    by (auto split: if_splits option.splits intro!: assms(2) elim!: all_checks_mono)
  ultimately show ?thesis using assms(1)
    by (auto simp: ti_check_hardwired_def Let_def split: if_splits)
qed

lemma ti_typeCheck_Suc:
  "ti_typeCheck Q core fuel t v = Some b \<Longrightarrow> ti_typeCheck Q core (Suc fuel) t v = Some b"
proof (induction fuel arbitrary: t v b)
  case 0
  then show ?case by simp
next
  case (Suc fuel)
  let ?base = "ti_base Q core t"
  let ?inh = "\<lambda>f. if qv_isNull ?base then Some True
      else ti_typeCheck Q core f (ti_combine Q ?base (ti_parameters t)) v"
  from Suc.prems obtain c where c: "?inh fuel = Some c"
    and rest: "(case c of False \<Rightarrow> Some False
       | True \<Rightarrow> ti_check_hardwired Q (ti_typeCheck Q core fuel) t v) = Some b"
    by (auto simp: Let_def split: option.splits if_splits)
  have "?inh (Suc fuel) = Some c" using c Suc.IH by (auto split: if_splits)
  moreover have "(case c of False \<Rightarrow> Some False
       | True \<Rightarrow> ti_check_hardwired Q (ti_typeCheck Q core (Suc fuel)) t v) = Some b"
    using rest Suc.IH by (auto split: bool.splits intro: ti_check_hardwired_mono)
  ultimately show ?case
    by (simp only: ti_typeCheck.simps(2) [of Q core "Suc fuel"] Let_def option.case)
qed

lemma ti_typeCheck_mono:
  "ti_typeCheck Q core fuel t v = Some b \<Longrightarrow> fuel \<le> fuel' \<Longrightarrow>
     ti_typeCheck Q core fuel' t v = Some b"
proof -
  assume r: "ti_typeCheck Q core fuel t v = Some b" and le: "fuel \<le> fuel'"
  from le show ?thesis
  proof (induction fuel' rule: dec_induct)
    case base
    show ?case by (rule r)
  next
    case (step n)
    then show ?case by (intro ti_typeCheck_Suc)
  qed
qed


section \<open>Properties\<close>

text \<open>C25: checking a value against a type terminates in every registry whose base chains
  end: fuel above the size of the value times the length of the longest chain gives a verdict.\<close>

theorem typeCheck_terminates:
  assumes "base_ranked Q core rk R" and "size v * Suc R + rk (tree_name Q t) < fuel"
  shows "\<exists>b. \<forall>f \<ge> fuel. ti_typeCheck Q core f t v = Some b"
  using ti_typeCheck_total [OF assms] by (blast intro: ti_typeCheck_mono)

text \<open>An excerpt of the shipped core types: value, number and integer with their bases.\<close>

definition core_sample :: assoc_tree where
  "core_sample = VList [VString ''types'',
     VList [VString ''type'', VList [VString ''name'', VString ''value'']],
     VList [VString ''type'', VList [VString ''name'', VString ''number''],
            VList [VString ''base'', VString ''value'']],
     VList [VString ''type'', VList [VString ''name'', VString ''integer''],
            VList [VString ''base'', VString ''number'']],
     VList [VString ''type'', VList [VString ''name'', VString ''percentage''],
            VList [VString ''base'', VList [VString ''integer'', VList [VString ''min'', VString ''0''],
              VList [VString ''max'', VString ''100'']]]]]"

lemmas tree_eval = tree_value_def tree_value0_def tree_node_path_def tree_node_def tree_nodes_def tagged_def

lemma type_def_sample:
  "type_def Q core_sample n =
     (let n' = tr_newName n in
      if n' = ''value'' then qv_toList core_sample ! 1
      else if n' = ''number'' then qv_toList core_sample ! 2
      else if n' = ''integer'' then qv_toList core_sample ! 3
      else if n' = ''percentage'' then qv_toList core_sample ! 4 else VInvalid)"
  by (simp add: type_def_def tr_search_def core_sample_def tree_eval Let_def eq_commute)

lemma ti_base_sample:
  "ti_base Q core_sample t =
     (let n' = tr_newName (tree_name Q t) in
      if n' = ''number'' then VString ''value''
      else if n' = ''integer'' then VString ''number''
      else if n' = ''percentage'' then VList [VString ''integer'', VList [VString ''min'', VString ''0''],
              VList [VString ''max'', VString ''100'']]
      else VInvalid)"
  by (simp add: ti_base_def ti_definition_def type_def_sample Let_def)
    (simp add: core_sample_def tree_eval)

definition sample_rank :: "string \<Rightarrow> nat" where
  "sample_rank n = (let n' = tr_newName n in
     if n' = ''percentage'' then 3 else if n' = ''integer'' then 2 else if n' = ''number'' then 1 else 0)"

lemma base_ranked_sample: "base_ranked Q core_sample sample_rank 3"
  by (simp add: base_ranked_def ti_base_sample sample_rank_def Let_def tr_newName_def)

lemma typeCheck_terminates_witness:
  "\<exists>b. \<forall>f \<ge> 20. ti_typeCheck qt_ref core_sample f (VString ''percentage'') (VInt 50) = Some b"
  by (rule typeCheck_terminates [OF base_ranked_sample]) (simp add: sample_rank_def tr_newName_def)

text \<open>
  A registry in which integer is based on number and number on value, which has no base.
\<close>

definition integer_registry :: "qt_lib \<Rightarrow> assoc_tree \<Rightarrow> bool" where
  "integer_registry Q core =
     (tree_value Q (type_def Q core ''integer'') [''base''] = VString ''number'' \<and>
      tree_value Q (type_def Q core ''number'') [''base''] = VString ''value'' \<and>
      qv_isNull (tree_value Q (type_def Q core ''value'') [''base'']))"

lemma integer_registry_sample: "integer_registry Q core_sample"
  by (simp add: integer_registry_def type_def_sample tr_newName_def)
    (simp add: core_sample_def tree_eval)

lemma ti_base_integer:
  "integer_registry Q core \<Longrightarrow> tree_name Q t = ''integer'' \<Longrightarrow> ti_base Q core t = VString ''number''"
  "integer_registry Q core \<Longrightarrow> tree_name Q t = ''number'' \<Longrightarrow> ti_base Q core t = VString ''value''"
  "integer_registry Q core \<Longrightarrow> tree_name Q t = ''value'' \<Longrightarrow> qv_isNull (ti_base Q core t)"
  by (simp_all add: ti_base_def ti_definition_def integer_registry_def)

definition is_integer_type :: "vtype \<Rightarrow> bool" where
  "is_integer_type t = (t = TInt \<or> t = TUInt \<or> t = TLongLong \<or> t = TULongLong)"

definition bounded_type :: "string \<Rightarrow> qvariant \<Rightarrow> qvariant \<Rightarrow> type_info" where
  "bounded_type n mn mx = VList [VString n, VList [VString ''min'', mn], VList [VString ''max'', mx]]"

lemma combine_bounded:
  "ti_combine Q (VString n) (ti_parameters (bounded_type m mn mx)) = bounded_type n mn mx"
  by (simp add: ti_combine_def ti_parameters_def bounded_type_def tree_nodes_def tree_filterOut_def
      qs_variant_def tagged_def)

lemma bounded_parameter:
  "ti_parameterValue Q (bounded_type n mn mx) ''min'' = mn"
  "ti_parameterValue Q (bounded_type n mn mx) ''max'' = mx"
  "tree_name Q (bounded_type n mn mx) = n"
  by (simp_all add: ti_parameterValue_def bounded_type_def tree_eval)

lemma ti_typeCheck_value:
  "integer_registry Q core \<Longrightarrow> tree_name Q t = ''value'' \<Longrightarrow> ti_typeCheck Q core (Suc f) t v = Some True"
  by (simp add: ti_base_integer ti_check_hardwired_def Let_def)

lemma ti_typeCheck_number:
  "integer_registry Q core \<Longrightarrow> tree_name Q t = ''number'' \<Longrightarrow>
     ti_typeCheck Q core (Suc (Suc f)) t v = Some (ti_check_number Q t v)"
  using ti_typeCheck_value [of Q core "ti_combine Q (VString ''value'') (ti_parameters t)" f v]
  by (simp add: ti_base_integer(2) ti_check_hardwired_def Let_def del: ti_typeCheck.simps
      add: ti_typeCheck.simps(2) [of Q core "Suc f" t v])

lemma bounded_verdict:
  assumes "integer_registry Q core" and "\<not> qv_isNull mn" and "\<not> qv_isNull mx"
  shows "ti_typeCheck Q core (Suc (Suc (Suc f))) (bounded_type ''integer'' mn mx) v =
    Some (is_integer_type (qv_type v) \<and> \<not> dbl_lt (qv_toDouble Q v) (qv_toDouble Q mn) \<and>
          \<not> dbl_lt (qv_toDouble Q mx) (qv_toDouble Q v))"
proof -
  have "ti_typeCheck Q core (Suc (Suc f)) (bounded_type ''number'' mn mx) v =
      Some (qv_canDouble v \<and> \<not> dbl_lt (qv_toDouble Q v) (qv_toDouble Q mn) \<and>
          \<not> dbl_lt (qv_toDouble Q mx) (qv_toDouble Q v))"
    using ti_typeCheck_number [OF assms(1), of "bounded_type ''number'' mn mx" f v] assms(2,3)
    by (simp add: bounded_parameter ti_check_number_def Let_def del: ti_typeCheck.simps)
  moreover have "is_integer_type (qv_type v) \<Longrightarrow> qv_canDouble v"
    by (auto simp: is_integer_type_def qv_canDouble_def)
  ultimately show ?thesis
    using ti_base_integer(1) [OF assms(1), of "bounded_type ''integer'' mn mx"]
    by (auto simp: ti_typeCheck.simps(2) [of Q core "Suc (Suc f)"] combine_bounded bounded_parameter
        ti_check_hardwired_def is_integer_type_def Let_def simp del: ti_typeCheck.simps split: bool.split)
qed

text \<open>The bounds of an integer type are checked by its base type number, to which the
  parameters are handed down: a value is accepted exactly when it has one of the four integer
  types and lies between the bounds.\<close>

lemma integer_typeCheck:
  assumes "integer_registry Q core" and "\<not> qv_isNull mn" and "\<not> qv_isNull mx"
  shows "ti_typeCheck Q core (Suc (Suc (Suc f))) (bounded_type ''integer'' mn mx) v =
    Some (is_integer_type (qv_type v) \<and> \<not> dbl_lt (qv_toDouble Q v) (qv_toDouble Q mn) \<and>
          \<not> dbl_lt (qv_toDouble Q mx) (qv_toDouble Q v))"
  by (rule bounded_verdict [OF assms])

lemma integer_typeCheck_witness:
  "ti_typeCheck qt_ref core_sample 3 (bounded_type ''integer'' (VString ''0'') (VString ''100'')) (VInt 50) =
     Some (is_integer_type (qv_type (VInt 50)) \<and>
           \<not> dbl_lt (qv_toDouble qt_ref (VInt 50)) (qv_toDouble qt_ref (VString ''0'')) \<and>
           \<not> dbl_lt (qv_toDouble qt_ref (VString ''100'')) (qv_toDouble qt_ref (VInt 50)))"
  using integer_typeCheck [OF integer_registry_sample, where mn = "VString ''0''" and
      mx = "VString ''100''" and f = 0 and v = "VInt 50"]
  by (simp add: numeral_eq_Suc del: ti_typeCheck.simps)

text \<open>The number type accepts every string, numeral or not: the code asks Qt whether the
  value's type could convert to a double, which holds for all strings, while the type's
  documentation allows only the numeric representations.\<close>

lemma number_accepts_any_string:
  assumes "integer_registry Q core"
  shows "ti_typeCheck Q core (Suc (Suc f)) (VString ''number'') (VString s) = Some True"
  using ti_typeCheck_number [OF assms, of "VString ''number''" f "VString s"]
  by (simp add: ti_check_number_def qv_canDouble_def ti_parameterValue_def tree_eval del: ti_typeCheck.simps)

lemma number_accepts_any_string_witness:
  "ti_typeCheck qt_ref core_sample (Suc (Suc 0)) (VString ''number'') (VString ''banana'') = Some True"
  by (rule number_accepts_any_string [OF integer_registry_sample])

text \<open>The two tables of old type names agree except for DOUBLE: \<open>ensureNewTypes\<close>
  turns it into number, the registry lookup into double, a name the core types do not define.\<close>

lemma old_names_resolve:
  "(\<forall>n \<in> {''TRUTH'', ''INT'', ''INTEGER'', ''STRING''}.
      ti_definition Q core (ti_ensureNewTypes Q (VString n)) = ti_definition Q core (VString n)) \<and>
   ti_definition Q core (ti_ensureNewTypes Q (VString ''DOUBLE'')) = type_def Q core ''number'' \<and>
   ti_definition Q core (VString ''DOUBLE'') = type_def Q core ''double''"
  by (simp add: ti_definition_def ti_ensureNewTypes_def type_def_def tr_newName_def Let_def)

lemma old_names_resolve_witness:
  "ti_definition qt_ref core_sample (VString ''DOUBLE'') = VInvalid"
proof -
  have "ti_definition qt_ref core_sample (VString ''DOUBLE'') = type_def qt_ref core_sample ''double''"
    using old_names_resolve [of qt_ref core_sample] by simp
  then show ?thesis by (simp add: type_def_sample tr_newName_def)
qed

text \<open>C32: \<open>getBase\<close> and \<open>hasBase\<close> agree: where \<open>hasBase\<close> says yes, \<open>getBase\<close>
  returns a type of the wanted name, and where it says no, the null type.\<close>

lemma getBase_hasBase:
  "(ti_hasBase Q core t wanted depth \<longrightarrow> tree_name Q (ti_getBase Q core t wanted depth) = wanted) \<and>
   (\<not> ti_hasBase Q core t wanted depth \<longrightarrow> ti_getBase Q core t wanted depth = VInvalid)"
proof (induction depth arbitrary: t)
  case 0
  then show ?case by (simp add: ti_hasBase.simps [of Q core t] ti_getBase.simps [of Q core t])
next
  case (Suc depth)
  then show ?case by (simp add: ti_hasBase.simps [of Q core t] ti_getBase.simps [of Q core t])
qed

lemma getBase_hasBase_witness:
  "tree_name qt_ref (ti_getBase qt_ref core_sample (VString ''percentage'') ''number'' 10) = ''number''"
proof -
  have "ti_hasBase qt_ref core_sample (VString ''percentage'') ''number'' 10"
    by (simp add: ti_hasBase.simps ti_base_sample Let_def tr_newName_def qv_other_eq_def qt_ref_def
        numeral_eq_Suc)
  with getBase_hasBase [of qt_ref core_sample "VString ''percentage''" "''number''" 10] show ?thesis
    by simp
qed

end
