(* ===== verification/Typed_Values.thy ===== *)
theory Typed_Values
  imports Property_System Type_Info
begin

text \<open>
  The type check of \<open>PropertyHandle::onValueChanged\<close> seen from the application: with the
  check switched on, as the tools do at start-up, no property ever has a value that its type
  rejects. The check is the one of \<open>ContextTypeInfo\<close>; the types of the keys are those of
  the registry, a parameter that the run leaves unchanged.
\<close>

definition typed :: "sys_env \<Rightarrow> sys \<Rightarrow> bool" where
  "typed E sy = (typeCheckEnabled sy \<and>
     (\<forall>k. qv_isNull (myValue (sy_handle k sy)) \<or> en_typeOk E k (myValue (sy_handle k sy))))"

lemma typedI: "typeCheckEnabled sy' = typeCheckEnabled sy \<Longrightarrow>
    (\<And>k. myValue (sy_handle k sy') = myValue (sy_handle k sy)) \<Longrightarrow> typed E sy' = typed E sy"
  by (simp add: typed_def)

lemma typed_put [simp]: "typed E (sy_put i p sy) = typed E sy"
  by (rule typedI) simp_all

lemma typed_instances [simp]: "typed E (fold sy_instance is sy) = typed E sy"
proof (induction "is" arbitrary: sy)
  case (Cons i "is")
  have "typed E (sy_instance i sy) = typed E sy" by (rule typedI) (simp_all add: sy_instance_def sy_handle_def)
  then show ?case using Cons by simp
qed simp

lemma typed_put_handle:
  "typed E sy \<Longrightarrow> qv_isNull (myValue h) \<or> en_typeOk E k (myValue h) \<Longrightarrow> typed E (sy_put_handle k h sy)"
  by (simp add: typed_def) (simp add: sy_put_handle_def)

lemma typed_same_value: "typed E sy \<Longrightarrow> myValue h = myValue (sy_handle k sy) \<Longrightarrow> typed E (sy_put_handle k h sy)"
  by (rule typed_put_handle) (simp_all add: typed_def)

lemma typed_props: "typed E (sy\<lparr>sy_props := ps\<rparr>) = typed E sy"
  and typed_listener: "typed E (sy\<lparr>commanderListener := l\<rparr>) = typed E sy"
  and typed_registry: "typed E (sy\<lparr>sy_registry := r\<rparr>) = typed E sy"
  and typed_commanding: "typed E (sy\<lparr>commandingEnabled := b\<rparr>) = typed E sy"
  by (rule typedI; simp add: sy_handle_def)+

lemmas typed_frame [simp] = typed_props typed_listener typed_registry typed_commanding

lemma typed_unsubscribeAll [simp]: "typed E (h_unsubscribeAll k is sy) = typed E sy"
  by (induction "is" arbitrary: sy) simp_all

lemma typed_subscribeAll: "typed E sy \<Longrightarrow> typed E (fst (h_subscribeAll k is pend sy))"
  by (induction "is" arbitrary: sy pend) (simp_all add: case_prod_unfold)

section \<open>Every operation keeps the values typed\<close>

lemma typed_onValueChanged: "typed E sy \<Longrightarrow> typed E (fst (h_onValueChanged E k sy))"
  by (auto simp: h_onValueChanged_def Let_def intro: typed_put_handle) (auto simp: typed_def)

lemma subscribeAll_handle: "sy_handle l (fst (h_subscribeAll k is pend sy)) = sy_handle l sy"
  by (induction "is" arbitrary: sy pend) (simp_all add: case_prod_unfold)

lemma typed_updateProvider: "typed E sy \<Longrightarrow> typed E (fst (updateProvider E k sy))"
  unfolding updateProvider_def Let_def case_prod_unfold
  by (auto simp del: h_subscribeAll.simps simp: typed_subscribeAll subscribeAll_handle
      intro!: typed_onValueChanged typed_same_value)

lemma typed_updateAll: "typed E sy \<Longrightarrow> typed E (fst (sy_updateAll E ks sy))"
  by (induction ks arbitrary: sy) (auto simp: case_prod_unfold typed_updateProvider)

lemma typed_on_listener: "typed E sy \<Longrightarrow> typed E (fst (sy_on_listener E os sy))"
  by (induction os arbitrary: sy) (auto simp: case_prod_unfold typed_updateAll split: nl_out.split)

lemma typed_listener_event: "typed E sy \<Longrightarrow> typed E (fst (sy_listener_event E e sy))"
  by (simp add: sy_listener_event_def case_prod_unfold typed_on_listener)

lemma typed_instance: "typed E sy \<Longrightarrow> typed E (fst (handle_instance E k sy))"
proof -
  assume t: "typed E sy"
  have "typed E (sy_put_handle k (handle_new b) (sy\<lparr>commandingEnabled := b\<rparr>))" for b
    by (rule typed_put_handle) (simp_all add: t handle_new_def)
  then show ?thesis using t
    by (simp add: handle_instance_def handle_construct_def Let_def case_prod_unfold typed_updateProvider
        typed_listener_event)
qed

lemma typed_route: "typed E sy \<Longrightarrow> typed E (fst (sy_route E i os sy))"
proof (induction os arbitrary: sy)
  case (Cons x xs)
  have "typed E (fst (router_onSubscribeFinished E i k sy))" for k
    using typed_instance [OF Cons.prems, of k]
    by (auto simp: router_onSubscribeFinished_def case_prod_unfold setSubscribeFinished_def Let_def
        intro: typed_same_value)
  moreover have "typed E (fst (router_onValueChanged E k sy))" for k
    using typed_instance [OF Cons.prems, of k]
    by (simp add: router_onValueChanged_def case_prod_unfold typed_onValueChanged)
  ultimately show ?case using Cons by (auto simp: case_prod_unfold split: provider_out.split)
qed simp

lemma typed_provider_op: "typed E sy \<Longrightarrow> typed E (fst (sy_provider_op E i f sy))"
  by (simp add: sy_provider_op_def case_prod_unfold typed_route)

lemma typed_blockAll: "typed E sy \<Longrightarrow> typed E (fst (h_blockAll E react k is sy))"
  by (induction "is" arbitrary: sy) (simp_all add: case_prod_unfold typed_provider_op)

lemma typed_subscribe: "typed E sy \<Longrightarrow> typed E (cp_subscribe n sy)"
  by (auto simp: cp_subscribe_def h_subscribe_def cp_put_def Let_def case_prod_unfold subscribeAll_handle
      typed_subscribeAll intro: typed_same_value)

lemma typed_unsubscribe: "typed E sy \<Longrightarrow> typed E (cp_unsubscribe n sy)"
  by (auto simp: cp_unsubscribe_def h_unsubscribe_def cp_put_def Let_def intro: typed_same_value)

lemma typed_step: "typed E sy \<Longrightarrow> e \<noteq> SYTypeCheck False \<Longrightarrow> typed E (fst (sy_step E e sy))"
proof (cases e)
  case (SYTypeCheck b)
  assume "typed E sy" "e \<noteq> SYTypeCheck False"
  then show ?thesis using SYTypeCheck by (simp add: setTypeCheck_def typed_def sy_handle_def)
qed (auto simp: cp_new_def case_prod_unfold typed_instance typed_subscribe typed_unsubscribe cp_onValueChanged_def
    cp_put_def Let_def cp_waitBlocking_def h_blockUntilSubscribed_def typed_blockAll typed_provider_op
    typed_listener_event typed_updateProvider ignoreCommander_def split: nl_event.split)

lemma typed_start: "typed E (setTypeCheck True (sys_new registry))"
  by (simp add: typed_def setTypeCheck_def sys_new_def sy_handle_def handle_new_def)

lemma typed_run: "SYTypeCheck False \<notin> set es \<Longrightarrow> typed E sy \<Longrightarrow> typed E (fst (ev_run (sy_step E) es sy))"
  by (induction es arbitrary: sy) (auto simp: case_prod_unfold typed_step)

lemma bounded_check:
  assumes "integer_registry Q core" and "\<not> qv_isNull mn" and "\<not> qv_isNull mx"
    and "ti_typeCheck Q core (Suc (Suc (Suc f))) (bounded_type ''integer'' mn mx) v = Some True"
  shows "is_integer_type (qv_type v) \<and> \<not> dbl_lt (qv_toDouble Q v) (qv_toDouble Q mn) \<and>
    \<not> dbl_lt (qv_toDouble Q mx) (qv_toDouble Q v)"
  using assms(4) unfolding bounded_verdict [OF assms(1-3)] by simp


definition typed_env :: sys_env where
  "typed_env = sample_env\<lparr>en_typeOk := (\<lambda>k v.
     ti_typeCheck qt_ref core_sample (Suc (Suc (Suc 0))) (VString ''bool'') v = Some True)\<rparr>"

definition typed_events :: "sy_event list" where
  "typed_events = sample_events @
     [SYPlugin lib_info (SigValueChanged ''A.b'' \<lparr>tv_time = 1, tv_value = VBool True\<rparr>),
      SYPlugin lib_info (SigValueChanged ''A.b'' \<lparr>tv_time = 2, tv_value = VInt 3\<rparr>)]"

lemma bool_check: "ti_typeCheck Q core_sample (Suc (Suc (Suc f))) (VString ''bool'') v = Some (qv_type v = TBool)"
  by (simp add: ti_base_sample ti_check_hardwired_def Let_def tr_newName_def)

lemma typed_example:
  "cp_valueOf 0 (fst (ev_run (sy_step typed_env) typed_events (setTypeCheck True (sys_new sample_registry)))) = VBool True"
  by (simp add: typed_events_def sys_eval typed_env_def bool_check setTypeCheck_def cp_valueOf_def
      onPluginValueChanged_def router_onValueChanged_def h_onValueChanged_def h_newValue_def h_latest_def pr_get_def
      tv_less_def qv_differs_def Let_def del: ti_typeCheck.simps)


end
