(* ===== verification/Prop_Private.thy ===== *)
theory Prop_Private
  imports Interfaces Qt_Variant
begin

text \<open>
  \<open>PropertyPrivate\<close> (propertyprivate.cpp): a property on the provider side, with the value
  the provider set last, the value it emitted last, and whether it has overheard a different
  and newer value of another provider of the same property. The clock is an argument.
\<close>

record prop_private =
  pp_key :: key
  pp_value :: qvariant
  pp_timestamp :: "64 word"
  pp_subscribed :: bool
  emittedValue :: qvariant
  emittedTimestamp :: "64 word"
  pp_overheard :: bool

datatype pp_out =
    FirstSubscriberAppeared key
  | LastSubscriberDisappeared key
  | PPValueChanged "qvariant list" "64 word"

type_synonym pp_result = "prop_private \<times> pp_out list"

definition currentTimestamp :: "64 word \<Rightarrow> 64 word \<Rightarrow> 64 word" where
  "currentTimestamp sec nsec = nsec + 1000000000 * sec"

definition pp_new :: "64 word \<Rightarrow> key \<Rightarrow> prop_private" where
  "pp_new now key = \<lparr>pp_key = key, pp_value = VInvalid, pp_timestamp = now, pp_subscribed = False,
     emittedValue = VInvalid, emittedTimestamp = now, pp_overheard = False\<rparr>"

definition emitValue :: "qt_lib \<Rightarrow> prop_private \<Rightarrow> pp_result" where
  "emitValue Q p =
     (if emittedTimestamp p = pp_timestamp p \<and> \<not> qv_differs Q (emittedValue p) (pp_value p) then (p, [])
      else
        let p1 = p\<lparr>emittedValue := pp_value p, emittedTimestamp := pp_timestamp p, pp_overheard := False\<rparr>
        in if \<not> pp_subscribed p1 then (p1, [])
           else (p1, [PPValueChanged (if \<not> qv_isNull (pp_value p1) then [pp_value p1] else []) (pp_timestamp p1)]))"

definition pp_setValue :: "qt_lib \<Rightarrow> 64 word \<Rightarrow> qvariant \<Rightarrow> prop_private \<Rightarrow> pp_result" where
  "pp_setValue Q now v p =
     (let p1 = p\<lparr>pp_timestamp := now, pp_value := v\<rparr>
      in if qv_differs Q (pp_value p1) (emittedValue p1) then emitValue Q p1
         else if pp_overheard p1 then emitValue Q p1 else (p1, []))"

definition pp_setSubscribed :: "prop_private \<Rightarrow> pp_result" where
  "pp_setSubscribed p = (if \<not> pp_subscribed p
     then (p\<lparr>pp_subscribed := True\<rparr>, [FirstSubscriberAppeared (pp_key p)]) else (p, []))"

definition pp_setUnsubscribed :: "prop_private \<Rightarrow> pp_result" where
  "pp_setUnsubscribed p = (if pp_subscribed p
     then (p\<lparr>pp_subscribed := False\<rparr>, [LastSubscriberDisappeared (pp_key p)]) else (p, []))"

definition updateOverheardValue :: "qt_lib \<Rightarrow> qvariant list \<Rightarrow> 64 word \<Rightarrow> prop_private \<Rightarrow> pp_result" where
  "updateOverheardValue Q v t p =
     (let overheardValue = (if length v = 0 then VInvalid else v ! 0)
      in if t > emittedTimestamp p \<and> \<not> qv_eq Q overheardValue (emittedValue p)
         then emitValue Q (p\<lparr>pp_overheard := True\<rparr>) else (p, []))"

datatype pp_event = PPSet "64 word" qvariant | PPSubscribed | PPUnsubscribed | PPOverheard "qvariant list" "64 word"

fun pp_step :: "qt_lib \<Rightarrow> pp_event \<Rightarrow> prop_private \<Rightarrow> pp_result" where
  "pp_step Q (PPSet now v) p = pp_setValue Q now v p"
| "pp_step Q PPSubscribed p = pp_setSubscribed p"
| "pp_step Q PPUnsubscribed p = pp_setUnsubscribed p"
| "pp_step Q (PPOverheard v t) p = updateOverheardValue Q v t p"

lemmas pp_defs = emitValue_def pp_setValue_def pp_setSubscribed_def pp_setUnsubscribed_def
  updateOverheardValue_def Let_def

section \<open>First and last subscriber\<close>

fun pp_announced :: "pp_out \<Rightarrow> bool option" where
  "pp_announced (FirstSubscriberAppeared _) = Some True"
| "pp_announced (LastSubscriberDisappeared _) = Some False"
| "pp_announced (PPValueChanged _ _) = None"

interpretation subscription: edge_signal pp_subscribed "pp_step Q" pp_announced "\<lambda>_. True"
proof unfold_locales
  show "List.map_filter pp_announced os = (if pp_subscribed p' = pp_subscribed p then [] else [pp_subscribed p'])"
    if "pp_step Q e p = (p', os)" for p e p' os
    using that by (cases e) (auto simp: pp_defs map_filter_def split: if_splits)
qed simp

section \<open>The emitted value\<close>

text \<open>The value last emitted is the one last set, up to the comparison the code makes.\<close>

definition pp_current :: "qt_lib \<Rightarrow> prop_private \<Rightarrow> bool" where
  "pp_current Q p = (emittedValue p = pp_value p \<or> \<not> qv_differs Q (pp_value p) (emittedValue p) \<or>
     \<not> qv_differs Q (emittedValue p) (pp_value p))"

lemma emitValue_current: "pp_current Q (fst (emitValue Q p))"
  by (simp add: pp_defs pp_current_def)

lemma pp_step_current: "pp_current Q p \<Longrightarrow> pp_current Q (fst (pp_step Q e p))"
proof (cases e)
  case (PPSet now v)
  show ?thesis unfolding PPSet
    by (auto simp: pp_setValue_def Let_def emitValue_current) (simp add: pp_current_def)
qed (auto simp: pp_setSubscribed_def pp_setUnsubscribed_def updateOverheardValue_def Let_def emitValue_current,
     simp_all add: pp_current_def)

text \<open>C30: whatever happens to a property, setting a value while it is subscribed emits it, with the
  time of the setting, exactly when it differs from the value emitted last or a newer value of
  another provider was overheard since; the bookkeeping is the same when nobody is subscribed,
  and afterwards the value emitted last is the value set.\<close>

theorem set_value_emits:
  assumes "p = fst (ev_run (pp_step Q) es (pp_new start key))"
    and "emittedTimestamp p \<noteq> now"
    and "pp_setValue Q now v p = (p', os)"
  shows "os = (if pp_subscribed p \<and> (qv_differs Q v (emittedValue p) \<or> pp_overheard p)
      then [PPValueChanged (if qv_isNull v then [] else [v]) now] else []) \<and>
    pp_value p' = v \<and> pp_timestamp p' = now \<and> pp_current Q p' \<and> pp_current Q p"
proof -
  have "pp_current Q (pp_new start key)" by (simp add: pp_current_def pp_new_def)
  then have c: "pp_current Q p" unfolding assms(1) by (rule ev_run_inv [rotated]) (rule pp_step_current)
  have "pp_current Q p'" using pp_step_current [OF c, of "PPSet now v"] assms(3) by simp
  then show ?thesis using assms(2,3) c by (auto simp: pp_defs split: if_splits)
qed

lemma set_value_emits_witness:
  "snd (pp_setValue qt_ref 9 (VInt 4) (fst (ev_run (pp_step qt_ref) [PPSubscribed, PPSet 5 (VInt 3)] (pp_new 1 ''A.b'')))) =
     [PPValueChanged [VInt 4] 9]"
proof -
  let ?p = "fst (ev_run (pp_step qt_ref) [PPSubscribed, PPSet 5 (VInt 3)] (pp_new 1 ''A.b''))"
  have p: "emittedTimestamp ?p = 5" "pp_subscribed ?p" "emittedValue ?p = VInt 3" by code_simp+
  have d: "qv_differs qt_ref (VInt 4) (VInt 3)" by code_simp
  show ?thesis
    using set_value_emits [OF refl _ prod.collapse [symmetric], of qt_ref "[PPSubscribed, PPSet 5 (VInt 3)]" 1 "''A.b''" 9 "VInt 4"] p d
    by simp
qed

text \<open>After another provider's different value newer than our last emission is overheard, and
  our value has not been set again since that emission, setting the same value again emits it
  again with its new time, so that clients prefer it.\<close>

lemma overheard_value_overridden:
  assumes "pp_timestamp p = emittedTimestamp p" and "emittedValue p = pp_value p" and "qv_reflexive (pp_value p)"
    and "pp_subscribed p" and "t > emittedTimestamp p" and "\<not> qv_eq Q w (pp_value p)" and "now > t"
    and "p' = fst (updateOverheardValue Q [w] t p)"
  shows "snd (updateOverheardValue Q [w] t p) = [] \<and>
    snd (pp_setValue Q now (pp_value p) p') =
      [PPValueChanged (if qv_isNull (pp_value p) then [] else [pp_value p]) now]"
proof -
  have r: "\<not> qv_differs Q (pp_value p) (pp_value p)" by (rule qv_differs_refl [OF assms(3)])
  have u: "updateOverheardValue Q [w] t p = (p\<lparr>pp_overheard := True\<rparr>, [])"
    using assms(1,2,5,6) r by (simp add: pp_defs)
  have "emittedTimestamp p \<noteq> now" using assms(5,7) by auto
  then show ?thesis using assms(2,4,8) u r by (simp add: pp_defs)
qed

lemma overheard_value_overridden_witness:
  "snd (pp_setValue qt_ref 9 (VInt 3) (fst (updateOverheardValue qt_ref [VInt 7] 6
     (fst (ev_run (pp_step qt_ref) [PPSubscribed, PPSet 5 (VInt 3)] (pp_new 1 ''A.b'')))))) =
     [PPValueChanged [VInt 3] 9]"
proof -
  let ?p = "fst (ev_run (pp_step qt_ref) [PPSubscribed, PPSet 5 (VInt 3)] (pp_new 1 ''A.b''))"
  have p: "emittedTimestamp ?p = 5" "pp_timestamp ?p = 5" "pp_subscribed ?p" "emittedValue ?p = VInt 3" "pp_value ?p = VInt 3"
    by code_simp+
  have d: "\<not> qv_eq qt_ref (VInt 7) (VInt 3)" by code_simp
  show ?thesis
    using overheard_value_overridden [of ?p 6 qt_ref "VInt 7" 9 "fst (updateOverheardValue qt_ref [VInt 7] 6 ?p)"] p d
    by simp
qed

text \<open>But when the same value had been set once more in between, overhearing re-emits the value
  with the older time and forgets what was overheard: setting the value again after that emits
  nothing, although the other provider's value is the newest on the bus.\<close>

lemma overheard_value_forgotten:
  assumes "pp_timestamp p > emittedTimestamp p" and "emittedValue p = pp_value p" and "qv_reflexive (pp_value p)"
    and "pp_subscribed p" and "t > pp_timestamp p" and "\<not> qv_eq Q w (pp_value p)"
    and "p' = fst (updateOverheardValue Q [w] t p)"
  shows "snd (updateOverheardValue Q [w] t p) =
      [PPValueChanged (if qv_isNull (pp_value p) then [] else [pp_value p]) (pp_timestamp p)] \<and>
    (\<forall>now. snd (pp_setValue Q now (pp_value p) p') = [])"
proof -
  have r: "\<not> qv_differs Q (pp_value p) (pp_value p)" by (rule qv_differs_refl [OF assms(3)])
  have "t > emittedTimestamp p" using assms(1,5) by simp
  then have u: "updateOverheardValue Q [w] t p =
      (p\<lparr>emittedValue := pp_value p, emittedTimestamp := pp_timestamp p, pp_overheard := False\<rparr>,
       [PPValueChanged (if qv_isNull (pp_value p) then [] else [pp_value p]) (pp_timestamp p)])"
    using assms(1,2,4,6) r by (auto simp: pp_defs)
  then show ?thesis using r by (simp add: assms(7) pp_setValue_def Let_def)
qed

lemma overheard_value_forgotten_witness:
  "snd (pp_setValue qt_ref 9 (VInt 3) (fst (updateOverheardValue qt_ref [VInt 7] 7
     (fst (ev_run (pp_step qt_ref) [PPSubscribed, PPSet 5 (VInt 3), PPSet 6 (VInt 3)] (pp_new 1 ''A.b'')))))) = []"
proof -
  let ?p = "fst (ev_run (pp_step qt_ref) [PPSubscribed, PPSet 5 (VInt 3), PPSet 6 (VInt 3)] (pp_new 1 ''A.b''))"
  have p: "emittedTimestamp ?p = 5" "pp_timestamp ?p = 6" "pp_subscribed ?p" "emittedValue ?p = VInt 3" "pp_value ?p = VInt 3"
    by code_simp+
  have d: "\<not> qv_eq qt_ref (VInt 7) (VInt 3)" by code_simp
  show ?thesis
    using overheard_value_forgotten [of ?p 7 qt_ref "VInt 7" "fst (updateOverheardValue qt_ref [VInt 7] 7 ?p)"] p d
    by simp
qed

end
