(* ===== verification/Prop_Adaptor.thy ===== *)
theory Prop_Adaptor
  imports Prop_Private Dbus_Plugin
begin

text \<open>
  \<open>PropertyAdaptor\<close> (propertyadaptor.cpp): the D-Bus face of one \<open>PropertyPrivate\<close>.
  It keeps the clients that subscribed, watches their bus names, and tells the property when
  the first client comes and the last one goes. The state is the adaptor with its property.
\<close>

record adaptor =
  pa_property :: prop_private
  clientServiceNames :: "string list"
  pa_watched :: "string list"

type_synonym pa_result = "adaptor \<times> pp_out list"

definition pa_new :: "prop_private \<Rightarrow> adaptor" where
  "pa_new p = \<lparr>pa_property = p, clientServiceNames = [], pa_watched = []\<rparr>"

definition pa_lift :: "(prop_private \<Rightarrow> pp_result) \<Rightarrow> adaptor \<Rightarrow> pa_result" where
  "pa_lift f a = (case f (pa_property a) of (p, os) \<Rightarrow> (a\<lparr>pa_property := p\<rparr>, os))"

definition pa_Get :: "adaptor \<Rightarrow> qvariant list \<times> 64 word" where
  "pa_Get a = (if \<not> qv_isNull (pp_value (pa_property a)) then [pp_value (pa_property a)] else [],
     pp_timestamp (pa_property a))"

definition pa_Subscribe :: "string \<Rightarrow> adaptor \<Rightarrow> pa_result \<times> (qvariant list \<times> 64 word)" where
  "pa_Subscribe client a =
     (let (a1, os) =
        (if client \<notin> set (clientServiceNames a) then
           let a1 = a\<lparr>clientServiceNames := qset_insert client (clientServiceNames a)\<rparr>;
               (a2, os) = (if length (clientServiceNames a1) = 1 then pa_lift pp_setSubscribed a1 else (a1, []))
           in (a2\<lparr>pa_watched := qset_insert client (pa_watched a2)\<rparr>, os)
         else (a, []))
      in ((a1, os), pa_Get a1))"

definition pa_Unsubscribe :: "string \<Rightarrow> adaptor \<Rightarrow> pa_result" where
  "pa_Unsubscribe client a =
     (if client \<in> set (clientServiceNames a) then
        let a1 = a\<lparr>clientServiceNames := qset_remove client (clientServiceNames a)\<rparr>;
            (a2, os) = (if length (clientServiceNames a1) = 0 then pa_lift pp_setUnsubscribed a1 else (a1, []))
        in (a2\<lparr>pa_watched := qset_remove client (pa_watched a2)\<rparr>, os)
      else (a, []))"

definition pa_onValueChanged :: "qt_lib \<Rightarrow> qvariant list \<Rightarrow> 64 word \<Rightarrow> adaptor \<Rightarrow> pa_result" where
  "pa_onValueChanged Q values timestamp a = pa_lift (updateOverheardValue Q values timestamp) a"

definition pa_onClientExited :: "string \<Rightarrow> adaptor \<Rightarrow> pa_result" where
  "pa_onClientExited busName a =
     (let removed = (busName \<in> set (clientServiceNames a));
          a1 = a\<lparr>clientServiceNames := qset_remove busName (clientServiceNames a)\<rparr>;
          (a2, os) = (if removed \<and> length (clientServiceNames a1) = 0
                      then pa_lift pp_setUnsubscribed a1 else (a1, []))
      in (a2\<lparr>pa_watched := qset_remove busName (pa_watched a2)\<rparr>, os))"

text \<open>\<open>replace(".", "/")\<close> and then \<open>replace(QRegExp("[^A-Za-z0-9_/]"), "_")\<close>.\<close>

definition pa_objectPath :: "key \<Rightarrow> string" where
  "pa_objectPath key =
     (if qs_startsWith key ''/'' then key
      else ''/org/maemo/contextkit/'' @
        map (\<lambda>c. if is_path_char c \<or> c = CHR ''/'' then c else CHR ''_'')
          (map (\<lambda>c. if c = CHR ''.'' then CHR ''/'' else c) key))"

definition pa_forgetClients :: "adaptor \<Rightarrow> pa_result" where
  "pa_forgetClients a =
     pa_lift pp_setUnsubscribed
       (a\<lparr>pa_watched := fold qset_remove (clientServiceNames a) (pa_watched a), clientServiceNames := []\<rparr>)"

datatype pa_event =
    PASubscribe string
  | PAUnsubscribe string
  | PAExited string
  | PAForget
  | PASet "64 word" qvariant
  | PAOverheard "qvariant list" "64 word"

fun pa_step :: "qt_lib \<Rightarrow> pa_event \<Rightarrow> adaptor \<Rightarrow> pa_result" where
  "pa_step Q (PASubscribe c) a = fst (pa_Subscribe c a)"
| "pa_step Q (PAUnsubscribe c) a = pa_Unsubscribe c a"
| "pa_step Q (PAExited c) a = pa_onClientExited c a"
| "pa_step Q PAForget a = pa_forgetClients a"
| "pa_step Q (PASet now v) a = pa_lift (pp_setValue Q now v) a"
| "pa_step Q (PAOverheard v t) a = pa_onValueChanged Q v t a"

lemmas pa_defs = pa_lift_def pa_Subscribe_def pa_Unsubscribe_def pa_onValueChanged_def
  pa_onClientExited_def pa_forgetClients_def Let_def

section \<open>Object paths\<close>

lemma object_path: "pa_objectPath k = keyToPath k"
  by (simp add: pa_objectPath_def keyToPath_def corePrefix_def path_char_def)

text \<open>Provider and subscriber agree on the object path of every key: the adaptor exports the
  property exactly where the subscriber's plugin calls it and listens for it.\<close>

lemma object_path_agrees: "pa_objectPath k = keyToPath k"
  by (rule object_path)

section \<open>Clients and the subscription state\<close>

definition pa_ok :: "adaptor \<Rightarrow> bool" where
  "pa_ok a = (distinct (clientServiceNames a) \<and> set (pa_watched a) = set (clientServiceNames a) \<and>
     pp_subscribed (pa_property a) = (clientServiceNames a \<noteq> []))"

lemma pp_value_ops_subscribed:
  "pp_subscribed (fst (pp_setValue Q now v p)) = pp_subscribed p"
  "pp_subscribed (fst (updateOverheardValue Q vs t p)) = pp_subscribed p"
  by (auto simp: pp_defs)

lemma set_fold_qset_remove: "set (fold qset_remove xs ys) = set ys - set xs"
  by (induction xs arbitrary: ys) auto

lemma pa_step_ok: "pa_ok a \<Longrightarrow> pa_ok (fst (pa_step Q e a))"
proof (cases e)
  case (PASubscribe c)
  assume "pa_ok a"
  then show ?thesis unfolding PASubscribe
    by (cases "clientServiceNames a")
      (auto simp: pa_ok_def pa_defs pp_setSubscribed_def length_qset_insert qset_insert_def)
next
  case (PAUnsubscribe c)
  assume "pa_ok a"
  then show ?thesis unfolding PAUnsubscribe
    by (auto simp: pa_ok_def pa_defs pp_setUnsubscribed_def)
next
  case (PAExited c)
  assume "pa_ok a"
  then show ?thesis unfolding PAExited
    by (cases "c \<in> set (clientServiceNames a)") (auto simp: pa_ok_def pa_defs pp_setUnsubscribed_def)
next
  case PAForget
  assume "pa_ok a"
  then show ?thesis unfolding PAForget
    by (auto simp: pa_ok_def pa_defs pp_setUnsubscribed_def set_fold_qset_remove)
qed (simp_all add: pa_ok_def pa_onValueChanged_def pa_lift_def case_prod_unfold pp_value_ops_subscribed)

text \<open>The clients that are subscribed after a sequence of events, by the meaning of the events.\<close>

fun pa_clients_after :: "string set \<Rightarrow> pa_event list \<Rightarrow> string set" where
  "pa_clients_after cs [] = cs"
| "pa_clients_after cs (PASubscribe c # es) = pa_clients_after (insert c cs) es"
| "pa_clients_after cs (PAUnsubscribe c # es) = pa_clients_after (cs - {c}) es"
| "pa_clients_after cs (PAExited c # es) = pa_clients_after (cs - {c}) es"
| "pa_clients_after cs (PAForget # es) = pa_clients_after {} es"
| "pa_clients_after cs (_ # es) = pa_clients_after cs es"

lemma pa_step_clients: "pa_clients_after (set (clientServiceNames (fst (pa_step Q e a)))) es =
    pa_clients_after (set (clientServiceNames a)) (e # es)"
proof (cases e)
  case (PASubscribe c)
  have "set (clientServiceNames (fst (fst (pa_Subscribe c a)))) = insert c (set (clientServiceNames a))"
    by (auto simp: pa_defs split: prod.splits)
  then show ?thesis unfolding PASubscribe by simp
next
  case (PAUnsubscribe c)
  have "set (clientServiceNames (fst (pa_Unsubscribe c a))) = set (clientServiceNames a) - {c}"
    by (auto simp: pa_defs split: prod.splits)
  then show ?thesis unfolding PAUnsubscribe by simp
next
  case (PAExited c)
  have "set (clientServiceNames (fst (pa_onClientExited c a))) = set (clientServiceNames a) - {c}"
    by (auto simp: pa_defs split: prod.splits)
  then show ?thesis unfolding PAExited by simp
qed (auto simp: pa_defs split: prod.splits)

interpretation client: edge_signal "\<lambda>a. pp_subscribed (pa_property a)" "pa_step Q" pp_announced pa_ok
proof unfold_locales
  show "pa_ok (fst (pa_step Q e a))" if "pa_ok a" for a e using that by (rule pa_step_ok)
  show "List.map_filter pp_announced os =
      (if pp_subscribed (pa_property a') = pp_subscribed (pa_property a) then [] else [pp_subscribed (pa_property a')])"
    if "pa_step Q e a = (a', os)" for a e a' os
  proof -
    have lift: "List.map_filter pp_announced os =
        (if pp_subscribed (pa_property a') = pp_subscribed (pa_property b) then [] else [pp_subscribed (pa_property a')])"
      if "pa_lift (pp_step Q x) b = (a', os)" for x b a' os
      using that subscription.step_edge [where s = "pa_property b" and e = x and Q = Q] by (auto simp: pa_lift_def split: prod.splits)
    show ?thesis
    proof (cases e)
      case (PASubscribe c)
      with that show ?thesis
        by (auto simp: pa_defs pp_setSubscribed_def map_filter_def case_prod_unfold split: if_splits)
    next
      case (PAUnsubscribe c)
      with that show ?thesis
        by (auto simp: pa_defs pp_setUnsubscribed_def map_filter_def case_prod_unfold split: if_splits)
    next
      case (PAExited c)
      with that show ?thesis
        by (auto simp: pa_defs pp_setUnsubscribed_def map_filter_def case_prod_unfold split: if_splits)
    next
      case PAForget
      with that show ?thesis
        by (auto simp: pa_defs pp_setUnsubscribed_def map_filter_def case_prod_unfold split: if_splits)
    next
      case (PASet now v)
      have "pp_step Q (PPSet now v) = pp_setValue Q now v" by (rule ext) simp
      with PASet that lift [of "PPSet now v" a a' os] show ?thesis by simp
    next
      case (PAOverheard v t)
      have "pp_step Q (PPOverheard v t) = updateOverheardValue Q v t" by (rule ext) simp
      with PAOverheard that lift [of "PPOverheard v t" a a' os] show ?thesis by (simp add: pa_onValueChanged_def)
    qed
  qed
qed

lemma pa_ok_start: "pa_ok (pa_new (pp_new start key))"
  by (simp add: pa_ok_def pa_new_def pp_new_def)

lemma pa_run_ok: "pa_ok (fst (ev_run (pa_step Q) es (pa_new (pp_new start key))))"
  by (rule client.run_wf [OF pa_ok_start])

lemma pa_run_clients:
  "set (clientServiceNames (fst (ev_run (pa_step Q) es (pa_new (pp_new start key))))) = pa_clients_after {} es"
proof -
  have "set (clientServiceNames (fst (ev_run (pa_step Q) es b))) = pa_clients_after (set (clientServiceNames b)) es" for b
  proof (induction es arbitrary: b)
    case (Cons e es)
    have "fst (ev_run (pa_step Q) (e # es) b) = fst (ev_run (pa_step Q) es (fst (pa_step Q e b)))"
      by (simp add: case_prod_unfold)
    then show ?case using Cons.IH pa_step_clients by metis
  qed simp
  then show ?thesis by (simp add: pa_new_def)
qed

lemma pa_run_subscribed:
  "pp_subscribed (pa_property (fst (ev_run (pa_step Q) es (pa_new (pp_new start key))))) \<longleftrightarrow> pa_clients_after {} es \<noteq> {}"
  unfolding pa_run_clients [of Q es start key, symmetric] using pa_run_ok [of Q es start key] by (simp add: pa_ok_def)

text \<open>C31: a property counts as subscribed exactly while some client is: in every run of the adaptor
  the clients kept are those that subscribed and have neither unsubscribed, nor left the bus, nor
  been forgotten since, each watched and kept once; the provider hears of the first and of the
  last of them, alternately.\<close>

theorem subscribed_iff_clients:
  assumes "ev_run (pa_step Q) es (pa_new (pp_new start key)) = (a, os)"
  shows "set (clientServiceNames a) = pa_clients_after {} es \<and> distinct (clientServiceNames a) \<and>
    set (pa_watched a) = pa_clients_after {} es \<and>
    (pp_subscribed (pa_property a) \<longleftrightarrow> pa_clients_after {} es \<noteq> {}) \<and>
    distinct_adj (False # List.map_filter pp_announced os) \<and>
    last (False # List.map_filter pp_announced os) = (pa_clients_after {} es \<noteq> {})"
proof -
  let ?a0 = "pa_new (pp_new start key)"
  have ok: "pa_ok a" and c: "set (clientServiceNames a) = pa_clients_after {} es"
    using pa_run_ok [of Q es start key] pa_run_clients [of Q es start key] assms by simp_all
  have lev: "\<not> pp_subscribed (pa_property ?a0)" by (simp add: pa_new_def pp_new_def)
  show ?thesis
    using client.run_level [OF pa_ok_start assms] client.run_alternates [OF pa_ok_start assms] ok c lev
    by (auto simp: pa_ok_def distinct_adj_def)
qed

lemma subscribed_iff_clients_witness:
  "set (clientServiceNames (fst (ev_run (pa_step qt_ref) [PASubscribe '':1.1'', PASubscribe '':1.2'', PAExited '':1.1'',
     PASet 3 (VInt 1)] (pa_new (pp_new 1 ''A.b''))))) = {'':1.2''}"
  unfolding conjunct1 [OF subscribed_iff_clients [OF prod.collapse [symmetric]]] by auto

end
