(* ===== verification/End_To_End.thy ===== *)
theory End_To_End
  imports Prop_Adaptor Property_System
begin

text \<open>
  A value on its way from one process to another: \<open>Property::setValue\<close> in a provider, the
  \<open>ValueChanged\<close> signal of its adaptor on D-Bus, the plugin of the subscriber, and the
  property of the application. The bus delivers a signal as it was sent; \<open>wire\<close> is what
  QtDBus makes of a value that crosses it. The three processes are runs of their own models.
\<close>

text \<open>The signals an adaptor puts on the bus, with the path they come from.\<close>

definition bus_signals :: "key \<Rightarrow> pp_out list \<Rightarrow> (qvariant list \<times> 64 word \<times> string) list" where
  "bus_signals k os = List.map_filter (\<lambda>x. case x of
      PPValueChanged vs t \<Rightarrow> Some (vs, t, pa_objectPath k) | _ \<Rightarrow> None) os"

definition plugin_receives ::
    "unhooker \<Rightarrow> (qvariant \<Rightarrow> qvariant) \<Rightarrow> (qvariant list \<times> 64 word \<times> string) list \<Rightarrow> dbus_plugin \<Rightarrow> dp_result" where
  "plugin_receives U wire sigs p = ev_run (dp_step U) (map (\<lambda>(vs, t, path). DPValue (map wire vs) t path) sigs) p"

text \<open>The connections \<open>Provider::constructPlugin\<close> makes from the plugin to the provider.\<close>

fun plugin_signal_of :: "64 word \<times> 64 word \<Rightarrow> plugin_out \<Rightarrow> plugin_signal option" where
  "plugin_signal_of clock Ready = Some SigReady"
| "plugin_signal_of clock (Failed _) = Some SigFailed"
| "plugin_signal_of clock (PSubscribeFinished k) = Some (SigSubscribeFinished k)"
| "plugin_signal_of clock (PSubscribeFailed k e) = Some (SigSubscribeFailed k e)"
| "plugin_signal_of clock (PValueChanged k v) = Some (SigValueChanged k v)"
| "plugin_signal_of clock (PVariantChanged k v) = Some (SigVariantChanged clock k v)"
| "plugin_signal_of clock _ = None"

definition sy_receives :: "sys_env \<Rightarrow> 64 word \<times> 64 word \<Rightarrow> provider_info \<Rightarrow> plugin_out list \<Rightarrow> sys \<Rightarrow> sy_result" where
  "sy_receives E clock i os sy = ev_run (sy_step E) (map (SYPlugin i) (List.map_filter (plugin_signal_of clock) os)) sy"

section \<open>The value arrives\<close>

text \<open>A provider that has a later value than all others decides.\<close>

lemma h_latest_unique:
  assumes "tv \<in> set tvs" and "\<not> qv_isNull (tv_value tv)"
    and "\<forall>tv' \<in> set tvs. tv' = tv \<or> qv_isNull (tv_value tv') \<or> tv_time tv' < tv_time tv"
  shows "h_latest tvs = Some tv"
proof -
  have "h_latest tvs \<noteq> None" using h_latest_spec [of tvs] assms(1,2) by blast
  then obtain l n where l: "h_latest tvs = Some l" and n: "n < length tvs" "tvs ! n = l" "\<not> qv_isNull (tv_value l)"
      "\<forall>m < length tvs. \<not> qv_isNull (tv_value (tvs ! m)) \<longrightarrow> tv_time (tvs ! m) \<le> tv_time l"
    using h_latest_spec [of tvs] by blast
  have "l \<in> set tvs" using n(1,2) by auto
  moreover have "tv_time tv \<le> tv_time l" using n(4) assms(1,2) by (auto simp: in_set_conv_nth)
  ultimately have "l = tv" using assms(3) n(3) by fastforce
  with l show ?thesis by simp
qed

lemma emitted_signal:
  assumes "pp_subscribed (pa_property a)" and "emittedTimestamp (pa_property a) \<noteq> now"
    and "qv_differs Q v (emittedValue (pa_property a))" and "\<not> qv_isNull v"
  shows "snd (pa_step Q (PASet now v) a) = [PPValueChanged [v] now]"
  using assms by (simp add: pa_lift_def pp_setValue_def emitValue_def Let_def)

lemma plugin_forwards:
  assumes "routed k p" and "demarshallValue (wire v) = v"
  shows "snd (plugin_receives U wire (bus_signals k [PPValueChanged [v] now]) p) =
    [PValueChanged k \<lparr>tv_time = now, tv_value = v\<rparr>]"
  using assms by (simp add: plugin_receives_def bus_signals_def List.map_filter_simps onNewValueChanged_def
      routed_def createTimedValue_def object_path)

lemma value_accepted:
  assumes "sys_ok sy" and "i \<in> set (myProviders (sy_handle k sy))" and "subscribeCount (sy_handle k sy) \<noteq> 0"
    and "pr_plugin (sy_provider i sy)" and "\<not> qv_isNull v" and "typeCheckEnabled sy \<Longrightarrow> en_typeOk E k v"
    and "\<forall>j \<in> set (myProviders (sy_handle k sy)) - {i}.
      qv_isNull (tv_value (pr_get k (sy_provider j sy))) \<or> tv_time (pr_get k (sy_provider j sy)) < now"
  shows "sy_step E (SYPlugin i (SigValueChanged k \<lparr>tv_time = now, tv_value = v\<rparr>)) sy =
    (let p = (sy_provider i sy)\<lparr>pr_values := smap_insert k \<lparr>tv_time = now, tv_value = v\<rparr> (pr_values (sy_provider i sy))\<rparr>;
         sy1 = sy_put i p sy
     in if qv_differs (en_qt E) (myValue (sy_handle k sy)) v
        then (sy_put_handle k ((sy_handle k sy)\<lparr>myValue := v\<rparr>) sy1, [HandleChanged k]) else (sy1, []))"
proof -
  define tv where "tv = \<lparr>tv_time = now, tv_value = v\<rparr>"
  define p where "p = (sy_provider i sy)\<lparr>pr_values := smap_insert k tv (pr_values (sy_provider i sy))\<rparr>"
  define sy1 where "sy1 = sy_put i p sy"
  have sub: "k \<in> set (subscribedKeys (sy_provider i sy))" using assms(1-3) by (auto simp: sys_ok_def subs_def)
  have there: "map_of (sy_providers sy) i \<noteq> None"
    using sub by (cases "map_of (sy_providers sy) i")
      (simp_all add: sy_provider_def provider_instance_def provider_new_def pr_queueOnce_def Let_def)
  have han: "map_of (sy_handles sy) k \<noteq> None"
    using assms(2) by (cases "map_of (sy_handles sy) k") (simp_all add: sy_handle_def handle_new_def)
  have op: "pr_on_plugin (SigValueChanged k tv) (sy_provider i sy) = (p, [ValueChanged k])"
    using sub by (simp add: onPluginValueChanged_def p_def)
  have get: "pr_get k (sy_provider j sy1) = (if j = i then tv else pr_get k (sy_provider j sy))" for j
    by (simp add: sy1_def p_def pr_get_def)
  have "h_latest (map (\<lambda>j. pr_get k (sy_provider j sy1)) (myProviders (sy_handle k sy))) = Some tv"
    by (rule h_latest_unique) (use assms(2,5,7) in \<open>auto simp: get tv_def\<close>)
  then have new: "h_newValue k sy1 = v" by (simp add: h_newValue_def sy1_def tv_def)
  have "h_onValueChanged E k sy1 = (if qv_differs (en_qt E) (myValue (sy_handle k sy)) v
      then (sy_put_handle k ((sy_handle k sy)\<lparr>myValue := v\<rparr>) sy1, [HandleChanged k]) else (sy1, []))"
    using assms(6) by (simp add: h_onValueChanged_def new Let_def) (simp add: sy1_def)
  moreover have "handle_instance E k sy1 = (sy1, [])" unfolding handle_instance_def sy1_def sy_put_frame using han by (simp del: not_None_eq)
  ultimately show ?thesis
    using there assms(4) op unfolding tv_def [symmetric] p_def [symmetric] Let_def
    by (simp add: sy_provider_op_def router_onValueChanged_def sy1_def [symmetric])
qed


definition sample_clients :: "pa_event list" where
  "sample_clients = [PASubscribe '':1.1'']"

definition sample_plugin :: dbus_plugin where
  "sample_plugin = fst (ev_run (dp_step (\<lambda>_. [])) [DPPosted None, DPSubscribe True [''A.b'']]
     (dp_new (\<lambda>_. []) SessionBus ''org.example''))"


end
