(* ===== verification/Duration.thy ===== *)
theory Duration
  imports CK_Prelude
begin

text \<open>
  \<open>Duration\<close> (duration.cpp): a period in nanoseconds, split into years to seconds, with a
  printed form such as \<open>1Y 2W 3D 4H 5M 6S\<close>. The time of day comes from
  \<open>QTime().addMSecs\<close>, which Qt 4 and Qt 5 define differently for the null time, so it is
  a parameter \<open>hms\<close>. The default constructor and the string constructor on malformed input
  set the total only: the split fields stay uninitialised, here \<open>None\<close>.
\<close>

section \<open>Constants\<close>

definition NANOSECS_PER_MSEC :: int where "NANOSECS_PER_MSEC = 1000000"
definition NANOSECS_PER_SEC :: int where "NANOSECS_PER_SEC = 1000 * NANOSECS_PER_MSEC"
definition NANOSECS_PER_MIN :: int where "NANOSECS_PER_MIN = 60 * NANOSECS_PER_SEC"
definition NANOSECS_PER_HOUR :: int where "NANOSECS_PER_HOUR = 60 * NANOSECS_PER_MIN"
definition NANOSECS_PER_DAY :: int where "NANOSECS_PER_DAY = 24 * NANOSECS_PER_HOUR"
definition NANOSECS_PER_WEEK :: int where "NANOSECS_PER_WEEK = 7 * NANOSECS_PER_DAY"
definition SECS_PER_DAY :: int where "SECS_PER_DAY = 86400"
definition MSECS_PER_DAY :: int where "MSECS_PER_DAY = 1000 * SECS_PER_DAY"
definition DAYS_PER_YEAR :: int where "DAYS_PER_YEAR = 365"
definition DAYS_PER_WEEK :: int where "DAYS_PER_WEEK = 7"

lemmas duration_consts = NANOSECS_PER_MSEC_def NANOSECS_PER_SEC_def NANOSECS_PER_MIN_def
  NANOSECS_PER_HOUR_def NANOSECS_PER_DAY_def NANOSECS_PER_WEEK_def SECS_PER_DAY_def
  MSECS_PER_DAY_def DAYS_PER_YEAR_def DAYS_PER_WEEK_def

section \<open>State and constructors\<close>

record duration_fields =
  nanoSecs_p :: int
  seconds_p :: int
  minutes_p :: int
  hours_p :: int
  days_p :: int
  weeks_p :: int
  years_p :: int

record duration =
  totalNanoSecs_p :: "64 word"
  dur_fields :: "duration_fields option"

type_synonym qtime_hms = "int \<Rightarrow> int \<times> int \<times> int"

text \<open>Hour, minute and second of \<open>QTime().addMSecs(ms)\<close>: Qt 4 counts from midnight, Qt 5
  documents that a null time stays null, whose parts read as -1.\<close>

definition qt4_hms :: qtime_hms where
  "qt4_hms ms = (ms div 3600000, ms div 60000 mod 60, ms div 1000 mod 60)"

definition qt5_hms :: qtime_hms where
  "qt5_hms ms = (-1, -1, -1)"

definition duration_default :: duration where
  "duration_default = \<lparr>totalNanoSecs_p = 0, dur_fields = None\<rparr>"

definition duration_of_nsecs :: "qtime_hms \<Rightarrow> 64 word \<Rightarrow> duration" where
  "duration_of_nsecs hms nanoSecs =
     (let n = uint nanoSecs;
          (h, m, s) = hms ((n div NANOSECS_PER_MSEC) mod MSECS_PER_DAY);
          days = n div NANOSECS_PER_DAY
      in \<lparr>totalNanoSecs_p = nanoSecs,
          dur_fields = Some \<lparr>nanoSecs_p = n mod NANOSECS_PER_SEC, seconds_p = s, minutes_p = m, hours_p = h,
            days_p = (days mod DAYS_PER_YEAR) mod DAYS_PER_WEEK,
            weeks_p = (days mod DAYS_PER_YEAR) div DAYS_PER_WEEK,
            years_p = days div DAYS_PER_YEAR\<rparr>\<rparr>)"

text \<open>
  The regular expression: for each unit letter an optional group of digits followed by the
  letter in either case, with optional whitespace between the groups. The letters differ, so
  matching a group whenever it can match is the only way to match the whole string.
\<close>

definition dur_group :: "char \<Rightarrow> string \<Rightarrow> string \<times> string" where
  "dur_group c s =
     (let ds = takeWhile is_digit s; r = dropWhile is_digit s
      in if ds \<noteq> [] \<and> r \<noteq> [] \<and> char_lower (hd r) = char_lower c then (ds, tl r) else ([], s))"

fun dur_groups :: "string \<Rightarrow> string \<Rightarrow> string list \<times> string" where
  "dur_groups [] s = ([], s)"
| "dur_groups (c # cs) s =
     (case dur_group c s of (g, r) \<Rightarrow>
      case dur_groups cs (if cs = [] then r else dropWhile is_space r) of (gs, e) \<Rightarrow> (g # gs, e))"

definition dur_units :: string where "dur_units = ''YWDHMS''"

text \<open>\<open>exactMatch(s) \<and> matchedLength()\<close>: all of a non-empty string matched.\<close>

definition dur_match :: "string \<Rightarrow> string list option" where
  "dur_match s = (case dur_groups dur_units s of (gs, e) \<Rightarrow> if e = [] \<and> s \<noteq> [] then Some gs else None)"

text \<open>\<open>QString::toLongLong\<close> on a run of digits: 0 for the empty string and on overflow.\<close>

definition qs_toLongLong :: "string \<Rightarrow> int" where
  "qs_toLongLong s = (if int (str_nat s) < 2 ^ 63 then int (str_nat s) else 0)"

definition duration_of_string :: "qtime_hms \<Rightarrow> string \<Rightarrow> duration" where
  "duration_of_string hms s = (case dur_match (qs_simplified s) of
      Some [y, w, d, h, m, sec] \<Rightarrow>
        duration_of_nsecs hms (word_of_int
          (qs_toLongLong y * (52 * NANOSECS_PER_WEEK + NANOSECS_PER_DAY) +
           qs_toLongLong w * NANOSECS_PER_WEEK + qs_toLongLong d * NANOSECS_PER_DAY +
           qs_toLongLong h * NANOSECS_PER_HOUR + qs_toLongLong m * NANOSECS_PER_MIN +
           qs_toLongLong sec * NANOSECS_PER_SEC))
    | _ \<Rightarrow> duration_default)"

definition isDuration :: "string \<Rightarrow> bool" where
  "isDuration s = (dur_match (qs_simplified s) \<noteq> None)"

definition duration_eq :: "duration \<Rightarrow> duration \<Rightarrow> bool" where
  "duration_eq a b = (totalNanoSecs_p a = totalNanoSecs_p b)"

definition duration_nanoSecs :: "duration \<Rightarrow> int" where
  "duration_nanoSecs d = uint (totalNanoSecs_p d) mod NANOSECS_PER_SEC"

definition duration_toNanoSeconds :: "duration \<Rightarrow> 64 word" where
  "duration_toNanoSeconds d = totalNanoSecs_p d"

definition dur_part :: "int \<Rightarrow> string \<Rightarrow> string" where
  "dur_part n u = (if n \<noteq> 0 then int_str n @ u else [])"

definition fields_toString :: "duration_fields \<Rightarrow> string" where
  "fields_toString f = qs_simplified
     (dur_part (years_p f) ''Y '' @ dur_part (weeks_p f) ''W '' @ dur_part (days_p f) ''D '' @
      dur_part (hours_p f) ''H '' @ dur_part (minutes_p f) ''M '' @
      (if seconds_p f \<noteq> 0 then int_str (seconds_p f) @ ''S''
       else if years_p f = 0 \<and> weeks_p f = 0 \<and> days_p f = 0 \<and> hours_p f = 0 \<and> minutes_p f = 0 then ''0S''
       else []))"

text \<open>\<open>toString\<close> reads the split fields; \<open>None\<close> where they are uninitialised.\<close>

definition duration_toString :: "duration \<Rightarrow> string option" where
  "duration_toString d = map_option fields_toString (dur_fields d)"

section \<open>Whitespace of the printed form\<close>

fun tidy :: "string \<Rightarrow> bool" where
  "tidy [] = True"
| "tidy (c # s) = ((is_space c \<longrightarrow> c = CHR '' '' \<and> s \<noteq> [] \<and> \<not> is_space (hd s)) \<and> tidy s)"

lemma tidy_squeeze: "tidy s \<Longrightarrow> squeeze s = s"
  by (induction s rule: squeeze.induct) auto

lemma tidy_append_word: "\<forall>c \<in> set w. \<not> is_space c \<Longrightarrow> tidy (w @ s) = tidy s"
  by (induction w) auto

lemma tidy_last: "tidy s \<Longrightarrow> s \<noteq> [] \<Longrightarrow> \<not> is_space (last s)"
  by (induction s) auto

lemma trimmed_word:
  assumes "s \<noteq> []" and "\<not> is_space (hd s)" and "\<not> is_space (last s)" and "\<forall>c \<in> set t. is_space c"
  shows "qs_trimmed (s @ t) = s"
proof -
  from assms(1,2) have "dropWhile is_space (s @ t) = s @ t" by (cases s) auto
  moreover have "dropWhile is_space (rev t @ rev s) = dropWhile is_space (rev s)"
    using assms(4) by (intro dropWhile_append2) auto
  moreover have "dropWhile is_space (rev s) = rev s"
    using assms(1,3) by (cases s rule: rev_cases) auto
  ultimately show ?thesis by (simp add: qs_trimmed_def)
qed

lemma simplified_tidy:
  assumes "tidy s" and "s \<noteq> []" and "\<not> is_space (hd s)" and "\<forall>c \<in> set t. is_space c"
  shows "qs_simplified (s @ t) = s"
  using assms by (simp add: qs_simplified_def trimmed_word tidy_last tidy_squeeze)

lemma digit_not_space: "is_digit c \<Longrightarrow> \<not> is_space c"
  by (auto simp: is_digit_def is_space_def Let_def)

text \<open>The canonical text of a list of counts over a list of units.\<close>

fun dur_text :: "string \<Rightarrow> nat list \<Rightarrow> string" where
  "dur_text (c # cs) (n # ns) =
     (if n = 0 then dur_text cs ns
      else nat_str n @ c # (if dur_text cs ns = [] then [] else CHR '' '' # dur_text cs ns))"
| "dur_text _ _ = []"

lemma dur_text_head: "dur_text cs ns \<noteq> [] \<Longrightarrow>
    \<exists>m c r. dur_text cs ns = nat_str m @ c # r \<and> c \<in> set cs"
proof (induction cs ns rule: dur_text.induct)
  case (1 c cs n ns)
  show ?case
  proof (cases "n = 0")
    case True
    with 1 show ?thesis by fastforce
  next
    case False
    then show ?thesis by auto
  qed
qed auto

lemma hd_nat_str_digit: "is_digit (hd (nat_str n @ s))"
  by (metis hd_append2 hd_in_set nat_str_digits nat_str_nonempty)

lemma dur_text_tidy:
  "\<forall>c \<in> set cs. \<not> is_space c \<Longrightarrow> tidy (dur_text cs ns)"
proof (induction cs ns rule: dur_text.induct)
  case (1 c cs n ns)
  have w: "\<forall>x \<in> set (nat_str n @ [c]). \<not> is_space x"
    using "1.prems" by (auto dest: nat_str_digits digit_not_space)
  have "tidy (dur_text cs ns)" using 1 by (cases "n = 0") auto
  moreover have "dur_text cs ns \<noteq> [] \<Longrightarrow> \<not> is_space (hd (dur_text cs ns))"
    using dur_text_head [of cs ns] hd_nat_str_digit digit_not_space by metis
  ultimately have rest: "tidy (if dur_text cs ns = [] then [] else CHR '' '' # dur_text cs ns)" by simp
  show ?case
  proof (cases "n = 0")
    case True
    with \<open>tidy (dur_text cs ns)\<close> show ?thesis by simp
  next
    case False
    then have "dur_text (c # cs) (n # ns) =
        (nat_str n @ [c]) @ (if dur_text cs ns = [] then [] else CHR '' '' # dur_text cs ns)"
      by simp
    then show ?thesis using rest by (simp only: tidy_append_word [OF w])
  qed
qed auto

section \<open>Printing and parsing\<close>

lemma dur_group_hit:
  "\<forall>x \<in> set ds. is_digit x \<Longrightarrow> ds \<noteq> [] \<Longrightarrow> \<not> is_digit c \<Longrightarrow> dur_group c (ds @ c # r) = (ds, r)"
  by (simp add: dur_group_def Let_def takeWhile_append2 dropWhile_append2)

lemma dur_group_skip:
  "\<not> is_digit c' \<Longrightarrow> char_lower c' \<noteq> char_lower c \<Longrightarrow>
     dur_group c (nat_str m @ c' # r) = ([], nat_str m @ c' # r)"
  using nat_str_digits [of _ m]
  by (simp add: dur_group_def Let_def takeWhile_append2 dropWhile_append2)

lemma dur_group_Nil [simp]: "dur_group c [] = ([], [])"
  by (simp add: dur_group_def)

lemma dropWhile_text: "dropWhile is_space (dur_text cs ns) = dur_text cs ns"
proof (cases "dur_text cs ns = []")
  case False
  then obtain m c r where t: "dur_text cs ns = nat_str m @ c # r" using dur_text_head by blast
  have "\<not> is_space (hd (nat_str m @ c # r))" by (rule digit_not_space [OF hd_nat_str_digit])
  then show ?thesis unfolding t by (cases "nat_str m @ c # r") auto
qed simp

lemma dur_groups_text:
  "length cs = length ns \<Longrightarrow> \<forall>c \<in> set cs. \<not> is_digit c \<and> \<not> is_space c \<Longrightarrow> distinct (map char_lower cs) \<Longrightarrow>
     dur_groups cs (dur_text cs ns) = (map (\<lambda>n. if n = 0 then [] else nat_str n) ns, [])"
proof (induction cs ns rule: list_induct2)
  case Nil
  then show ?case by simp
next
  case (Cons c cs n ns)
  have IH: "dur_groups cs (dur_text cs ns) = (map (\<lambda>n. if n = 0 then [] else nat_str n) ns, [])"
    using Cons by simp
  have dw: "dropWhile is_space (dur_text cs ns) = dur_text cs ns"
    by (rule dropWhile_text)
  have last: "cs = [] \<Longrightarrow> dur_text cs ns = []" by simp
  show ?case
  proof (cases "n = 0")
    case True
    have "dur_group c (dur_text cs ns) = ([], dur_text cs ns)"
    proof (cases "dur_text cs ns = []")
      case False
      then obtain m c' r where t: "dur_text cs ns = nat_str m @ c' # r" and c': "c' \<in> set cs"
        using dur_text_head by blast
      have "char_lower c' \<in> char_lower ` set cs" using c' by (rule imageI)
      with Cons.prems(2) have "char_lower c' \<noteq> char_lower c" by auto
      with t c' Cons.prems(1) show ?thesis by (simp add: dur_group_skip)
    qed simp
    with True IH dw last show ?thesis by (auto split: if_splits)
  next
    case False
    have "dur_group c (nat_str n @ c # r) = (nat_str n, r)" for r
      using Cons.prems(1) by (intro dur_group_hit) (auto dest: nat_str_digits)
    moreover have "is_space (CHR '' '')" by code_simp
    ultimately show ?thesis using False IH dw last by auto
  qed
qed

fun dur_raw :: "string \<Rightarrow> nat list \<Rightarrow> string" where
  "dur_raw (c # cs) (n # ns) = (if n = 0 then [] else nat_str n @ [c, CHR '' '']) @ dur_raw cs ns"
| "dur_raw _ _ = []"

lemma dur_raw_text: "length cs = length ns \<Longrightarrow>
    dur_raw cs ns = (if dur_text cs ns = [] then [] else dur_text cs ns @ '' '')"
  by (induction cs ns rule: list_induct2) auto

lemma dur_text_snoc0: "length cs = length ns \<Longrightarrow> dur_text (cs @ [c]) (ns @ [0]) = dur_text cs ns"
  by (induction cs ns rule: list_induct2) auto

lemma dur_text_snoc: "length cs = length ns \<Longrightarrow> n \<noteq> 0 \<Longrightarrow>
    dur_text (cs @ [c]) (ns @ [n]) = dur_raw cs ns @ nat_str n @ [c]"
  by (induction cs ns rule: list_induct2) (auto simp: dur_raw_text)

lemma dur_text_Nil_iff: "length cs = length ns \<Longrightarrow> dur_text cs ns = [] \<longleftrightarrow> (\<forall>n \<in> set ns. n = 0)"
  by (induction cs ns rule: list_induct2) auto

lemma dur_units_ok:
  "\<forall>c \<in> set dur_units. \<not> is_digit c \<and> \<not> is_space c" "distinct (map char_lower dur_units)"
  by (simp_all add: dur_units_def is_digit_def is_space_def char_lower_def Let_def)

definition nat_fields :: "nat \<Rightarrow> nat \<Rightarrow> nat \<Rightarrow> nat \<Rightarrow> nat \<Rightarrow> nat \<Rightarrow> int \<Rightarrow> duration_fields" where
  "nat_fields y w d h m s ns = \<lparr>nanoSecs_p = ns, seconds_p = int s, minutes_p = int m, hours_p = int h,
     days_p = int d, weeks_p = int w, years_p = int y\<rparr>"

lemma dur_part_nat: "dur_part (int n) [c, CHR '' ''] = dur_raw [c] [n]"
  by (simp add: dur_part_def int_str_def)

lemma fields_toString_nat:
  "fields_toString (nat_fields y w d h m s ns) =
     (if dur_text dur_units [y, w, d, h, m, s] = [] then ''0S'' else dur_text dur_units [y, w, d, h, m, s])"
proof -
  let ?ns = "[y, w, d, h, m, s]" and ?t = "dur_text dur_units [y, w, d, h, m, s]"
  let ?raw = "dur_raw ''YWDHM'' [y, w, d, h, m]"
  have full: "fields_toString (nat_fields y w d h m s ns) = qs_simplified (?raw @
      (if s \<noteq> 0 then nat_str s @ ''S''
       else if y = 0 \<and> w = 0 \<and> d = 0 \<and> h = 0 \<and> m = 0 then ''0S'' else []))"
    by (simp add: fields_toString_def nat_fields_def dur_part_def int_str_def)
  have snoc0: "s = 0 \<Longrightarrow> ?t = dur_text ''YWDHM'' [y, w, d, h, m]"
    using dur_text_snoc0 [of "''YWDHM''" "[y, w, d, h, m]" "CHR ''S''"] by (simp add: dur_units_def)
  have snoc: "s \<noteq> 0 \<Longrightarrow> ?t = ?raw @ nat_str s @ ''S''"
    using dur_text_snoc [of "''YWDHM''" "[y, w, d, h, m]" s "CHR ''S''"] by (simp add: dur_units_def)
  have nil: "?t = [] \<longleftrightarrow> y = 0 \<and> w = 0 \<and> d = 0 \<and> h = 0 \<and> m = 0 \<and> s = 0"
    by (simp add: dur_text_Nil_iff dur_units_def)
  have zero: "qs_simplified ''0S'' = ''0S''" by code_simp
  show ?thesis
  proof (cases "?t = []")
    case True
    with nil have "y = 0" "w = 0" "d = 0" "h = 0" "m = 0" "s = 0" by auto
    then show ?thesis using True full zero by simp
  next
    case False
    have tidy: "qs_simplified (?t @ r) = ?t" if "\<forall>c \<in> set r. is_space c" for r
    proof (rule simplified_tidy [OF _ False _ that])
      show "tidy ?t" using dur_units_ok by (intro dur_text_tidy) auto
      obtain k c u where "?t = nat_str k @ c # u" using dur_text_head [OF False] by blast
      then show "\<not> is_space (hd ?t)" using hd_nat_str_digit digit_not_space by metis
    qed
    have raw: "?raw = (if dur_text ''YWDHM'' [y, w, d, h, m] = [] then []
        else dur_text ''YWDHM'' [y, w, d, h, m] @ '' '')"
      by (rule dur_raw_text) simp
    have sp: "is_space (CHR '' '')" by code_simp
    show ?thesis
    proof (cases "s = 0")
      case True
      with False nil have nz: "\<not> (y = 0 \<and> w = 0 \<and> d = 0 \<and> h = 0 \<and> m = 0)" by simp
      have "?raw = ?t @ '' ''" using raw snoc0 [OF True] False by (simp del: dur_raw.simps dur_text.simps)
      moreover have "fields_toString (nat_fields y w d h m s ns) = qs_simplified (?raw @ [])"
        unfolding full by (intro arg_cong [where f = "\<lambda>x. qs_simplified (?raw @ x)"]) (use True nz in auto)
      ultimately have "fields_toString (nat_fields y w d h m s ns) = qs_simplified (?t @ '' '')"
        by (simp only: append_Nil2)
      then show ?thesis using tidy [of "'' ''"] sp False by (simp del: dur_text.simps)
    next
      case s: False
      have "fields_toString (nat_fields y w d h m s ns) = qs_simplified (?t @ [])"
        unfolding full using s snoc [OF s] by (simp del: dur_raw.simps dur_text.simps)
      then show ?thesis using tidy [of "[]"] False by (simp del: dur_text.simps)
    qed
  qed
qed


section \<open>The split of the total\<close>

definition fields_of :: "nat \<Rightarrow> duration_fields" where
  "fields_of n = nat_fields (n div 31536000000000000) (n div 86400000000000 mod 365 div 7)
     (n div 86400000000000 mod 365 mod 7) (n div 3600000000000 mod 24) (n div 60000000000 mod 60)
     (n div 1000000000 mod 60) (int (n mod 1000000000))"

lemma mod_mult_div: "(k::nat) mod (a * b) div a = k div a mod b"
proof (cases "a = 0")
  case False
  then show ?thesis by (simp add: mod_mult2_eq)
qed simp

lemma day_hour: "(n div 1000000) mod 86400000 div 3600000 = n div 3600000000000 mod (24::nat)"
  using mod_mult_div [of "n div 1000000" 3600000 24] by (simp add: div_mult2_eq [symmetric])

lemma day_minute: "(n div 1000000) mod 86400000 div 60000 mod 60 = n div 60000000000 mod (60::nat)"
  using mod_mult_div [of "n div 1000000" 60000 1440]
  by (simp add: div_mult2_eq [symmetric] mod_mod_cancel)

lemma day_second: "(n div 1000000) mod 86400000 div 1000 mod 60 = n div 1000000000 mod (60::nat)"
  using mod_mult_div [of "n div 1000000" 1000 86400]
  by (simp add: div_mult2_eq [symmetric] mod_mod_cancel)

lemma duration_of_nsecs_fields:
  "duration_of_nsecs qt4_hms w = \<lparr>totalNanoSecs_p = w, dur_fields = Some (fields_of (unat w))\<rparr>"
proof -
  define n where "n = unat w"
  have w: "uint w = int n" by (simp add: n_def)
  have h: "int n div 1000000 mod 86400000 div 3600000 = int (n div 3600000000000 mod 24)"
    "int n div 1000000 mod 86400000 div 60000 mod 60 = int (n div 60000000000 mod 60)"
    "int n div 1000000 mod 86400000 div 1000 mod 60 = int (n div 1000000000 mod 60)"
    by (simp_all only: day_hour [of n, symmetric] day_minute [of n, symmetric] day_second [of n, symmetric]
        of_nat_div of_nat_mod of_nat_numeral)
  have y: "int n div 86400000000000 div 365 = int (n div 31536000000000000)"
    by (simp add: zdiv_zmult2_eq [symmetric] zdiv_int)
  show ?thesis
    unfolding duration_of_nsecs_def w n_def [symmetric]
    by (simp add: qt4_hms_def duration_consts Let_def fields_of_def nat_fields_def h y
        zdiv_int zmod_int)
qed

lemma split_total:
  "n - n mod 1000000000 =
     n div 31536000000000000 * 31536000000000000 +
     (n div 86400000000000 mod 365 div 7) * 604800000000000 +
     (n div 86400000000000 mod 365 mod 7) * 86400000000000 +
     (n div 3600000000000 mod 24) * 3600000000000 +
     (n div 60000000000 mod 60) * 60000000000 + (n div 1000000000 mod 60) * (1000000000::nat)"
proof -
  define s where "s = n div 1000000000"
  define m where "m = s div 60"
  define h where "h = m div 60"
  define d where "d = h div 24"
  define r where "r = d mod 365"
  have e: "n - n mod 1000000000 = s * 1000000000" by (simp add: s_def minus_mod_eq_div_mult)
  have q: "n div 60000000000 = m" "n div 3600000000000 = h" "n div 86400000000000 = d"
      "n div 31536000000000000 = d div 365"
    by (simp_all add: s_def m_def h_def d_def div_mult2_eq [symmetric])
  have "s = m * 60 + s mod 60" "m = h * 60 + m mod 60" "h = d * 24 + h mod 24"
      "d = d div 365 * 365 + r" "r = r div 7 * 7 + r mod 7"
    by (simp_all only: m_def h_def d_def r_def div_mult_mod_eq)
  then show ?thesis unfolding e q s_def [symmetric] r_def [symmetric] by linarith
qed


lemma match_text:
  assumes "dur_text dur_units [y, w, d, h, m, s] = t" and "t \<noteq> []"
  shows "dur_match (qs_simplified t) = Some (map (\<lambda>n. if n = 0 then [] else nat_str n) [y, w, d, h, m, s])"
proof -
  have sp: "\<forall>c \<in> set dur_units. \<not> is_space c" using dur_units_ok by blast
  have "\<not> is_space (hd t)"
    using dur_text_head [of dur_units "[y, w, d, h, m, s]"] assms hd_nat_str_digit digit_not_space by metis
  then have "qs_simplified (t @ []) = t"
    using assms dur_text_tidy [OF sp, of "[y, w, d, h, m, s]"] by (intro simplified_tidy) auto
  moreover have "dur_groups dur_units t = (map (\<lambda>n. if n = 0 then [] else nat_str n) [y, w, d, h, m, s], [])"
    unfolding assms(1) [symmetric] by (rule dur_groups_text) (simp_all add: dur_units_ok, simp add: dur_units_def)
  ultimately show ?thesis using assms(2) by (simp add: dur_match_def)
qed

lemma toLongLong_nat: "int n < 2 ^ 63 \<Longrightarrow> qs_toLongLong (if n = 0 then [] else nat_str n) = int n"
  using str_nat_nat_str [of n] by (cases "n = 0") (simp_all add: qs_toLongLong_def, simp_all add: str_nat_def)

lemma of_string_text:
  assumes "dur_text dur_units [y, w, d, h, m, s] = t" and "t \<noteq> []"
    and "\<forall>k \<in> {y, w, d, h, m, s}. int k < 2 ^ 63"
  shows "duration_of_string hms t = duration_of_nsecs hms (word_of_int
      (int y * 31536000000000000 + int w * 604800000000000 + int d * 86400000000000 +
       int h * 3600000000000 + int m * 60000000000 + int s * 1000000000))"
  using assms(3)
  by (simp add: duration_of_string_def match_text [OF assms(1,2)] toLongLong_nat duration_consts
      del: One_nat_def)

lemma of_string_zero: "duration_of_string hms ''0S'' = duration_of_nsecs hms 0" "isDuration ''0S''"
proof -
  have m: "dur_match (qs_simplified ''0S'') = Some [[], [], [], [], [], ''0'']" by code_simp
  have z: "qs_toLongLong [] = 0" "qs_toLongLong ''0'' = 0" by code_simp+
  show "duration_of_string hms ''0S'' = duration_of_nsecs hms 0"
    by (simp add: duration_of_string_def m z)
  show "isDuration ''0S''" by (simp add: isDuration_def m)
qed

lemma whole_seconds: "w - w mod 1000000000 = (word_of_int (int (unat w - unat w mod 1000000000)) :: 64 word)"
proof -
  have "word_of_nat (unat w mod 1000000000) = w mod (1000000000 :: 64 word)"
    using word_arith_nat_mod [of w 1000000000] by simp
  then show ?thesis by (simp add: of_nat_diff)
qed

lemma parts_small:
  assumes "n < 2 ^ 64"
  shows "\<forall>k \<in> {n div 31536000000000000, n div 86400000000000 mod 365 div 7, n div 86400000000000 mod 365 mod 7,
    n div 3600000000000 mod 24, n div 60000000000 mod 60, n div 1000000000 mod 60}. int k < 2 ^ 63"
proof -
  have y: "n div 31536000000000000 < 585" by (rule less_mult_imp_div_less) (use assms in simp)
  have w: "n div 86400000000000 mod 365 div 7 < 53"
    by (rule less_mult_imp_div_less, rule less_le_trans [OF mod_less_divisor]) simp_all
  have m: "n div 86400000000000 mod 365 mod 7 < 7" "n div 3600000000000 mod 24 < 24"
    "n div 60000000000 mod 60 < 60" "n div 1000000000 mod 60 < 60"
    by (rule mod_less_divisor, simp)+
  have "int k < 2 ^ 63" if "k < 585" for k :: nat using that by simp
  then show ?thesis using y w m by auto
qed


text \<open>Under Qt 5's clock, the one the build uses, every duration prints negative hours,
  minutes and seconds, so the printed form of a whole number of days is no duration.\<close>

lemma duration_qt5_broken:
  "(\<exists>f. dur_fields (duration_of_nsecs qt5_hms w) = Some f \<and> hours_p f = -1 \<and> minutes_p f = -1 \<and> seconds_p f = -1) \<and>
   duration_toString (duration_of_nsecs qt5_hms 0) = Some ''-1H -1M -1S'' \<and>
   \<not> isDuration ''-1H -1M -1S''"
proof (intro conjI)
  show "duration_toString (duration_of_nsecs qt5_hms 0) = Some ''-1H -1M -1S''"
    by code_simp
  show "\<not> isDuration ''-1H -1M -1S''" by code_simp
qed (simp add: duration_of_nsecs_def qt5_hms_def Let_def)

end
