(* ===== verification/Service_Backend.thy ===== *)
theory Service_Backend
  imports Prop_Adaptor
begin

text \<open>
  \<open>ServiceBackend\<close>, \<open>Service\<close> and \<open>Property\<close> (servicebackend.cpp, service.cpp,
  property.cpp): the objects a provider puts on D-Bus. A backend keeps one property with its
  adaptor per key, the object paths it has registered and whether it owns its bus name; what
  D-Bus answers to a registration is the parameter record \<open>dbus_answers\<close>. An empty bus
  name means that the connection is shared with the provider program.
\<close>

record backend =
  sb_refCount :: int
  sb_busName :: string
  sb_props :: "(key \<times> adaptor) list"
  sb_registered :: "string list"
  sb_nameOwned :: bool

record dbus_answers =
  db_registerObject :: "string \<Rightarrow> bool"
  db_registerService :: "string \<Rightarrow> bool"
  db_foreignObject :: "string \<Rightarrow> bool"

type_synonym sb_outs = "(key \<times> pp_out) list"

definition sb_new :: "string \<Rightarrow> backend" where
  "sb_new busName = \<lparr>sb_refCount = 0, sb_busName = busName, sb_props = [], sb_registered = [], sb_nameOwned = False\<rparr>"

definition sb_sharedConnection :: "backend \<Rightarrow> bool" where
  "sb_sharedConnection b = (sb_busName b = [])"

definition sb_registerProperty :: "dbus_answers \<Rightarrow> key \<Rightarrow> backend \<Rightarrow> bool \<times> backend" where
  "sb_registerProperty D key b =
     (let path = pa_objectPath key
      in if path \<in> set (sb_registered b) \<or> db_foreignObject D path then (True, b)
         else if \<not> db_registerObject D path then (False, b)
         else (True, b\<lparr>sb_registered := qset_insert path (sb_registered b)\<rparr>))"

definition sb_addProperty :: "dbus_answers \<Rightarrow> key \<Rightarrow> prop_private \<Rightarrow> backend \<Rightarrow> backend" where
  "sb_addProperty D key p b =
     snd (sb_registerProperty D key (b\<lparr>sb_props := amap_insert key (pa_new p) (sb_props b)\<rparr>))"

definition sb_setValue :: "qt_lib \<Rightarrow> 64 word \<Rightarrow> key \<Rightarrow> qvariant \<Rightarrow> backend \<Rightarrow> backend \<times> sb_outs" where
  "sb_setValue Q now key v b = (case map_of (sb_props b) key of
      Some a \<Rightarrow> (case pa_lift (pp_setValue Q now v) a of
        (a1, os) \<Rightarrow> (b\<lparr>sb_props := amap_insert key a1 (sb_props b)\<rparr>, map (Pair key) os))
    | None \<Rightarrow> (b, []))"

text \<open>\<open>stop\<close>: give up the bus name, forget the clients and unregister the objects.\<close>

fun sb_stopAll :: "(key \<times> adaptor) list \<Rightarrow> (key \<times> adaptor) list \<times> sb_outs" where
  "sb_stopAll [] = ([], [])"
| "sb_stopAll ((k, a) # r) = (case pa_forgetClients a of (a1, o1) \<Rightarrow>
     case sb_stopAll r of (r1, o2) \<Rightarrow> ((k, a1) # r1, map (Pair k) o1 @ o2))"

definition sb_stop :: "backend \<Rightarrow> backend \<times> sb_outs" where
  "sb_stop b =
     (let b1 = (if \<not> sb_sharedConnection b then b\<lparr>sb_nameOwned := False\<rparr> else b)
      in case sb_stopAll (sb_props b1) of (ps, os) \<Rightarrow>
         (b1\<lparr>sb_props := ps,
             sb_registered := fold (\<lambda>e. qset_remove (pa_objectPath (fst e))) (sb_props b1) (sb_registered b1)\<rparr>, os))"

fun sb_registerAll :: "dbus_answers \<Rightarrow> key list \<Rightarrow> backend \<Rightarrow> bool \<times> backend" where
  "sb_registerAll D [] b = (True, b)"
| "sb_registerAll D (k # ks) b = (case sb_registerProperty D k b of
      (ok, b1) \<Rightarrow> if \<not> ok then (False, b1) else sb_registerAll D ks b1)"

definition sb_start :: "dbus_answers \<Rightarrow> backend \<Rightarrow> bool \<times> backend \<times> sb_outs" where
  "sb_start D b = (case sb_registerAll D (amap_keys (sb_props b)) b of (ok, b1) \<Rightarrow>
      if \<not> ok then (False, b1, [])
      else if \<not> sb_sharedConnection b1 then
        (if \<not> db_registerService D (sb_busName b1) then (case sb_stop b1 of (b2, os) \<Rightarrow> (False, b2, os))
         else (True, b1\<lparr>sb_nameOwned := True\<rparr>, []))
      else (True, b1, []))"

definition sb_ref :: "backend \<Rightarrow> backend" where
  "sb_ref b = b\<lparr>sb_refCount := sb_refCount b + 1\<rparr>"

definition sb_unref :: "backend \<Rightarrow> backend \<times> sb_outs" where
  "sb_unref b = (let b1 = b\<lparr>sb_refCount := sb_refCount b - 1\<rparr>
     in if sb_refCount b1 = 0 then sb_stop b1 else (b1, []))"

section \<open>The instances and Service\<close>

record services =
  sv_instances :: "(string \<times> backend) list"
  sv_default :: "string option"

definition sv_put :: "string \<Rightarrow> backend \<Rightarrow> services \<Rightarrow> services" where
  "sv_put l b sv = sv\<lparr>sv_instances := amap_insert l b (sv_instances sv)\<rparr>"

definition sv_instance_connection :: "dbus_answers \<Rightarrow> string \<Rightarrow> services \<Rightarrow> backend \<times> services" where
  "sv_instance_connection D lookup sv = (case map_of (sv_instances sv) lookup of
      Some b \<Rightarrow> (b, sv)
    | None \<Rightarrow> (let b = fst (snd (sb_start D (sb_new []))) in (b, sv_put lookup b sv)))"

definition sv_lookup :: "bus_type \<Rightarrow> string \<Rightarrow> string" where
  "sv_lookup busType busName =
     ''contextprovider_'' @ (if busType = SessionBus then ''session'' else ''system'') @ busName"

definition sv_instance_bus ::
    "dbus_answers \<Rightarrow> bus_type \<Rightarrow> string \<Rightarrow> bool \<Rightarrow> services \<Rightarrow> backend \<times> services \<times> sb_outs" where
  "sv_instance_bus D busType busName autoStart sv =
     (let lookup = sv_lookup busType busName;
          b = (case map_of (sv_instances sv) lookup of Some b \<Rightarrow> b | None \<Rightarrow> sb_new busName);
          (b1, os) = (if autoStart then snd (sb_start D b) else (b, []))
      in (b1, sv_put lookup b1 sv, os))"

definition service_of_connection :: "dbus_answers \<Rightarrow> string \<Rightarrow> services \<Rightarrow> services" where
  "service_of_connection D lookup sv = (case sv_instance_connection D lookup sv of
     (b, sv1) \<Rightarrow> sv_put lookup (sb_ref b) sv1)"

definition service_of_bus :: "dbus_answers \<Rightarrow> bus_type \<Rightarrow> string \<Rightarrow> bool \<Rightarrow> services \<Rightarrow> services \<times> sb_outs" where
  "service_of_bus D busType busName autoStart sv = (case sv_instance_bus D busType busName autoStart sv of
     (b, sv1, os) \<Rightarrow> (sv_put (sv_lookup busType busName) (sb_ref b) sv1, os))"

definition service_delete :: "string \<Rightarrow> services \<Rightarrow> services \<times> sb_outs" where
  "service_delete lookup sv = (case map_of (sv_instances sv) lookup of
      Some b \<Rightarrow> (case sb_unref b of (b1, os) \<Rightarrow> (sv_put lookup b1 sv, os))
    | None \<Rightarrow> (sv, []))"

definition service_setAsDefault :: "string \<Rightarrow> services \<Rightarrow> services" where
  "service_setAsDefault lookup sv = (if sv_default sv \<noteq> None then sv else sv\<lparr>sv_default := Some lookup\<rparr>)"

text \<open>\<open>None\<close>: the call aborts the program.\<close>

definition service_restart :: "dbus_answers \<Rightarrow> backend \<Rightarrow> (backend \<times> sb_outs) option" where
  "service_restart D b =
     (if sb_sharedConnection b then None
      else case sb_stop b of (b1, o1) \<Rightarrow> case sb_start D b1 of (_, b2, o2) \<Rightarrow> Some (b2, o1 @ o2))"

section \<open>Property\<close>

definition prop_init :: "dbus_answers \<Rightarrow> 64 word \<Rightarrow> key \<Rightarrow> backend \<Rightarrow> backend" where
  "prop_init D now key b =
     (if map_of (sb_props b) key \<noteq> None then b else sb_addProperty D key (pp_new now key) b)"

definition prop_default :: "dbus_answers \<Rightarrow> 64 word \<Rightarrow> key \<Rightarrow> services \<Rightarrow> services option" where
  "prop_default D now key sv = (case sv_default sv of None \<Rightarrow> None
    | Some l \<Rightarrow> (case map_of (sv_instances sv) l of None \<Rightarrow> None
        | Some b \<Rightarrow> Some (sv_put l (prop_init D now key b) sv)))"

definition prop_value :: "key \<Rightarrow> backend \<Rightarrow> qvariant" where
  "prop_value key b = (case map_of (sb_props b) key of Some a \<Rightarrow> pp_value (pa_property a) | None \<Rightarrow> VInvalid)"

definition prop_isSet :: "key \<Rightarrow> backend \<Rightarrow> bool" where
  "prop_isSet key b = (\<not> qv_isNull (prop_value key b))"

definition prop_unsetValue :: "qt_lib \<Rightarrow> 64 word \<Rightarrow> key \<Rightarrow> backend \<Rightarrow> backend \<times> sb_outs" where
  "prop_unsetValue Q now key b = sb_setValue Q now key VInvalid b"

section \<open>Events of one backend\<close>

datatype sb_event =
    SBStart
  | SBStop
  | SBProperty "64 word" key
  | SBSet "64 word" key qvariant
  | SBClient key pa_event

fun sb_step :: "qt_lib \<Rightarrow> dbus_answers \<Rightarrow> sb_event \<Rightarrow> backend \<Rightarrow> backend \<times> sb_outs" where
  "sb_step Q D SBStart b = snd (sb_start D b)"
| "sb_step Q D SBStop b = sb_stop b"
| "sb_step Q D (SBProperty now key) b = (prop_init D now key b, [])"
| "sb_step Q D (SBSet now key v) b = sb_setValue Q now key v b"
| "sb_step Q D (SBClient key e) b = (case map_of (sb_props b) key of
      Some a \<Rightarrow> (case pa_step Q e a of
        (a1, os) \<Rightarrow> (b\<lparr>sb_props := amap_insert key a1 (sb_props b)\<rparr>, map (Pair key) os))
    | None \<Rightarrow> (b, []))"

definition sb_ok :: "backend \<Rightarrow> bool" where
  "sb_ok b = (distinct (map fst (sb_props b)) \<and> (\<forall>e \<in> set (sb_props b). pa_ok (snd e)) \<and>
     set (sb_registered b) \<subseteq> pa_objectPath ` fst ` set (sb_props b))"

lemma amap_insert_entries: "e \<in> set (amap_insert k v m) \<Longrightarrow> e = (k, v) \<or> e \<in> set m"
  by (induction k v m rule: amap_insert.induct) (auto split: if_splits)

lemma registerProperty_frame:
  assumes "sb_registerProperty D k b = (ok, b')"
  shows "sb_props b' = sb_props b \<and> sb_busName b' = sb_busName b \<and> sb_nameOwned b' = sb_nameOwned b \<and>
    set (sb_registered b) \<subseteq> set (sb_registered b') \<and>
    set (sb_registered b') \<subseteq> insert (pa_objectPath k) (set (sb_registered b)) \<and>
    (ok \<longrightarrow> pa_objectPath k \<in> set (sb_registered b') \<or> db_foreignObject D (pa_objectPath k)) \<and>
    (\<not> ok \<longrightarrow> \<not> db_registerObject D (pa_objectPath k))"
  using assms by (auto simp: sb_registerProperty_def Let_def split: if_splits)

lemma registerAll_frame:
  assumes "sb_registerAll D ks b = (ok, b')"
  shows "sb_props b' = sb_props b \<and> sb_busName b' = sb_busName b \<and> sb_nameOwned b' = sb_nameOwned b \<and>
    set (sb_registered b) \<subseteq> set (sb_registered b') \<and>
    set (sb_registered b') \<subseteq> pa_objectPath ` set ks \<union> set (sb_registered b) \<and>
    (ok \<longrightarrow> (\<forall>k \<in> set ks. pa_objectPath k \<in> set (sb_registered b') \<or> db_foreignObject D (pa_objectPath k))) \<and>
    (\<not> ok \<longrightarrow> (\<exists>k \<in> set ks. \<not> db_registerObject D (pa_objectPath k)))"
  using assms
proof (induction ks arbitrary: b)
  case (Cons k ks)
  obtain ok1 b1 where 1: "sb_registerProperty D k b = (ok1, b1)" by (cases "sb_registerProperty D k b")
  note f = registerProperty_frame [OF 1]
  show ?case
  proof (cases ok1)
    case False
    then show ?thesis using Cons.prems 1 f by auto
  next
    case True
    then have "sb_registerAll D ks b1 = (ok, b')" using Cons.prems 1 by simp
    from Cons.IH [OF this] f True show ?thesis by auto
  qed
qed auto

lemma stopAll_props:
  assumes "sb_stopAll ps = (ps', os)"
  shows "map fst ps' = map fst ps \<and>
    (\<forall>e \<in> set ps'. clientServiceNames (snd e) = [] \<and> \<not> pp_subscribed (pa_property (snd e))) \<and>
    map (\<lambda>e. pp_value (pa_property (snd e))) ps' = map (\<lambda>e. pp_value (pa_property (snd e))) ps \<and>
    os = map (\<lambda>e. (fst e, LastSubscriberDisappeared (pp_key (pa_property (snd e)))))
      (filter (\<lambda>e. pp_subscribed (pa_property (snd e))) ps) \<and>
    ((\<forall>e \<in> set ps. pa_ok (snd e)) \<longrightarrow> (\<forall>e \<in> set ps'. pa_ok (snd e)))"
  using assms
proof (induction ps arbitrary: ps' os)
  case (Cons e ps)
  obtain k a where e: "e = (k, a)" by (cases e)
  obtain ps1 o1 where 1: "sb_stopAll ps = (ps1, o1)" by (cases "sb_stopAll ps")
  obtain a1 oa where a: "pa_forgetClients a = (a1, oa)" by (cases "pa_forgetClients a")
  have "pa_ok a \<Longrightarrow> pa_ok a1" using pa_step_ok [of a undefined PAForget] a by simp
  then show ?case using Cons.IH [OF 1] Cons.prems 1 a
    by (auto simp: e pa_forgetClients_def pa_lift_def pp_setUnsubscribed_def split: if_splits)
qed simp

lemma fold_unregister: "set (fold (\<lambda>e. qset_remove (f (fst e))) es xs) = set xs - f ` fst ` set es"
  by (induction es arbitrary: xs) auto

text \<open>What \<open>stop\<close> leaves.\<close>

lemma sb_stop_spec:
  assumes "sb_stop b = (b', os)"
  shows "map fst (sb_props b') = map fst (sb_props b) \<and>
    set (sb_registered b') = set (sb_registered b) - pa_objectPath ` fst ` set (sb_props b) \<and>
    (\<not> sb_sharedConnection b \<longrightarrow> \<not> sb_nameOwned b') \<and> sb_busName b' = sb_busName b \<and>
    (\<forall>e \<in> set (sb_props b'). clientServiceNames (snd e) = [] \<and> \<not> pp_subscribed (pa_property (snd e))) \<and>
    map (\<lambda>e. pp_value (pa_property (snd e))) (sb_props b') = map (\<lambda>e. pp_value (pa_property (snd e))) (sb_props b) \<and>
    os = map (\<lambda>e. (fst e, LastSubscriberDisappeared (pp_key (pa_property (snd e)))))
      (filter (\<lambda>e. pp_subscribed (pa_property (snd e))) (sb_props b)) \<and>
    ((\<forall>e \<in> set (sb_props b). pa_ok (snd e)) \<longrightarrow> (\<forall>e \<in> set (sb_props b'). pa_ok (snd e)))"
proof -
  obtain ps os' where s: "sb_stopAll (sb_props b) = (ps, os')" by (cases "sb_stopAll (sb_props b)")
  note p = stopAll_props [OF s]
  have b': "sb_props b' = ps" "os = os'" "sb_busName b' = sb_busName b"
      "sb_registered b' = fold (\<lambda>e. qset_remove (pa_objectPath (fst e))) (sb_props b) (sb_registered b)"
      "\<not> sb_sharedConnection b \<longrightarrow> \<not> sb_nameOwned b'"
    using assms s by (auto simp: sb_stop_def Let_def split: if_splits)
  show ?thesis unfolding b' using p b'(5) by (simp add: fold_unregister)
qed

lemma sb_stop_ok: "sb_ok b \<Longrightarrow> sb_ok (fst (sb_stop b))"
proof -
  assume ok: "sb_ok b"
  obtain b' os where s: "sb_stop b = (b', os)" by (cases "sb_stop b")
  note f = sb_stop_spec [OF s]
  have "fst ` set (sb_props b') = fst ` set (sb_props b)" using f by (metis list.set_map)
  then show ?thesis using f ok by (simp add: s sb_ok_def) blast
qed

lemma sb_start_ok: "sb_ok b \<Longrightarrow> sb_ok (fst (snd (sb_start D b)))"
proof -
  assume ok: "sb_ok b"
  obtain r b1 where 1: "sb_registerAll D (amap_keys (sb_props b)) b = (r, b1)"
    by (cases "sb_registerAll D (amap_keys (sb_props b)) b")
  have ok1: "sb_ok b1" using registerAll_frame [OF 1] ok by (auto simp: sb_ok_def amap_keys_def)
  then have "sb_ok (b1\<lparr>sb_nameOwned := True\<rparr>)" by (simp add: sb_ok_def)
  then show ?thesis using ok1 sb_stop_ok [OF ok1] by (auto simp: sb_start_def 1 split: prod.splits)
qed

lemma sb_put_ok: "sb_ok b \<Longrightarrow> map_of (sb_props b) k = Some a \<Longrightarrow> pa_ok a1 \<Longrightarrow>
    sb_ok (b\<lparr>sb_props := amap_insert k a1 (sb_props b)\<rparr>)"
  by (auto simp: sb_ok_def dest!: amap_insert_entries)

lemma prop_init_ok: "sb_ok b \<Longrightarrow> sb_ok (prop_init D now k b)"
proof (cases "map_of (sb_props b) k")
  case None
  assume ok: "sb_ok b"
  define b1 where "b1 = b\<lparr>sb_props := amap_insert k (pa_new (pp_new now k)) (sb_props b)\<rparr>"
  have "sb_ok b1" using ok
    by (auto simp: sb_ok_def b1_def pa_ok_def pa_new_def pp_new_def dest!: amap_insert_entries)
  moreover have "k \<in> fst ` set (sb_props b1)" by (simp add: b1_def)
  moreover obtain r b2 where 2: "sb_registerProperty D k b1 = (r, b2)" by (cases "sb_registerProperty D k b1")
  note f = registerProperty_frame [OF 2]
  then have "set (sb_registered b2) \<subseteq> insert (pa_objectPath k) (set (sb_registered b1))" "sb_props b2 = sb_props b1"
    by blast+
  ultimately have "sb_ok (snd (sb_registerProperty D k b1))"
    unfolding sb_ok_def 2 snd_conv by (metis (no_types, lifting) image_eqI insert_subset subset_trans)
  then show ?thesis using None by (simp add: prop_init_def sb_addProperty_def b1_def)
qed (simp add: prop_init_def)

lemma sb_get_ok: "sb_ok b \<Longrightarrow> map_of (sb_props b) k = Some a \<Longrightarrow> pa_ok a"
  by (auto simp: sb_ok_def dest!: map_of_SomeD)

lemma sb_update_ok: "sb_ok b \<Longrightarrow> map_of (sb_props b) k = Some a \<Longrightarrow>
    sb_ok (b\<lparr>sb_props := amap_insert k (fst (pa_step Q x a)) (sb_props b)\<rparr>)"
  by (rule sb_put_ok) (simp_all add: sb_get_ok pa_step_ok)

lemma sb_step_ok: "sb_ok b \<Longrightarrow> sb_ok (fst (sb_step Q D e b))"
proof (cases e)
  case (SBSet now k v)
  assume ok: "sb_ok b"
  show ?thesis
  proof (cases "map_of (sb_props b) k")
    case (Some a)
    then show ?thesis unfolding SBSet
      using sb_update_ok [OF ok Some, of Q "PASet now v"] by (simp add: sb_setValue_def case_prod_unfold)
  qed (use SBSet ok in \<open>simp add: sb_setValue_def\<close>)
next
  case (SBClient k x)
  assume ok: "sb_ok b"
  show ?thesis
  proof (cases "map_of (sb_props b) k")
    case (Some a)
    then show ?thesis unfolding SBClient
      using sb_update_ok [OF ok Some, of Q x] by (simp add: case_prod_unfold)
  qed (use SBClient ok in simp)
qed (simp_all add: sb_start_ok sb_stop_ok prop_init_ok)

text \<open>C32: stopping a service takes everything off the bus. In every state a backend can reach, after
  \<open>stop\<close> none of its objects is registered and no property has a client or counts as
  subscribed, the last-subscriber signal has been sent exactly once for each property that was
  subscribed, and all values are kept for the next start.\<close>

theorem stop_clears:
  assumes "b = fst (ev_run (sb_step Q D) es (sb_new busName))" and "sb_stop b = (b', os)"
  shows "sb_registered b' = [] \<and>
    (\<forall>e \<in> set (sb_props b'). clientServiceNames (snd e) = [] \<and> \<not> pp_subscribed (pa_property (snd e))) \<and>
    os = map (\<lambda>e. (fst e, LastSubscriberDisappeared (pp_key (pa_property (snd e)))))
      (filter (\<lambda>e. clientServiceNames (snd e) \<noteq> []) (sb_props b)) \<and>
    (\<forall>k. prop_value k b' = prop_value k b)"
proof -
  have "sb_ok (sb_new busName)" by (simp add: sb_ok_def sb_new_def)
  then have ok: "sb_ok b" unfolding assms(1) by (rule ev_run_inv [rotated]) (rule sb_step_ok)
  note f = sb_stop_spec [OF assms(2)]
  have "set (sb_registered b') = {}" using f ok by (auto simp: sb_ok_def)
  then have "sb_registered b' = []" by simp
  moreover have "filter (\<lambda>e. pp_subscribed (pa_property (snd e))) (sb_props b) =
      filter (\<lambda>e. clientServiceNames (snd e) \<noteq> []) (sb_props b)"
    using ok by (intro filter_cong refl) (auto simp: sb_ok_def pa_ok_def)
  moreover have "prop_value k b' = prop_value k b" for k
  proof -
    have "map fst xs = map fst ys \<Longrightarrow>
        map (\<lambda>e. pp_value (pa_property (snd e))) xs = map (\<lambda>e. pp_value (pa_property (snd e))) ys \<Longrightarrow>
        map_option (\<lambda>a. pp_value (pa_property a)) (map_of xs k) =
        map_option (\<lambda>a. pp_value (pa_property a)) (map_of ys k)" for xs ys :: "(key \<times> adaptor) list"
    proof (induction xs arbitrary: ys)
      case (Cons x xs)
      then show ?case by (cases ys; cases x; cases "hd ys") auto
    qed simp
    from this [of "sb_props b'" "sb_props b"] f show ?thesis
      by (auto simp: prop_value_def split: option.splits)
  qed
  ultimately show ?thesis using f by simp
qed

definition all_granted :: dbus_answers where
  "all_granted = \<lparr>db_registerObject = (\<lambda>_. True), db_registerService = (\<lambda>_. True), db_foreignObject = (\<lambda>_. False)\<rparr>"

lemma stop_clears_witness:
  "sb_registered (fst (sb_stop (fst (ev_run (sb_step qt_ref all_granted) [SBProperty 1 ''A.b'', SBStart,
     SBClient ''A.b'' (PASubscribe '':1.1''), SBSet 2 ''A.b'' (VInt 3)] (sb_new ''org.x''))))) = []"
  using stop_clears [OF refl prod.collapse [symmetric], of qt_ref all_granted "[SBProperty 1 ''A.b'', SBStart,
     SBClient ''A.b'' (PASubscribe '':1.1''), SBSet 2 ''A.b'' (VInt 3)]" "''org.x''"] by blast

text \<open>C33: starting a service puts it completely on the bus, or fails: when \<open>start\<close> succeeds every
  property has its object registered and a service with its own connection owns its bus name,
  with all properties unchanged; it fails only when D-Bus refuses an object or the name, and a
  refused name takes the objects off the bus again.\<close>

theorem start_registers_all:
  assumes "sb_start D b = (ok, b', os)"
  shows "(ok \<longrightarrow> os = [] \<and> sb_props b' = sb_props b \<and>
      (\<forall>k \<in> fst ` set (sb_props b). pa_objectPath k \<in> set (sb_registered b') \<or> db_foreignObject D (pa_objectPath k)) \<and>
      (sb_busName b \<noteq> [] \<longrightarrow> sb_nameOwned b')) \<and>
    (\<not> ok \<longrightarrow> (\<exists>k \<in> fst ` set (sb_props b). \<not> db_registerObject D (pa_objectPath k)) \<or>
      (\<not> db_registerService D (sb_busName b) \<and> \<not> sb_nameOwned b' \<and>
       set (sb_registered b') \<inter> pa_objectPath ` fst ` set (sb_props b) = {}))"
proof -
  obtain r b1 where 1: "sb_registerAll D (amap_keys (sb_props b)) b = (r, b1)"
    by (cases "sb_registerAll D (amap_keys (sb_props b)) b")
  note f = registerAll_frame [OF 1]
  obtain b2 os2 where 2: "sb_stop b1 = (b2, os2)" by (cases "sb_stop b1")
  note g = sb_stop_spec [OF 2]
  have keys: "set (amap_keys (sb_props b)) = fst ` set (sb_props b)" by (simp add: amap_keys_def)
  have sh: "sb_sharedConnection b1 \<longleftrightarrow> sb_busName b = []" using f by (simp add: sb_sharedConnection_def)
  show ?thesis
  proof (cases "r \<and> sb_busName b \<noteq> [] \<and> \<not> db_registerService D (sb_busName b)")
    case True
    then have "ok = False" "b' = b2" using assms 1 2 f sh by (auto simp: sb_start_def)
    then show ?thesis using True f g sh by auto
  next
    case False
    then show ?thesis using assms 1 f sh keys by (auto simp: sb_start_def split: if_splits)
  qed
qed

lemma start_registers_all_witness:
  "sb_nameOwned (fst (snd (sb_start all_granted (fst (ev_run (sb_step qt_ref all_granted) [SBProperty 1 ''A.b''] (sb_new ''org.x''))))))"
proof -
  let ?b = "fst (ev_run (sb_step qt_ref all_granted) [SBProperty 1 ''A.b''] (sb_new ''org.x''))"
  obtain ok b' os where s: "sb_start all_granted ?b = (ok, b', os)" by (cases "sb_start all_granted ?b") auto
  have n: "sb_busName ?b = ''org.x''" by code_simp
  have "ok" using start_registers_all [OF s] by (auto simp: all_granted_def)
  then show ?thesis using start_registers_all [OF s] s n by simp
qed

lemma sb_stop_refCount: "sb_refCount (fst (sb_stop b)) = sb_refCount b"
  by (auto simp: sb_stop_def Let_def split: prod.splits)

text \<open>Deleting the last service on a shared connection stops its backend, and constructing a
  service on the connection again does not start it: the properties are still there but none of
  their objects is on the bus, although a service is in use.\<close>

lemma shared_service_not_restarted:
  assumes "map_of (sv_instances sv) l = Some b" and "sb_ok b" and "sb_refCount b = 1"
  shows "\<exists>b'. map_of (sv_instances (service_of_connection D l (fst (service_delete l sv)))) l = Some b' \<and>
    sb_refCount b' = 1 \<and> map fst (sb_props b') = map fst (sb_props b) \<and> sb_registered b' = []"
proof -
  define b0 where "b0 = b\<lparr>sb_refCount := 0\<rparr>"
  obtain b1 os where 1: "sb_stop b0 = (b1, os)" by (cases "sb_stop b0")
  note f = sb_stop_spec [OF 1]
  have "sb_ok b0" using assms(2) by (simp add: sb_ok_def b0_def)
  then have "set (sb_registered b1) = {}" using f by (auto simp: sb_ok_def)
  then have r: "sb_registered b1 = []" by simp
  have c: "sb_refCount b1 = 0" using sb_stop_refCount [of b0] 1 by (simp add: b0_def)
  have "sb_unref b = (b1, os)" using assms(3) 1 by (simp add: sb_unref_def Let_def b0_def)
  then have "map_of (sv_instances (service_of_connection D l (fst (service_delete l sv)))) l = Some (sb_ref b1)"
    using assms(1) by (simp add: service_delete_def service_of_connection_def sv_instance_connection_def sv_put_def)
  then show ?thesis using f r c by (simp add: sb_ref_def b0_def)
qed

lemma shared_service_not_restarted_witness:
  "\<exists>b'. map_of (sv_instances (service_of_connection all_granted ''conn'' (fst (service_delete ''conn''
     \<lparr>sv_instances = [(''conn'', sb_ref (prop_init all_granted 1 ''A.b'' (sb_new [])))], sv_default = None\<rparr>)))) ''conn'' = Some b' \<and>
     sb_refCount b' = 1 \<and> sb_registered b' = []"
proof -
  have "sb_ok (sb_new [])" by (simp add: sb_ok_def sb_new_def)
  then have "sb_ok (sb_ref (prop_init all_granted 1 ''A.b'' (sb_new [])))"
    using prop_init_ok [of "sb_new []" all_granted 1 "''A.b''"] by (simp add: sb_ok_def sb_ref_def)
  moreover have "sb_refCount (sb_ref (prop_init all_granted 1 ''A.b'' (sb_new []))) = 1" by code_simp
  ultimately show ?thesis
    using shared_service_not_restarted [of "\<lparr>sv_instances = [(''conn'', sb_ref (prop_init all_granted 1 ''A.b'' (sb_new [])))],
        sv_default = None\<rparr>" "''conn''" _ all_granted] by auto
qed

end
