(* ===== verification/Property_Group.thy ===== *)
theory Property_Group
  imports Service_Backend
begin

text \<open>
  \<open>Group\<close> (group.cpp) and the listeners of the C interface (listeners.cpp): a group counts the
  subscribed properties among its members and announces the first and the last one. The members
  are properties of one backend; their signals reach the group once for each time the group
  connected to the property.
\<close>

record group =
  propertiesSubscribedTo :: int
  g_properties :: "key list"
  g_connections :: "key list"

datatype group_out = GroupFirst | GroupLast

definition group_new :: group where
  "group_new = \<lparr>propertiesSubscribedTo = 0, g_properties = [], g_connections = []\<rparr>"

definition group_add :: "key \<Rightarrow> group \<Rightarrow> group" where
  "group_add k g = g\<lparr>g_properties := qset_insert k (g_properties g), g_connections := g_connections g @ [k]\<rparr>"

definition g_onFirstSubscriberAppeared :: "group \<Rightarrow> group \<times> group_out list" where
  "g_onFirstSubscriberAppeared g =
     (let g1 = g\<lparr>propertiesSubscribedTo := propertiesSubscribedTo g + 1\<rparr>
      in (g1, if propertiesSubscribedTo g1 = 1 then [GroupFirst] else []))"

definition g_onLastSubscriberDisappeared :: "group \<Rightarrow> group \<times> group_out list" where
  "g_onLastSubscriberDisappeared g =
     (let g1 = g\<lparr>propertiesSubscribedTo := propertiesSubscribedTo g - 1\<rparr>
      in (g1, if propertiesSubscribedTo g1 = 0 then [GroupLast] else []))"

definition group_isSubscribedTo :: "group \<Rightarrow> bool" where
  "group_isSubscribedTo g = (propertiesSubscribedTo g > 0)"

definition group_getProperties :: "group \<Rightarrow> key list" where
  "group_getProperties g = g_properties g"

text \<open>One delivery of a member's signal for each connection to it.\<close>

definition group_deliver :: "key \<times> pp_out \<Rightarrow> group \<Rightarrow> group \<times> group_out list" where
  "group_deliver s g =
     (let n = count_list (g_connections g) (fst s)
      in case snd s of
           FirstSubscriberAppeared _ \<Rightarrow> ev_run (\<lambda>_. g_onFirstSubscriberAppeared) (replicate n ()) g
         | LastSubscriberDisappeared _ \<Rightarrow> ev_run (\<lambda>_. g_onLastSubscriberDisappeared) (replicate n ()) g
         | PPValueChanged _ _ \<Rightarrow> (g, []))"

definition group_signals :: "(key \<times> pp_out) list \<Rightarrow> group \<Rightarrow> group \<times> group_out list" where
  "group_signals ss g = ev_run group_deliver ss g"

text \<open>A backend with one group: each event of the backend and the group's reaction.\<close>

definition bg_step :: "qt_lib \<Rightarrow> dbus_answers \<Rightarrow> sb_event \<Rightarrow> backend \<times> group \<Rightarrow> (backend \<times> group) \<times> group_out list" where
  "bg_step Q D e s = (case sb_step Q D e (fst s) of (b, os) \<Rightarrow>
     case group_signals os (snd s) of (g, gs) \<Rightarrow> ((b, g), gs))"

section \<open>Counting\<close>

definition subscribed_in :: "backend \<Rightarrow> key \<Rightarrow> bool" where
  "subscribed_in b k = (\<exists>a. map_of (sb_props b) k = Some a \<and> pp_subscribed (pa_property a))"

fun signal_delta :: "pp_out \<Rightarrow> int" where
  "signal_delta (FirstSubscriberAppeared _) = 1"
| "signal_delta (LastSubscriberDisappeared _) = -1"
| "signal_delta (PPValueChanged _ _) = 0"

definition key_delta :: "key \<Rightarrow> (key \<times> pp_out) list \<Rightarrow> int" where
  "key_delta k os = sum_list (map (\<lambda>s. if fst s = k then signal_delta (snd s) else 0) os)"

lemma delta_announced: "sum_list (map signal_delta os) =
    sum_list (map (\<lambda>b. if b then 1 else -1) (List.map_filter pp_announced os))"
proof (induction os)
  case (Cons x os)
  then show ?case by (cases x) (simp_all add: map_filter_def ex_bool_eq)
qed (simp add: map_filter_def)

lemma pa_step_delta: "pa_ok a \<Longrightarrow> pa_step Q e a = (a', os) \<Longrightarrow>
    sum_list (map signal_delta os) = of_bool (pp_subscribed (pa_property a')) - of_bool (pp_subscribed (pa_property a))"
  using client.step_edge [of a Q e a' os] by (simp add: delta_announced split: if_splits)

lemma key_delta_Pair: "key_delta k (map (Pair l) os) = (if l = k then sum_list (map signal_delta os) else 0)"
  by (induction os) (auto simp: key_delta_def)

lemma stop_delta: "distinct (map fst ps) \<Longrightarrow>
    key_delta k (map (\<lambda>e. (fst e, LastSubscriberDisappeared (f e)))
      (filter (\<lambda>e. pp_subscribed (pa_property (snd e))) ps)) =
    - of_bool (\<exists>a. map_of ps k = Some a \<and> pp_subscribed (pa_property a))"
proof (induction ps)
  case (Cons x ps)
  have none: "fst x = k \<Longrightarrow> map_of ps k = None" using Cons.prems by (simp add: map_of_eq_None_iff)
  show ?case using Cons none by (cases x) (auto simp: key_delta_def)
qed (simp add: key_delta_def)

lemma sb_stop_delta: "sb_ok b \<Longrightarrow> sb_stop b = (b', os) \<Longrightarrow>
    key_delta k os = of_bool (subscribed_in b' k) - of_bool (subscribed_in b k)"
proof -
  assume ok: "sb_ok b" and s: "sb_stop b = (b', os)"
  note f = sb_stop_spec [OF s]
  have "\<not> subscribed_in b' k" using f by (auto simp: subscribed_in_def dest!: map_of_SomeD)
  moreover have "key_delta k os = - of_bool (subscribed_in b k)"
    using f stop_delta [of "sb_props b" k] ok by (simp add: sb_ok_def subscribed_in_def)
  ultimately show ?thesis by simp
qed

lemma sb_update_delta:
  assumes "sb_ok b" and "map_of (sb_props b) l = Some a" and "pa_step Q x a = (a', os)"
    and "b' = b\<lparr>sb_props := amap_insert l a' (sb_props b)\<rparr>"
  shows "key_delta k (map (Pair l) os) = of_bool (subscribed_in b' k) - of_bool (subscribed_in b k)"
  using pa_step_delta [OF sb_get_ok [OF assms(1,2)] assms(3)] assms(2)
  by (auto simp: key_delta_Pair subscribed_in_def assms(4))

lemma sb_step_delta:
  assumes "sb_ok b" and "sb_step Q D e b = (b', os)"
  shows "key_delta k os = of_bool (subscribed_in b' k) - of_bool (subscribed_in b k)"
proof (cases e)
  case SBStart
  obtain r b1 where 1: "sb_registerAll D (amap_keys (sb_props b)) b = (r, b1)"
    by (cases "sb_registerAll D (amap_keys (sb_props b)) b")
  have p: "sb_props b1 = sb_props b" using registerAll_frame [OF 1] by blast
  have ok1: "sb_ok b1" using registerAll_frame [OF 1] assms(1) by (auto simp: sb_ok_def amap_keys_def)
  have "(sb_props b' = sb_props b \<and> os = []) \<or> sb_stop b1 = (b', os)"
    using assms(2) p by (auto simp: SBStart sb_start_def 1 split: if_splits prod.splits)
  then show ?thesis using sb_stop_delta [OF ok1, of b' os k] p by (auto simp: subscribed_in_def key_delta_def)
next
  case SBStop
  then show ?thesis using assms sb_stop_delta by simp
next
  case (SBProperty now l)
  have "map_of (sb_props b') k = (if map_of (sb_props b) k = None \<and> k = l then Some (pa_new (pp_new now l)) else map_of (sb_props b) k)"
  proof -
    have "sb_props (snd (sb_registerProperty D l c)) = sb_props c" for c
      by (simp add: sb_registerProperty_def Let_def)
    then show ?thesis using assms(2) by (auto simp: SBProperty prop_init_def sb_addProperty_def)
  qed
  then show ?thesis using assms(2) SBProperty
    by (auto simp: subscribed_in_def key_delta_def pa_new_def pp_new_def split: if_splits)
next
  case (SBSet now l v)
  show ?thesis
  proof (cases "map_of (sb_props b) l")
    case None
    then show ?thesis using assms(2) by (simp add: SBSet sb_setValue_def key_delta_def)
  next
    case (Some a)
    obtain a' os' where a: "pa_step Q (PASet now v) a = (a', os')" by (cases "pa_step Q (PASet now v) a")
    then have "b' = b\<lparr>sb_props := amap_insert l a' (sb_props b)\<rparr>" "os = map (Pair l) os'"
      using assms(2) Some by (auto simp: SBSet sb_setValue_def)
    then show ?thesis using sb_update_delta [OF assms(1) Some a] by simp
  qed
next
  case (SBClient l x)
  show ?thesis
  proof (cases "map_of (sb_props b) l")
    case None
    then show ?thesis using assms(2) by (simp add: SBClient key_delta_def)
  next
    case (Some a)
    obtain a' os' where a: "pa_step Q x a = (a', os')" by (cases "pa_step Q x a")
    then have "b' = b\<lparr>sb_props := amap_insert l a' (sb_props b)\<rparr>" "os = map (Pair l) os'"
      using assms(2) Some by (auto simp: SBClient)
    then show ?thesis using sb_update_delta [OF assms(1) Some a] by simp
  qed
qed

section \<open>The group's own level\<close>

fun group_announced :: "group_out \<Rightarrow> bool option" where
  "group_announced GroupFirst = Some True"
| "group_announced GroupLast = Some False"

definition g_ok :: "group \<Rightarrow> bool" where
  "g_ok g = distinct (g_connections g)"

lemma deliver_once: "g_ok g \<Longrightarrow> group_deliver s g =
    (if fst s \<in> set (g_connections g) then
       (case snd s of FirstSubscriberAppeared _ \<Rightarrow> g_onFirstSubscriberAppeared g
        | LastSubscriberDisappeared _ \<Rightarrow> g_onLastSubscriberDisappeared g | PPValueChanged _ _ \<Rightarrow> (g, []))
     else (g, []))"
proof -
  assume "g_ok g"
  then have "count_list (g_connections g) (fst s) = (if fst s \<in> set (g_connections g) then 1 else 0)"
    by (simp add: g_ok_def count_distinct)
  then show ?thesis by (auto simp: group_deliver_def Let_def split: pp_out.splits prod.splits)
qed

interpretation group: edge_signal "\<lambda>g. propertiesSubscribedTo g > 0" group_deliver group_announced g_ok
proof unfold_locales
  show "g_ok (fst (group_deliver s g))" if "g_ok g" for g s
    using that by (auto simp: deliver_once g_ok_def g_onFirstSubscriberAppeared_def
        g_onLastSubscriberDisappeared_def Let_def split: pp_out.splits)
  show "List.map_filter group_announced os =
      (if (propertiesSubscribedTo g' > 0) = (propertiesSubscribedTo g > 0) then [] else [propertiesSubscribedTo g' > 0])"
    if "g_ok g" "group_deliver s g = (g', os)" for g s g' os
    using that by (auto simp: deliver_once g_onFirstSubscriberAppeared_def g_onLastSubscriberDisappeared_def Let_def
        map_filter_def split: pp_out.splits if_splits)
qed

lemma group_signals_count: "g_ok g \<Longrightarrow> group_signals os g = (g', gs) \<Longrightarrow>
    g_connections g' = g_connections g \<and>
    propertiesSubscribedTo g' = propertiesSubscribedTo g + (\<Sum>k \<in> set (g_connections g). key_delta k os)"
  unfolding group_signals_def
proof (induction os arbitrary: g gs)
  case Nil
  then show ?case by (simp add: key_delta_def)
next
  case (Cons s os)
  obtain g1 o1 where 1: "group_deliver s g = (g1, o1)" by (cases "group_deliver s g")
  obtain o2 where 2: "ev_run group_deliver os g1 = (g', o2)" using Cons.prems(2) 1 by (auto split: prod.splits)
  have ok1: "g_ok g1" using group.step_wf [OF Cons.prems(1), of s] 1 by simp
  have d: "(\<Sum>k \<in> set (g_connections g). key_delta k (s # os)) =
      (if fst s \<in> set (g_connections g) then signal_delta (snd s) else 0) +
      (\<Sum>k \<in> set (g_connections g). key_delta k os)"
  proof -
    have "key_delta k (s # os) = (if fst s = k then signal_delta (snd s) else 0) + key_delta k os" for k
      by (simp add: key_delta_def)
    then show ?thesis by (simp add: sum.distrib)
  qed
  have "g_connections g1 = g_connections g \<and> propertiesSubscribedTo g1 = propertiesSubscribedTo g +
      (if fst s \<in> set (g_connections g) then signal_delta (snd s) else 0)"
    using 1 deliver_once [OF Cons.prems(1), of s]
    by (auto simp: g_onFirstSubscriberAppeared_def g_onLastSubscriberDisappeared_def Let_def split: pp_out.splits if_splits)
  then show ?case using Cons.IH [OF ok1 2] d by simp
qed

section \<open>What a group reports\<close>

definition bg_ok :: "key list \<Rightarrow> backend \<times> group \<Rightarrow> bool" where
  "bg_ok ks s = (sb_ok (fst s) \<and> g_ok (snd s) \<and> g_connections (snd s) = ks \<and>
     propertiesSubscribedTo (snd s) = (\<Sum>k \<in> set ks. of_bool (subscribed_in (fst s) k)))"

lemma bg_step_ok: "bg_ok ks s \<Longrightarrow> bg_ok ks (fst (bg_step Q D e s))"
proof -
  assume ok: "bg_ok ks s"
  obtain b os where b: "sb_step Q D e (fst s) = (b, os)" by (cases "sb_step Q D e (fst s)")
  obtain g gs where g: "group_signals os (snd s) = (g, gs)" by (cases "group_signals os (snd s)")
  have r: "bg_step Q D e s = ((b, g), gs)" by (simp add: bg_step_def b g)
  have okb: "sb_ok b" using sb_step_ok [of "fst s" Q D e] ok b by (simp add: bg_ok_def)
  have gok: "g_ok (snd s)" using ok by (simp add: bg_ok_def)
  have okg: "g_ok g" using group.run_wf [OF gok, of os] g by (simp add: group_signals_def)
  have "(\<Sum>k \<in> set ks. key_delta k os) =
      (\<Sum>k \<in> set ks. of_bool (subscribed_in b k)) - (\<Sum>k \<in> set ks. of_bool (subscribed_in (fst s) k))"
    using sb_step_delta [OF _ b] ok by (simp add: bg_ok_def sum_subtractf)
  then show ?thesis using group_signals_count [OF gok g] ok okb okg by (simp add: r bg_ok_def)
qed

lemma bg_run_announced:
  assumes "bg_ok ks s" and "ev_run (bg_step Q D) es s = (s', gs)"
  shows "\<exists>os. ev_run group_deliver os (snd s) = (snd s', gs)"
  using assms
proof (induction es arbitrary: s gs)
  case Nil
  then show ?case by (intro exI [of _ "[]"]) simp
next
  case (Cons e es)
  obtain s1 g1 where 1: "bg_step Q D e s = (s1, g1)" by (cases "bg_step Q D e s")
  obtain g2 where 2: "ev_run (bg_step Q D) es s1 = (s', g2)" "gs = g1 @ g2"
    using Cons.prems(2) 1 by (auto split: prod.splits)
  have "bg_ok ks s1" using bg_step_ok [OF Cons.prems(1), of Q D e] 1 by simp
  then obtain os2 where os2: "ev_run group_deliver os2 (snd s1) = (snd s', g2)" using Cons.IH 2 by blast
  obtain os1 where "ev_run group_deliver os1 (snd s) = (snd s1, g1)"
    using 1 by (auto simp: bg_step_def group_signals_def split: prod.splits)
  then show ?case using os2 2(2) by (intro exI [of _ "os1 @ os2"]) (simp add: ev_run_append)
qed

text \<open>C34: a group of properties, each added once while it had no subscriber, counts exactly its
  subscribed members in every run of its backend, over clients coming, leaving and exiting,
  values being set and the service being stopped and started: it is subscribed to exactly while
  some member is, and announces the first and the last subscriber alternately, the last
  announcement being true to the state.\<close>

theorem group_counts_subscribed_members:
  assumes "sb_ok b" and "distinct ks" and "\<forall>k \<in> set ks. \<not> subscribed_in b k"
    and "g = fold group_add ks group_new"
    and "ev_run (bg_step Q D) es (b, g) = ((b', g'), gs)"
  shows "propertiesSubscribedTo g' = int (card {k \<in> set ks. subscribed_in b' k}) \<and>
    (group_isSubscribedTo g' \<longleftrightarrow> (\<exists>k \<in> set ks. subscribed_in b' k)) \<and>
    distinct_adj (False # List.map_filter group_announced gs) \<and>
    last (False # List.map_filter group_announced gs) = group_isSubscribedTo g'"
proof -
  have add: "g_connections (fold group_add ks h) = g_connections h @ ks \<and>
      propertiesSubscribedTo (fold group_add ks h) = propertiesSubscribedTo h" for ks h
    by (induction ks arbitrary: h) (simp_all add: group_add_def)
  have g: "g_connections g = ks" "propertiesSubscribedTo g = 0"
    using add [of ks group_new] by (simp_all add: assms(4) group_new_def)
  have ok: "bg_ok ks (b, g)" using assms(1-3) g by (simp add: bg_ok_def g_ok_def)
  have "bg_ok ks (fst (ev_run (bg_step Q D) es (b, g)))"
    by (rule ev_run_inv [OF bg_step_ok ok])
  then have c: "propertiesSubscribedTo g' = (\<Sum>k \<in> set ks. of_bool (subscribed_in b' k))"
    using assms(5) by (simp add: bg_ok_def)
  have s: "(\<Sum>k \<in> set ks. of_bool (subscribed_in b' k)) = int (card {k \<in> set ks. subscribed_in b' k})"
    by (simp add: sum.If_cases of_bool_def Int_def)
  have "group_isSubscribedTo g' \<longleftrightarrow> (\<exists>k \<in> set ks. subscribed_in b' k)"
    unfolding group_isSubscribedTo_def c s by (auto simp: card_gt_0_iff)
  moreover obtain os where os: "ev_run group_deliver os g = (g', gs)"
    using bg_run_announced [OF ok assms(5)] by auto
  have "g_ok g" using g assms(2) by (simp add: g_ok_def)
  note e = group.run_level [OF this os] group.run_alternates [OF this os]
  ultimately show ?thesis using c s e g(2)
    by (simp add: group_isSubscribedTo_def distinct_adj_def)
qed

lemma group_counts_subscribed_members_witness:
  "distinct_adj (False # List.map_filter group_announced (snd (ev_run (bg_step qt_ref all_granted)
     [SBProperty 1 ''A.b'', SBProperty 1 ''A.c'', SBClient ''A.b'' (PASubscribe '':1.1''), SBClient ''A.c'' (PASubscribe '':1.1''), SBStop]
     (sb_new ''org.x'', fold group_add [''A.b'', ''A.c''] group_new))))"
proof -
  have ok: "sb_ok (sb_new ''org.x'')" and ns: "\<forall>k \<in> set [''A.b'', ''A.c'']. \<not> subscribed_in (sb_new ''org.x'') k"
    by (simp_all add: sb_ok_def sb_new_def subscribed_in_def)
  have d: "distinct [''A.b'', ''A.c'']" by simp
  obtain b' g' gs where r: "ev_run (bg_step qt_ref all_granted)
     [SBProperty 1 ''A.b'', SBProperty 1 ''A.c'', SBClient ''A.b'' (PASubscribe '':1.1''), SBClient ''A.c'' (PASubscribe '':1.1''), SBStop]
     (sb_new ''org.x'', fold group_add [''A.b'', ''A.c''] group_new) = ((b', g'), gs)"
    by (metis prod.collapse)
  show ?thesis using group_counts_subscribed_members [OF ok d ns refl r] unfolding r by simp
qed

text \<open>A property that already has a subscriber when it is added is not counted: after its
  subscriber leaves and subscribes again the group is not subscribed to and has announced
  nothing, although its member is subscribed.\<close>

lemma group_misses_existing_subscriber:
  assumes "map_of (sb_props b) k = Some a" and "clientServiceNames a = [c]" and "pp_subscribed (pa_property a)"
    and "ev_run (bg_step Q D) [SBClient k (PAUnsubscribe c), SBClient k (PASubscribe c)] (b, group_add k group_new) =
      ((b', g'), gs)"
  shows "subscribed_in b' k \<and> \<not> group_isSubscribedTo g' \<and> gs = []"
  using assms
  by (auto simp: bg_step_def pa_defs pp_setUnsubscribed_def pp_setSubscribed_def qset_remove_def qset_insert_def
      group_signals_def group_deliver_def group_new_def group_add_def g_onFirstSubscriberAppeared_def
      g_onLastSubscriberDisappeared_def group_isSubscribedTo_def subscribed_in_def)

lemma group_misses_existing_subscriber_witness:
  "\<not> group_isSubscribedTo (snd (fst (ev_run (bg_step qt_ref all_granted)
     [SBClient ''A.b'' (PAUnsubscribe '':1.1''), SBClient ''A.b'' (PASubscribe '':1.1'')]
     (fst (ev_run (sb_step qt_ref all_granted) [SBProperty 1 ''A.b'', SBClient ''A.b'' (PASubscribe '':1.1'')]
        (sb_new ''org.x'')), group_add ''A.b'' group_new))))"
proof -
  let ?b = "fst (ev_run (sb_step qt_ref all_granted) [SBProperty 1 ''A.b'', SBClient ''A.b'' (PASubscribe '':1.1'')]
      (sb_new ''org.x''))"
  obtain a where a: "map_of (sb_props ?b) ''A.b'' = Some a" "clientServiceNames a = ['':1.1'']"
      "pp_subscribed (pa_property a)"
    by (simp add: prop_init_def sb_addProperty_def sb_registerProperty_def sb_new_def Let_def qset_insert_def
        all_granted_def pa_new_def pp_new_def pa_defs pp_setSubscribed_def)
  obtain b' g' gs where r: "ev_run (bg_step qt_ref all_granted)
      [SBClient ''A.b'' (PAUnsubscribe '':1.1''), SBClient ''A.b'' (PASubscribe '':1.1'')]
      (?b, group_add ''A.b'' group_new) = ((b', g'), gs)"
    by (metis prod.collapse)
  show ?thesis using group_misses_existing_subscriber [OF a r] unfolding r by simp
qed

section \<open>Listeners\<close>

text \<open>A listener of the C interface clears its values for the first subscriber when it was told to,
  before it calls the callback of the program, if there is one.\<close>

datatype listener_out = ClearValue key | Callback int

record listener =
  l_hasCallback :: bool
  clearsOnSubscribe :: bool
  l_keys :: "key list"

definition propertyListener :: "key \<Rightarrow> bool \<Rightarrow> bool \<Rightarrow> listener" where
  "propertyListener key clears cb = \<lparr>l_hasCallback = cb, clearsOnSubscribe = clears, l_keys = [key]\<rparr>"

definition groupListener :: "key list \<Rightarrow> bool \<Rightarrow> bool \<Rightarrow> listener" where
  "groupListener keys clears cb = \<lparr>l_hasCallback = cb, clearsOnSubscribe = clears, l_keys = keys\<rparr>"

definition listener_clear :: "listener \<Rightarrow> listener_out list" where
  "listener_clear l = map ClearValue (l_keys l)"

definition l_onFirstSubscriberAppeared :: "listener \<Rightarrow> listener_out list" where
  "l_onFirstSubscriberAppeared l =
     (if clearsOnSubscribe l then listener_clear l else []) @ (if l_hasCallback l then [Callback 1] else [])"

definition l_onLastSubscriberDisappeared :: "listener \<Rightarrow> listener_out list" where
  "l_onLastSubscriberDisappeared l = (if l_hasCallback l then [Callback 0] else [])"

end
