(* ===== verification/Context_C.thy ===== *)
theory Context_C
  imports Property_Group
begin

text \<open>
  The C interface of the provider library (contextc.cpp): one global service with its listeners,
  setters by key, and opaque maps and lists that the caller builds piece by piece. The opaque
  objects live in a heap from pointers to their contents; using a pointer that is null or freed
  is undefined, here \<open>None\<close>, as is a call through the null service.
\<close>

record c_state =
  c_services :: services
  c_service :: "string option"
  c_listeners :: "listener list"

definition c_new :: c_state where
  "c_new = \<lparr>c_services = \<lparr>sv_instances = [], sv_default = None\<rparr>, c_service = None, c_listeners = []\<rparr>"

definition c_backend :: "c_state \<Rightarrow> backend option" where
  "c_backend s = (case c_service s of None \<Rightarrow> None | Some l \<Rightarrow> map_of (sv_instances (c_services s)) l)"

definition c_put :: "backend \<Rightarrow> c_state \<Rightarrow> c_state" where
  "c_put b s = (case c_service s of None \<Rightarrow> s | Some l \<Rightarrow> s\<lparr>c_services := sv_put l b (c_services s)\<rparr>)"

definition context_provider_init :: "dbus_answers \<Rightarrow> bool \<Rightarrow> string \<Rightarrow> c_state \<Rightarrow> int \<times> c_state \<times> sb_outs" where
  "context_provider_init D session bus_name s =
     (if c_service s \<noteq> None then (0, s, [])
      else let bt = (if session then SessionBus else SystemBus)
           in case service_of_bus D bt bus_name True (c_services s) of
                (sv, os) \<Rightarrow> (1, s\<lparr>c_services := sv, c_service := Some (sv_lookup bt bus_name), c_listeners := []\<rparr>, os))"

definition context_provider_stop :: "c_state \<Rightarrow> c_state \<times> sb_outs" where
  "context_provider_stop s = (case c_service s of
      None \<Rightarrow> (s, [])
    | Some l \<Rightarrow> (case service_delete l (c_services s) of
        (sv, os) \<Rightarrow> (s\<lparr>c_listeners := [], c_services := sv, c_service := None\<rparr>, os)))"

definition context_provider_install_key ::
    "dbus_answers \<Rightarrow> 64 word \<Rightarrow> key \<Rightarrow> bool \<Rightarrow> bool \<Rightarrow> c_state \<Rightarrow> c_state" where
  "context_provider_install_key D now key clears cb s = (case c_backend s of
      None \<Rightarrow> s
    | Some b \<Rightarrow> (c_put (prop_init D now key b) s)\<lparr>c_listeners := c_listeners s @ [propertyListener key clears cb]\<rparr>)"

definition context_provider_install_group ::
    "dbus_answers \<Rightarrow> 64 word \<Rightarrow> key list \<Rightarrow> bool \<Rightarrow> bool \<Rightarrow> c_state \<Rightarrow> c_state" where
  "context_provider_install_group D now keys clears cb s = (case c_backend s of
      None \<Rightarrow> s
    | Some b \<Rightarrow> (c_put (fold (prop_init D now) keys b) s)\<lparr>c_listeners := c_listeners s @ [groupListener keys clears cb]\<rparr>)"

definition c_setVariant :: "qt_lib \<Rightarrow> 64 word \<Rightarrow> key \<Rightarrow> qvariant \<Rightarrow> c_state \<Rightarrow> c_state \<times> sb_outs" where
  "c_setVariant Q now key v s = (case c_backend s of
      None \<Rightarrow> (s, [])
    | Some b \<Rightarrow> (case sb_setValue Q now key v b of (b1, os) \<Rightarrow> (c_put b1 s, os)))"

definition context_provider_set_integer :: "qt_lib \<Rightarrow> 64 word \<Rightarrow> key \<Rightarrow> 32 word \<Rightarrow> c_state \<Rightarrow> c_state \<times> sb_outs" where
  "context_provider_set_integer Q now key v s = c_setVariant Q now key (VInt v) s"

definition context_provider_set_double :: "qt_lib \<Rightarrow> 64 word \<Rightarrow> key \<Rightarrow> 64 word \<Rightarrow> c_state \<Rightarrow> c_state \<times> sb_outs" where
  "context_provider_set_double Q now key v s = c_setVariant Q now key (VDouble v) s"

definition context_provider_set_boolean :: "qt_lib \<Rightarrow> 64 word \<Rightarrow> key \<Rightarrow> 32 word \<Rightarrow> c_state \<Rightarrow> c_state \<times> sb_outs" where
  "context_provider_set_boolean Q now key v s = c_setVariant Q now key (VBool (v \<noteq> 0)) s"

definition context_provider_set_string :: "qt_lib \<Rightarrow> 64 word \<Rightarrow> key \<Rightarrow> string \<Rightarrow> c_state \<Rightarrow> c_state \<times> sb_outs" where
  "context_provider_set_string Q now key v s = c_setVariant Q now key (VString v) s"

definition context_provider_set_null :: "qt_lib \<Rightarrow> 64 word \<Rightarrow> key \<Rightarrow> c_state \<Rightarrow> c_state \<times> sb_outs" where
  "context_provider_set_null Q now key s = c_setVariant Q now key VInvalid s"

section \<open>Opaque maps and lists\<close>

type_synonym ptr = nat

record c_heap =
  h_objects :: "(ptr \<times> qvariant) list"
  h_next :: ptr

definition h_new :: "qvariant \<Rightarrow> c_heap \<Rightarrow> ptr \<times> c_heap" where
  "h_new v h = (h_next h, \<lparr>h_objects = (h_next h, v) # h_objects h, h_next = Suc (h_next h)\<rparr>)"

definition h_free :: "ptr \<Rightarrow> c_heap \<Rightarrow> c_heap" where
  "h_free p h = h\<lparr>h_objects := amap_remove p (h_objects h)\<rparr>"

definition h_map :: "ptr \<Rightarrow> c_heap \<Rightarrow> (string \<times> qvariant) list option" where
  "h_map p h = (case map_of (h_objects h) p of Some (VMap m) \<Rightarrow> Some m | _ \<Rightarrow> None)"

definition h_list :: "ptr \<Rightarrow> c_heap \<Rightarrow> qvariant list option" where
  "h_list p h = (case map_of (h_objects h) p of Some (VList l) \<Rightarrow> Some l | _ \<Rightarrow> None)"

definition h_store :: "ptr \<Rightarrow> qvariant \<Rightarrow> c_heap \<Rightarrow> c_heap" where
  "h_store p v h = h\<lparr>h_objects := amap_insert p v (h_objects h)\<rparr>"

definition context_provider_map_new :: "c_heap \<Rightarrow> ptr \<times> c_heap" where
  "context_provider_map_new h = h_new (VMap []) h"

definition context_provider_list_new :: "c_heap \<Rightarrow> ptr \<times> c_heap" where
  "context_provider_list_new h = h_new (VList []) h"

definition context_provider_map_free :: "ptr \<Rightarrow> c_heap \<Rightarrow> c_heap option" where
  "context_provider_map_free p h = (case h_map p h of None \<Rightarrow> None | Some _ \<Rightarrow> Some (h_free p h))"

definition context_provider_list_free :: "ptr \<Rightarrow> c_heap \<Rightarrow> c_heap option" where
  "context_provider_list_free p h = (case h_list p h of None \<Rightarrow> None | Some _ \<Rightarrow> Some (h_free p h))"

definition map_insert :: "ptr \<Rightarrow> string \<Rightarrow> qvariant \<Rightarrow> c_heap \<Rightarrow> c_heap option" where
  "map_insert p k v h = (case h_map p h of None \<Rightarrow> None | Some m \<Rightarrow> Some (h_store p (VMap (smap_insert k v m)) h))"

definition list_append :: "ptr \<Rightarrow> qvariant \<Rightarrow> c_heap \<Rightarrow> c_heap option" where
  "list_append p v h = (case h_list p h of None \<Rightarrow> None | Some l \<Rightarrow> Some (h_store p (VList (l @ [v])) h))"

definition context_provider_map_set_integer :: "ptr \<Rightarrow> string \<Rightarrow> 32 word \<Rightarrow> c_heap \<Rightarrow> c_heap option" where
  "context_provider_map_set_integer p k v h = map_insert p k (VInt v) h"

definition context_provider_map_set_double :: "ptr \<Rightarrow> string \<Rightarrow> 64 word \<Rightarrow> c_heap \<Rightarrow> c_heap option" where
  "context_provider_map_set_double p k v h = map_insert p k (VDouble v) h"

definition context_provider_map_set_boolean :: "ptr \<Rightarrow> string \<Rightarrow> 32 word \<Rightarrow> c_heap \<Rightarrow> c_heap option" where
  "context_provider_map_set_boolean p k v h = map_insert p k (VBool (v \<noteq> 0)) h"

definition context_provider_map_set_string :: "ptr \<Rightarrow> string \<Rightarrow> string \<Rightarrow> c_heap \<Rightarrow> c_heap option" where
  "context_provider_map_set_string p k v h = map_insert p k (VString v) h"

text \<open>The nested value is copied into the map and freed.\<close>

definition context_provider_map_set_map :: "ptr \<Rightarrow> string \<Rightarrow> ptr \<Rightarrow> c_heap \<Rightarrow> c_heap option" where
  "context_provider_map_set_map p k q h = (case h_map q h of None \<Rightarrow> None
     | Some m \<Rightarrow> map_option (h_free q) (map_insert p k (VMap m) h))"

definition context_provider_map_set_list :: "ptr \<Rightarrow> string \<Rightarrow> ptr \<Rightarrow> c_heap \<Rightarrow> c_heap option" where
  "context_provider_map_set_list p k q h = (case h_list q h of None \<Rightarrow> None
     | Some l \<Rightarrow> map_option (h_free q) (map_insert p k (VList l) h))"

definition context_provider_list_add_integer :: "ptr \<Rightarrow> 32 word \<Rightarrow> c_heap \<Rightarrow> c_heap option" where
  "context_provider_list_add_integer p v h = list_append p (VInt v) h"

definition context_provider_list_add_double :: "ptr \<Rightarrow> 64 word \<Rightarrow> c_heap \<Rightarrow> c_heap option" where
  "context_provider_list_add_double p v h = list_append p (VDouble v) h"

definition context_provider_list_add_boolean :: "ptr \<Rightarrow> 32 word \<Rightarrow> c_heap \<Rightarrow> c_heap option" where
  "context_provider_list_add_boolean p v h = list_append p (VBool (v \<noteq> 0)) h"

definition context_provider_list_add_string :: "ptr \<Rightarrow> string \<Rightarrow> c_heap \<Rightarrow> c_heap option" where
  "context_provider_list_add_string p v h = list_append p (VString v) h"

definition context_provider_list_add_map :: "ptr \<Rightarrow> ptr \<Rightarrow> c_heap \<Rightarrow> c_heap option" where
  "context_provider_list_add_map p q h = (case h_map q h of None \<Rightarrow> None
     | Some m \<Rightarrow> map_option (h_free q) (list_append p (VMap m) h))"

definition context_provider_list_add_list :: "ptr \<Rightarrow> ptr \<Rightarrow> c_heap \<Rightarrow> c_heap option" where
  "context_provider_list_add_list p q h = (case h_list q h of None \<Rightarrow> None
     | Some l \<Rightarrow> map_option (h_free q) (list_append p (VList l) h))"

text \<open>The setters of maps and lists use the service without checking that there is one.\<close>

definition context_provider_set_map ::
    "qt_lib \<Rightarrow> 64 word \<Rightarrow> key \<Rightarrow> ptr \<Rightarrow> bool \<Rightarrow> c_state \<Rightarrow> c_heap \<Rightarrow> (c_state \<times> c_heap \<times> sb_outs) option" where
  "context_provider_set_map Q now key p free_map s h =
     (if c_service s = None then None
      else case h_map p h of None \<Rightarrow> None
        | Some m \<Rightarrow> (case c_setVariant Q now key (VMap m) s of
            (s1, os) \<Rightarrow> Some (s1, if free_map then h_free p h else h, os)))"

definition context_provider_set_list ::
    "qt_lib \<Rightarrow> 64 word \<Rightarrow> key \<Rightarrow> ptr \<Rightarrow> bool \<Rightarrow> c_state \<Rightarrow> c_heap \<Rightarrow> (c_state \<times> c_heap \<times> sb_outs) option" where
  "context_provider_set_list Q now key p free_list s h =
     (if c_service s = None then None
      else case h_list p h of None \<Rightarrow> None
        | Some l \<Rightarrow> (case c_setVariant Q now key (VList l) s of
            (s1, os) \<Rightarrow> Some (s1, if free_list then h_free p h else h, os)))"

section \<open>Building nested values\<close>

text \<open>How a program builds a nested value with the interface, one call per part.\<close>

datatype c_val =
    CInt "32 word"
  | CDouble "64 word"
  | CBool "32 word"
  | CStr string
  | CMap "(string \<times> c_val) list"
  | CList "c_val list"

fun c_den :: "c_val \<Rightarrow> qvariant" where
  "c_den (CInt w) = VInt w"
| "c_den (CDouble d) = VDouble d"
| "c_den (CBool b) = VBool (b \<noteq> 0)"
| "c_den (CStr s) = VString s"
| "c_den (CMap es) = VMap (foldl (\<lambda>m e. smap_insert (fst e) (snd e) m) [] (map (\<lambda>e. (fst e, c_den (snd e))) es))"
| "c_den (CList vs) = VList (map c_den vs)"

function (sequential) c_build :: "c_val \<Rightarrow> c_heap \<Rightarrow> (ptr \<times> c_heap) option"
  and c_entry :: "ptr \<Rightarrow> string \<Rightarrow> c_val \<Rightarrow> c_heap \<Rightarrow> c_heap option"
  and c_item :: "ptr \<Rightarrow> c_val \<Rightarrow> c_heap \<Rightarrow> c_heap option"
  and c_entries :: "ptr \<Rightarrow> (string \<times> c_val) list \<Rightarrow> c_heap \<Rightarrow> c_heap option"
  and c_items :: "ptr \<Rightarrow> c_val list \<Rightarrow> c_heap \<Rightarrow> c_heap option" where
  "c_build (CMap es) h = (case context_provider_map_new h of (p, h1) \<Rightarrow>
     (case c_entries p es h1 of None \<Rightarrow> None | Some h2 \<Rightarrow> Some (p, h2)))"
| "c_build (CList vs) h = (case context_provider_list_new h of (p, h1) \<Rightarrow>
     (case c_items p vs h1 of None \<Rightarrow> None | Some h2 \<Rightarrow> Some (p, h2)))"
| "c_build _ h = None"
| "c_entry p k (CInt w) h = context_provider_map_set_integer p k w h"
| "c_entry p k (CDouble d) h = context_provider_map_set_double p k d h"
| "c_entry p k (CBool b) h = context_provider_map_set_boolean p k b h"
| "c_entry p k (CStr s) h = context_provider_map_set_string p k s h"
| "c_entry p k (CMap es) h = (case c_build (CMap es) h of None \<Rightarrow> None
     | Some (q, h1) \<Rightarrow> context_provider_map_set_map p k q h1)"
| "c_entry p k (CList vs) h = (case c_build (CList vs) h of None \<Rightarrow> None
     | Some (q, h1) \<Rightarrow> context_provider_map_set_list p k q h1)"
| "c_item p (CInt w) h = context_provider_list_add_integer p w h"
| "c_item p (CDouble d) h = context_provider_list_add_double p d h"
| "c_item p (CBool b) h = context_provider_list_add_boolean p b h"
| "c_item p (CStr s) h = context_provider_list_add_string p s h"
| "c_item p (CMap es) h = (case c_build (CMap es) h of None \<Rightarrow> None
     | Some (q, h1) \<Rightarrow> context_provider_list_add_map p q h1)"
| "c_item p (CList vs) h = (case c_build (CList vs) h of None \<Rightarrow> None
     | Some (q, h1) \<Rightarrow> context_provider_list_add_list p q h1)"
| "c_entries p [] h = Some h"
| "c_entries p ((k, v) # es) h = (case c_entry p k v h of None \<Rightarrow> None | Some h1 \<Rightarrow> c_entries p es h1)"
| "c_items p [] h = Some h"
| "c_items p (v # vs) h = (case c_item p v h of None \<Rightarrow> None | Some h1 \<Rightarrow> c_items p vs h1)"
  by pat_completeness auto
termination
  by (relation "measure (\<lambda>x. case x of
        Inl (Inl (v, _)) \<Rightarrow> 2 * size v
      | Inl (Inr (_, _, v, _)) \<Rightarrow> 2 * size v + 1
      | Inr (Inl (_, v, _)) \<Rightarrow> 2 * size v + 1
      | Inr (Inr (Inl (_, es, _))) \<Rightarrow> 2 * size_list (size_prod (\<lambda>_. 0) size) es + 1
      | Inr (Inr (Inr (_, vs, _))) \<Rightarrow> 2 * size_list size vs + 1)") auto

definition h_ok :: "c_heap \<Rightarrow> bool" where
  "h_ok h = (\<forall>p v. map_of (h_objects h) p = Some v \<longrightarrow> p < h_next h)"

text \<open>The heap \<open>h'\<close> is \<open>h\<close> with the contents of \<open>p\<close> replaced; later pointers may have been
  used up.\<close>

definition h_becomes :: "ptr \<Rightarrow> qvariant \<Rightarrow> c_heap \<Rightarrow> c_heap \<Rightarrow> bool" where
  "h_becomes p v h h' = (map_of (h_objects h') = (map_of (h_objects h))(p \<mapsto> v) \<and> h_next h \<le> h_next h')"

lemma h_becomes_ok: "h_ok h \<Longrightarrow> h_becomes p v h h' \<Longrightarrow> p < h_next h \<Longrightarrow> h_ok h'"
  unfolding h_ok_def h_becomes_def by (metis fun_upd_apply less_le_trans option.inject)

lemma map_insert_becomes: "h_map p h = Some m \<Longrightarrow>
    \<exists>h'. map_insert p k v h = Some h' \<and> h_becomes p (VMap (smap_insert k v m)) h h'"
  by (simp add: map_insert_def h_becomes_def h_store_def)

lemma list_append_becomes: "h_list p h = Some l \<Longrightarrow>
    \<exists>h'. list_append p v h = Some h' \<and> h_becomes p (VList (l @ [v])) h h'"
  by (simp add: list_append_def h_becomes_def h_store_def)

lemma new_becomes: "h_ok h \<Longrightarrow> h_new v h = (p, h') \<Longrightarrow>
    p = h_next h \<and> h_ok h' \<and> map_of (h_objects h') = (map_of (h_objects h))(p \<mapsto> v) \<and> h_next h' = Suc p"
  by (auto simp: h_new_def h_ok_def less_Suc_eq)

lemma h_map_other: "h_map q h = Some m \<longleftrightarrow> map_of (h_objects h) q = Some (VMap m)"
  by (auto simp: h_map_def split: option.splits qvariant.splits)

lemma h_list_other: "h_list q h = Some l \<longleftrightarrow> map_of (h_objects h) q = Some (VList l)"
  by (auto simp: h_list_def split: option.splits qvariant.splits)

text \<open>Storing a freshly built object into an older one and freeing it changes the older one only.\<close>

lemma nested_becomes:
  assumes "h_ok h" and "p < h_next h" and "q = h_next h"
    and "map_of (h_objects h1) = (map_of (h_objects h))(q \<mapsto> w)" and "h_next h \<le> h_next h1"
    and "h_becomes p v h1 h2"
  shows "h_becomes p v h (h_free q h2)"
proof -
  have "map_of (h_objects h) q = None"
    using assms(1,3) by (cases "map_of (h_objects h) q") (auto simp: h_ok_def)
  then show ?thesis using assms(2-6) by (auto simp: h_becomes_def h_free_def fun_eq_iff)
qed

definition built :: "c_val \<Rightarrow> c_heap \<Rightarrow> (ptr \<times> c_heap) option \<Rightarrow> bool" where
  "built v h r = (\<exists>h'. r = Some (h_next h, h') \<and>
     map_of (h_objects h') = (map_of (h_objects h))(h_next h \<mapsto> c_den v) \<and> h_next h < h_next h')"

definition map_filled :: "ptr \<Rightarrow> (string \<times> c_val) list \<Rightarrow> c_heap \<Rightarrow> c_heap option \<Rightarrow> bool" where
  "map_filled p es h r = (\<forall>m. map_of (h_objects h) p = Some (VMap m) \<longrightarrow> (\<exists>h'. r = Some h' \<and>
     h_becomes p (VMap (foldl (\<lambda>m e. smap_insert (fst e) (snd e) m) m (map (\<lambda>e. (fst e, c_den (snd e))) es))) h h'))"

definition list_filled :: "ptr \<Rightarrow> c_val list \<Rightarrow> c_heap \<Rightarrow> c_heap option \<Rightarrow> bool" where
  "list_filled p vs h r = (\<forall>l. map_of (h_objects h) p = Some (VList l) \<longrightarrow> (\<exists>h'. r = Some h' \<and>
     h_becomes p (VList (l @ map c_den vs)) h h'))"

lemma h_ok_less: "h_ok h \<Longrightarrow> map_of (h_objects h) p = Some v \<Longrightarrow> p < h_next h"
  by (auto simp: h_ok_def)

lemma entry_scalar:
  "map_filled p [(k, CInt w)] h (context_provider_map_set_integer p k w h)"
  "map_filled p [(k, CDouble d)] h (context_provider_map_set_double p k d h)"
  "map_filled p [(k, CBool b)] h (context_provider_map_set_boolean p k b h)"
  "map_filled p [(k, CStr t)] h (context_provider_map_set_string p k t h)"
  using map_insert_becomes
  by (simp_all add: map_filled_def h_map_other context_provider_map_set_integer_def
      context_provider_map_set_double_def context_provider_map_set_boolean_def context_provider_map_set_string_def)

lemma item_scalar:
  "list_filled p [CInt w] h (context_provider_list_add_integer p w h)"
  "list_filled p [CDouble d] h (context_provider_list_add_double p d h)"
  "list_filled p [CBool b] h (context_provider_list_add_boolean p b h)"
  "list_filled p [CStr t] h (context_provider_list_add_string p t h)"
  using list_append_becomes
  by (simp_all add: list_filled_def h_list_other context_provider_list_add_integer_def
      context_provider_list_add_double_def context_provider_list_add_boolean_def context_provider_list_add_string_def)

lemma built_obtain:
  assumes "built v h r" and "h_ok h"
  obtains h1 where "r = Some (h_next h, h1)" "map_of (h_objects h1) (h_next h) = Some (c_den v)"
    "\<And>p w. map_of (h_objects h) p = Some w \<Longrightarrow> map_of (h_objects h1) p = Some w \<and> p < h_next h"
    "map_of (h_objects h1) = (map_of (h_objects h))(h_next h \<mapsto> c_den v)" "h_next h \<le> h_next h1"
  using assms by (fastforce simp: built_def h_ok_def)

lemma entry_nested:
  assumes "h_ok h"
  shows "built (CMap es) h r \<Longrightarrow> map_filled p [(k, CMap es)] h
      (case r of None \<Rightarrow> None | Some (q, h1) \<Rightarrow> context_provider_map_set_map p k q h1)"
    and "built (CList vs) h r \<Longrightarrow> map_filled p [(k, CList vs)] h
      (case r of None \<Rightarrow> None | Some (q, h1) \<Rightarrow> context_provider_map_set_list p k q h1)"
proof -
  have *: "\<exists>h2. map_insert p k (c_den v) h1 = Some h2 \<and>
      h_becomes p (VMap (smap_insert k (c_den v) m)) h (h_free (h_next h) h2)"
    if "map_of (h_objects h) p = Some (VMap m)" "map_of (h_objects h1) p = Some (VMap m)" "p < h_next h"
      "map_of (h_objects h1) = (map_of (h_objects h))(h_next h \<mapsto> c_den v)" "h_next h \<le> h_next h1" for v h1 m
  proof -
    obtain h2 where 2: "map_insert p k (c_den v) h1 = Some h2" "h_becomes p (VMap (smap_insert k (c_den v) m)) h1 h2"
      using map_insert_becomes [of p h1 m] \<open>map_of (h_objects h1) p = _\<close> by (auto simp: h_map_other)
    show ?thesis using 2(1) nested_becomes [OF assms \<open>p < _\<close> refl that(4,5) 2(2)] by blast
  qed
  show "map_filled p [(k, CMap es)] h (case r of None \<Rightarrow> None | Some (q, h1) \<Rightarrow> context_provider_map_set_map p k q h1)"
    if b: "built (CMap es) h r"
    unfolding map_filled_def
  proof (intro allI impI)
    fix m assume m: "map_of (h_objects h) p = Some (VMap m)"
    obtain h1 where 1: "r = Some (h_next h, h1)" "map_of (h_objects h1) (h_next h) = Some (c_den (CMap es))"
        "map_of (h_objects h1) p = Some (VMap m)" "p < h_next h"
        "map_of (h_objects h1) = (map_of (h_objects h))(h_next h \<mapsto> c_den (CMap es))" "h_next h \<le> h_next h1"
      using built_obtain [OF b assms] m by metis
    show "\<exists>h'. (case r of None \<Rightarrow> None | Some (q, h1) \<Rightarrow> context_provider_map_set_map p k q h1) = Some h' \<and>
        h_becomes p (VMap (foldl (\<lambda>m e. smap_insert (fst e) (snd e) m) m (map (\<lambda>e. (fst e, c_den (snd e))) [(k, CMap es)]))) h h'"
      using * [OF m 1(3,4,5,6)] 1(1,2) by (auto simp: context_provider_map_set_map_def h_map_def)
  qed
  show "map_filled p [(k, CList vs)] h (case r of None \<Rightarrow> None | Some (q, h1) \<Rightarrow> context_provider_map_set_list p k q h1)"
    if b: "built (CList vs) h r"
    unfolding map_filled_def
  proof (intro allI impI)
    fix m assume m: "map_of (h_objects h) p = Some (VMap m)"
    obtain h1 where 1: "r = Some (h_next h, h1)" "map_of (h_objects h1) (h_next h) = Some (c_den (CList vs))"
        "map_of (h_objects h1) p = Some (VMap m)" "p < h_next h"
        "map_of (h_objects h1) = (map_of (h_objects h))(h_next h \<mapsto> c_den (CList vs))" "h_next h \<le> h_next h1"
      using built_obtain [OF b assms] m by metis
    show "\<exists>h'. (case r of None \<Rightarrow> None | Some (q, h1) \<Rightarrow> context_provider_map_set_list p k q h1) = Some h' \<and>
        h_becomes p (VMap (foldl (\<lambda>m e. smap_insert (fst e) (snd e) m) m (map (\<lambda>e. (fst e, c_den (snd e))) [(k, CList vs)]))) h h'"
      using * [OF m 1(3,4,5,6)] 1(1,2) by (auto simp: context_provider_map_set_list_def h_list_def)
  qed
qed

lemma item_nested:
  assumes "h_ok h"
  shows "built (CMap es) h r \<Longrightarrow> list_filled p [CMap es] h
      (case r of None \<Rightarrow> None | Some (q, h1) \<Rightarrow> context_provider_list_add_map p q h1)"
    and "built (CList vs) h r \<Longrightarrow> list_filled p [CList vs] h
      (case r of None \<Rightarrow> None | Some (q, h1) \<Rightarrow> context_provider_list_add_list p q h1)"
proof -
  have *: "\<exists>h2. list_append p (c_den v) h1 = Some h2 \<and>
      h_becomes p (VList (l @ [c_den v])) h (h_free (h_next h) h2)"
    if "map_of (h_objects h) p = Some (VList l)" "map_of (h_objects h1) p = Some (VList l)" "p < h_next h"
      "map_of (h_objects h1) = (map_of (h_objects h))(h_next h \<mapsto> c_den v)" "h_next h \<le> h_next h1" for v h1 l
  proof -
    obtain h2 where 2: "list_append p (c_den v) h1 = Some h2" "h_becomes p (VList (l @ [c_den v])) h1 h2"
      using list_append_becomes [of p h1 l] \<open>map_of (h_objects h1) p = _\<close> by (auto simp: h_list_other)
    show ?thesis using 2(1) nested_becomes [OF assms \<open>p < _\<close> refl that(4,5) 2(2)] by blast
  qed
  show "list_filled p [CMap es] h (case r of None \<Rightarrow> None | Some (q, h1) \<Rightarrow> context_provider_list_add_map p q h1)"
    if b: "built (CMap es) h r"
    unfolding list_filled_def
  proof (intro allI impI)
    fix l assume m: "map_of (h_objects h) p = Some (VList l)"
    obtain h1 where 1: "r = Some (h_next h, h1)" "map_of (h_objects h1) (h_next h) = Some (c_den (CMap es))"
        "map_of (h_objects h1) p = Some (VList l)" "p < h_next h"
        "map_of (h_objects h1) = (map_of (h_objects h))(h_next h \<mapsto> c_den (CMap es))" "h_next h \<le> h_next h1"
      using built_obtain [OF b assms] m by metis
    show "\<exists>h'. (case r of None \<Rightarrow> None | Some (q, h1) \<Rightarrow> context_provider_list_add_map p q h1) = Some h' \<and>
        h_becomes p (VList (l @ map c_den [CMap es])) h h'"
      using * [OF m 1(3,4,5,6)] 1(1,2) by (auto simp: context_provider_list_add_map_def h_map_def)
  qed
  show "list_filled p [CList vs] h (case r of None \<Rightarrow> None | Some (q, h1) \<Rightarrow> context_provider_list_add_list p q h1)"
    if b: "built (CList vs) h r"
    unfolding list_filled_def
  proof (intro allI impI)
    fix l assume m: "map_of (h_objects h) p = Some (VList l)"
    obtain h1 where 1: "r = Some (h_next h, h1)" "map_of (h_objects h1) (h_next h) = Some (c_den (CList vs))"
        "map_of (h_objects h1) p = Some (VList l)" "p < h_next h"
        "map_of (h_objects h1) = (map_of (h_objects h))(h_next h \<mapsto> c_den (CList vs))" "h_next h \<le> h_next h1"
      using built_obtain [OF b assms] m by metis
    show "\<exists>h'. (case r of None \<Rightarrow> None | Some (q, h1) \<Rightarrow> context_provider_list_add_list p q h1) = Some h' \<and>
        h_becomes p (VList (l @ map c_den [CList vs])) h h'"
      using * [OF m 1(3,4,5,6)] 1(1,2) by (auto simp: context_provider_list_add_list_def h_list_def)
  qed
qed

lemma h_becomes_trans: "h_becomes p v h h1 \<Longrightarrow> h_becomes p w h1 h2 \<Longrightarrow> h_becomes p w h h2"
  by (simp add: h_becomes_def)

lemma entries_cons:
  assumes "h_ok h" and "map_filled p [(k, v)] h r"
    and "\<And>h1. r = Some h1 \<Longrightarrow> h_ok h1 \<Longrightarrow> map_filled p es h1 (c_entries p es h1)"
  shows "map_filled p ((k, v) # es) h (case r of None \<Rightarrow> None | Some h1 \<Rightarrow> c_entries p es h1)"
  unfolding map_filled_def
proof (intro allI impI)
  fix m assume m: "map_of (h_objects h) p = Some (VMap m)"
  then obtain h1 where 1: "r = Some h1" "h_becomes p (VMap (smap_insert k (c_den v) m)) h h1"
    using assms(2) by (auto simp: map_filled_def)
  have "h_ok h1" using h_becomes_ok [OF assms(1) 1(2)] h_ok_less [OF assms(1) m] by blast
  then have "map_filled p es h1 (c_entries p es h1)" by (rule assms(3) [OF 1(1)])
  moreover have "map_of (h_objects h1) p = Some (VMap (smap_insert k (c_den v) m))"
    using 1(2) by (simp add: h_becomes_def)
  ultimately show "\<exists>h'. (case r of None \<Rightarrow> None | Some h1 \<Rightarrow> c_entries p es h1) = Some h' \<and>
      h_becomes p (VMap (foldl (\<lambda>m e. smap_insert (fst e) (snd e) m) m (map (\<lambda>e. (fst e, c_den (snd e))) ((k, v) # es)))) h h'"
    using 1 h_becomes_trans by (fastforce simp: map_filled_def)
qed

lemma items_cons:
  assumes "h_ok h" and "list_filled p [v] h r"
    and "\<And>h1. r = Some h1 \<Longrightarrow> h_ok h1 \<Longrightarrow> list_filled p vs h1 (c_items p vs h1)"
  shows "list_filled p (v # vs) h (case r of None \<Rightarrow> None | Some h1 \<Rightarrow> c_items p vs h1)"
  unfolding list_filled_def
proof (intro allI impI)
  fix l assume m: "map_of (h_objects h) p = Some (VList l)"
  then obtain h1 where 1: "r = Some h1" "h_becomes p (VList (l @ [c_den v])) h h1"
    using assms(2) by (auto simp: list_filled_def)
  have "h_ok h1" using h_becomes_ok [OF assms(1) 1(2)] h_ok_less [OF assms(1) m] by blast
  then have "list_filled p vs h1 (c_items p vs h1)" by (rule assms(3) [OF 1(1)])
  moreover have "map_of (h_objects h1) p = Some (VList (l @ [c_den v]))"
    using 1(2) by (simp add: h_becomes_def)
  ultimately show "\<exists>h'. (case r of None \<Rightarrow> None | Some h1 \<Rightarrow> c_items p vs h1) = Some h' \<and>
      h_becomes p (VList (l @ map c_den (v # vs))) h h'"
    using 1 h_becomes_trans by (fastforce simp: list_filled_def)
qed

lemma map_filled_Nil: "map_filled p [] h (Some h)"
  by (auto simp: map_filled_def h_becomes_def)

lemma list_filled_Nil: "list_filled p [] h (Some h)"
  by (auto simp: list_filled_def h_becomes_def)

lemma build_map:
  assumes "h_ok h" and "context_provider_map_new h = (p, h1)"
    and "h_ok h1 \<Longrightarrow> map_filled p es h1 (c_entries p es h1)"
  shows "built (CMap es) h (case c_entries p es h1 of None \<Rightarrow> None | Some h2 \<Rightarrow> Some (p, h2))"
proof -
  have n: "p = h_next h" "h_ok h1" "map_of (h_objects h1) = (map_of (h_objects h))(p \<mapsto> VMap [])" "h_next h1 = Suc p"
    using new_becomes [OF assms(1), of "VMap []" p h1] assms(2) by (simp_all add: context_provider_map_new_def)
  then show ?thesis
    using assms(3) [OF n(2)] by (auto simp: map_filled_def built_def h_becomes_def)
qed

lemma build_list:
  assumes "h_ok h" and "context_provider_list_new h = (p, h1)"
    and "h_ok h1 \<Longrightarrow> list_filled p vs h1 (c_items p vs h1)"
  shows "built (CList vs) h (case c_items p vs h1 of None \<Rightarrow> None | Some h2 \<Rightarrow> Some (p, h2))"
proof -
  have n: "p = h_next h" "h_ok h1" "map_of (h_objects h1) = (map_of (h_objects h))(p \<mapsto> VList [])" "h_next h1 = Suc p"
    using new_becomes [OF assms(1), of "VList []" p h1] assms(2) by (simp_all add: context_provider_list_new_def)
  then show ?thesis
    using assms(3) [OF n(2)] by (auto simp: list_filled_def built_def h_becomes_def)
qed

lemma build_spec:
  "h_ok h \<Longrightarrow> (\<exists>es. v = CMap es) \<or> (\<exists>vs. v = CList vs) \<Longrightarrow> built v h (c_build v h)"
  "h_ok h \<Longrightarrow> map_filled p [(k, w)] h (c_entry p k w h)"
  "h_ok h \<Longrightarrow> list_filled p [w] h (c_item p w h)"
  "h_ok h \<Longrightarrow> map_filled p es h (c_entries p es h)"
  "h_ok h \<Longrightarrow> list_filled p vs h (c_items p vs h)"
proof (induction v h and p k w h and p w h and p es h and p vs h
    rule: c_build_c_entry_c_item_c_entries_c_items.induct)
  case (1 es h)
  obtain p h1 where n: "context_provider_map_new h = (p, h1)" by (cases "context_provider_map_new h")
  show ?case unfolding c_build.simps n prod.case
    by (rule build_map [OF "1.prems"(1) n]) (rule "1.IH" [OF n [symmetric]])
next
  case (2 vs h)
  obtain p h1 where n: "context_provider_list_new h = (p, h1)" by (cases "context_provider_list_new h")
  show ?case unfolding c_build.simps n prod.case
    by (rule build_list [OF "2.prems"(1) n]) (rule "2.IH" [OF n [symmetric]])
qed (simp_all only: c_entry.simps c_item.simps c_entries.simps c_items.simps entry_scalar item_scalar
    map_filled_Nil list_filled_Nil, auto intro: entry_nested item_nested entries_cons items_cons)


definition c_sample :: c_state where
  "c_sample = context_provider_install_key all_granted 1 ''A.b'' False False
     (fst (snd (context_provider_init all_granted True ''org.x'' c_new)))"


text \<open>Without a service the scalar setters do nothing, but setting a map or a list goes through
  the null service pointer.\<close>

lemma set_map_without_service:
  assumes "c_service s = None"
  shows "context_provider_set_integer Q now key i s = (s, []) \<and> context_provider_set_null Q now key s = (s, []) \<and>
    context_provider_set_map Q now key p f s h = None \<and> context_provider_set_list Q now key p f s h = None"
  using assms by (simp add: context_provider_set_integer_def context_provider_set_null_def c_setVariant_def
      c_backend_def context_provider_set_map_def context_provider_set_list_def)

lemma set_map_without_service_witness:
  "context_provider_set_map qt_ref 1 ''A.b'' 1 True c_new \<lparr>h_objects = [(1, VMap [])], h_next = 2\<rparr> = None"
  using set_map_without_service [of c_new] by (simp add: c_new_def)

lemma c_service_facts:
  assumes "context_provider_init D session name s = (r, s', os)"
  shows "r = (if c_service s = None then 1 else 0)"
    and "c_service s \<noteq> None \<Longrightarrow> s' = s \<and> os = []"
    and "c_service s = None \<Longrightarrow> c_service s' \<noteq> None \<and>
       context_provider_init D session2 name2 s' = (0, s', []) \<and>
       c_service (fst (context_provider_stop s')) = None \<and> c_listeners (fst (context_provider_stop s')) = [] \<and>
       fst (context_provider_init D session2 name2 (fst (context_provider_stop s'))) = 1"
    and "c_service s = None \<Longrightarrow> c_service s' = Some l \<Longrightarrow> map_of (sv_instances (c_services s)) l = None \<Longrightarrow>
       name \<noteq> [] \<Longrightarrow>
       \<exists>b. map_of (sv_instances (c_services (fst (context_provider_stop s')))) l = Some b \<and>
            \<not> sb_nameOwned b \<and> sb_refCount b = 0"
proof -
  show "r = (if c_service s = None then 1 else 0)" and "c_service s \<noteq> None \<Longrightarrow> s' = s \<and> os = []"
    using assms by (auto simp: context_provider_init_def Let_def split: if_splits prod.splits)
  have up: "c_service s' \<noteq> None" if "c_service s = None"
    using assms that by (auto simp: context_provider_init_def Let_def split: if_splits prod.splits)
  have stopped: "c_service (fst (context_provider_stop s')) = None \<and> c_listeners (fst (context_provider_stop s')) = []"
    if "c_service s = None"
    using up [OF that] by (auto simp: context_provider_stop_def split: option.splits prod.splits)
  show "c_service s' \<noteq> None \<and> context_provider_init D session2 name2 s' = (0, s', []) \<and>
       c_service (fst (context_provider_stop s')) = None \<and> c_listeners (fst (context_provider_stop s')) = [] \<and>
       fst (context_provider_init D session2 name2 (fst (context_provider_stop s'))) = 1"
    if "c_service s = None"
    using up [OF that] stopped [OF that]
    by (auto simp: context_provider_init_def Let_def split: prod.splits)
  show "\<exists>b. map_of (sv_instances (c_services (fst (context_provider_stop s')))) l = Some b \<and>
            \<not> sb_nameOwned b \<and> sb_refCount b = 0"
    if n: "c_service s = None" "c_service s' = Some l" "map_of (sv_instances (c_services s)) l = None" "name \<noteq> []"
  proof -
    define bt where "bt = (if session then SessionBus else SystemBus)"
    have l: "l = sv_lookup bt name"
      using assms n by (auto simp: context_provider_init_def Let_def bt_def split: prod.splits)
    have "\<exists>b. map_of (sv_instances (c_services s')) l = Some b \<and> sb_refCount b = 1 \<and> sb_busName b = name"
      using assms n(1,3,4)
      by (auto simp: context_provider_init_def Let_def service_of_bus_def sv_instance_bus_def l sv_put_def sb_ref_def
          sb_start_def sb_new_def amap_keys_def sb_sharedConnection_def sb_stop_def bt_def [symmetric] split: prod.splits if_splits)
    then show ?thesis using n(2,4)
      by (auto simp: context_provider_stop_def service_delete_def sb_unref_def sb_stop_def sv_put_def
          sb_sharedConnection_def Let_def split: prod.splits)
  qed
qed



end
