(* ===== verification/Info_Backend.thy ===== *)
theory Info_Backend
  imports Type_Info Provider_Info
begin

text \<open>
  \<open>InfoBackend\<close> (infobackend.cpp): the abstract registry. Its virtual methods are the
  record \<open>info_ops\<close> of what a backend in a given state answers; the contract that every
  backend keeps and on which \<open>ContextPropertyInfo\<close> and \<open>ContextRegistryInfo\<close> rest is
  the locale \<open>info_registry\<close>. The announcements a backend makes after a change are computed
  from its key lists before and after.
\<close>

record info_ops =
  io_name :: string
  io_listKeys :: "key list"
  io_typeInfoForKey :: "key \<Rightarrow> type_info"
  io_docForKey :: "key \<Rightarrow> string"
  io_keyDeclared :: "key \<Rightarrow> bool"
  io_keyDeprecated :: "key \<Rightarrow> bool"
  io_providersForKey :: "key \<Rightarrow> provider_info list"

datatype ib_signal =
    KeysChanged "key list"
  | KeysAdded "key list"
  | KeysRemoved "key list"
  | KeyChanged key
  | ListChanged

definition backend_namespace :: string where
  "backend_namespace = ''http://contextkit.freedesktop.org/Provider''"

section \<open>The singleton\<close>

datatype backend_kind = XmlBackend | CdbBackend

definition ib_instance :: "bool \<Rightarrow> string \<Rightarrow> backend_kind option \<Rightarrow> backend_kind" where
  "ib_instance databaseExists backendName inst = (case inst of
      Some k \<Rightarrow> k
    | None \<Rightarrow>
        if backendName = ''xml'' then XmlBackend
        else if backendName = ''cdb'' then CdbBackend
        else if databaseExists then CdbBackend else XmlBackend)"

section \<open>Announcements\<close>

definition checkAndEmitKeysAdded :: "key list \<Rightarrow> key list \<Rightarrow> ib_signal list" where
  "checkAndEmitKeysAdded currentKeys oldKeys =
     (let addedKeys = filter (\<lambda>k. k \<notin> set oldKeys) currentKeys
      in if length addedKeys > 0 then [KeysAdded addedKeys] else [])"

definition checkAndEmitKeysRemoved :: "key list \<Rightarrow> key list \<Rightarrow> ib_signal list" where
  "checkAndEmitKeysRemoved currentKeys oldKeys =
     (let removedKeys = filter (\<lambda>k. k \<notin> set currentKeys) oldKeys
      in if length removedKeys > 0 then [KeysRemoved removedKeys] else [])"

definition checkAndEmitKeyChanged :: "key list \<Rightarrow> key list \<Rightarrow> ib_signal list" where
  "checkAndEmitKeyChanged currentKeys oldKeys =
     map KeyChanged oldKeys @ map KeyChanged (filter (\<lambda>k. k \<notin> set oldKeys) currentKeys)"

text \<open>The emissions both backends make after they have reread the registry.\<close>

definition ib_announce :: "key list \<Rightarrow> key list \<Rightarrow> ib_signal list" where
  "ib_announce currentKeys oldKeys =
     checkAndEmitKeysAdded currentKeys oldKeys @ checkAndEmitKeysRemoved currentKeys oldKeys @
     [KeysChanged currentKeys, ListChanged] @ checkAndEmitKeyChanged currentKeys oldKeys"

text \<open>A listener that only follows the added and removed keys, or the changed keys.\<close>

fun follow_delta :: "key set \<Rightarrow> ib_signal \<Rightarrow> key set" where
  "follow_delta K (KeysAdded ks) = K \<union> set ks"
| "follow_delta K (KeysRemoved ks) = K - set ks"
| "follow_delta K _ = K"

fun changed_key :: "ib_signal \<Rightarrow> key option" where
  "changed_key (KeyChanged k) = Some k"
| "changed_key _ = None"

lemma map_filter_changed [simp]:
  "List.map_filter changed_key (map KeyChanged ks) = ks"
  by (induction ks) (auto simp: List.map_filter_simps)

lemma map_filter_append [simp]: "List.map_filter f (xs @ ys) = List.map_filter f xs @ List.map_filter f ys"
  by (simp add: List.map_filter_def)

lemma foldl_follow_changed [simp]: "foldl follow_delta K (map KeyChanged ks) = K"
  by (induction ks) auto

lemma announced_changes:
  "List.map_filter changed_key (ib_announce cur old) = old @ filter (\<lambda>k. k \<notin> set old) cur"
  by (simp add: ib_announce_def checkAndEmitKeysAdded_def checkAndEmitKeysRemoved_def
      checkAndEmitKeyChanged_def List.map_filter_simps Let_def)

lemma announced_delta: "foldl follow_delta (set old) (ib_announce cur old) = set cur"
  by (auto simp: ib_announce_def checkAndEmitKeysAdded_def checkAndEmitKeysRemoved_def
      checkAndEmitKeyChanged_def filter_empty_conv)

text \<open>C37: the announcements after a change of the registry are complete and exact: a listener that
  follows only the added and the removed keys ends with the keys the registry now has, and every
  key that is or was in the registry, and no other, is announced as changed exactly once.\<close>

theorem announcements_exact:
  assumes "distinct cur" and "distinct old"
  shows "foldl follow_delta (set old) (ib_announce cur old) = set cur \<and>
    distinct (List.map_filter changed_key (ib_announce cur old)) \<and>
    set (List.map_filter changed_key (ib_announce cur old)) = set old \<union> set cur"
  using assms by (auto simp: announced_changes announced_delta)

lemma announcements_exact_witness:
  "foldl follow_delta {''A'', ''B''} (ib_announce [''B'', ''C''] [''A'', ''B'']) = {''B'', ''C''}"
  using announcements_exact [of "[''B'', ''C'']" "[''A'', ''B'']"] by simp

section \<open>The contract of a backend\<close>

text \<open>
  A registry names every key once, declares exactly the keys it names, and answers with the
  default for a key it does not name.
\<close>

locale info_registry =
  fixes ok :: "'s \<Rightarrow> bool" and ops :: "'s \<Rightarrow> info_ops"
  assumes listed_once: "ok s \<Longrightarrow> distinct (io_listKeys (ops s))"
    and declared_iff: "ok s \<Longrightarrow> io_keyDeclared (ops s) k \<longleftrightarrow> k \<in> set (io_listKeys (ops s))"
    and undeclared_defaults: "ok s \<Longrightarrow> k \<notin> set (io_listKeys (ops s)) \<Longrightarrow>
      io_typeInfoForKey (ops s) k = VInvalid \<and> io_docForKey (ops s) k = [] \<and>
      \<not> io_keyDeprecated (ops s) k \<and> io_providersForKey (ops s) k = []"
begin

lemma provided_declared: "ok s \<Longrightarrow> io_providersForKey (ops s) k \<noteq> [] \<Longrightarrow> io_keyDeclared (ops s) k"
  using declared_iff undeclared_defaults by blast

lemma reread_exact:
  "ok s \<Longrightarrow> ok s' \<Longrightarrow>
    foldl follow_delta (set (io_listKeys (ops s))) (ib_announce (io_listKeys (ops s')) (io_listKeys (ops s))) =
      {k. io_keyDeclared (ops s') k}"
  using declared_iff by (auto simp: announced_delta)

end

end
