(* ===== verification/Property_Info.thy ===== *)
theory Property_Info
  imports Info_Backend Name_Listener
begin

text \<open>
  \<open>ContextPropertyInfo\<close> (contextpropertyinfo.cpp): what the registry says of one key, cached
  and refreshed when the backend announces the key as changed. The backend is an
  \<open>info_ops\<close>. \<open>ci_declared\<close> is \<open>None\<close> while the member is uninitialised: the
  constructor reads nothing for the empty key.
\<close>

record property_info =
  ci_keyName :: key
  ci_doc :: string
  ci_typeInfo :: type_info
  ci_declared :: "bool option"
  ci_providers :: "provider_info list"

datatype ci_signal =
    CIChanged key
  | CITypeChanged string
  | CIExistsChanged bool
  | CIProvidedChanged bool
  | CIProviderChanged string
  | CIProviderDBusTypeChanged bus_type
  | CIPluginChanged string string

text \<open>The cached members, as the constructor and \<open>onKeyChanged\<close> read them from the backend.\<close>

definition ci_refresh :: "info_ops \<Rightarrow> property_info \<Rightarrow> property_info" where
  "ci_refresh I p = p\<lparr>ci_typeInfo := io_typeInfoForKey I (ci_keyName p), ci_doc := io_docForKey I (ci_keyName p),
     ci_declared := Some (io_keyDeclared I (ci_keyName p)), ci_providers := io_providersForKey I (ci_keyName p)\<rparr>"

definition ci_new :: "info_ops \<Rightarrow> key \<Rightarrow> property_info" where
  "ci_new I key =
     (let p = \<lparr>ci_keyName = key, ci_doc = [], ci_typeInfo = VInvalid, ci_declared = None, ci_providers = []\<rparr>
      in if key \<noteq> [] then ci_refresh I p else p)"

definition ci_type :: "qt_lib \<Rightarrow> property_info \<Rightarrow> string" where
  "ci_type Q p = (let typeInfoName = tree_name Q (ci_typeInfo p) in
     if typeInfoName = ''integer'' then ''INT''
     else if typeInfoName = ''bool'' then ''TRUTH''
     else if typeInfoName = ''string'' then ''STRING''
     else if typeInfoName = ''number'' then ''DOUBLE''
     else [])"

definition ci_provided :: "property_info \<Rightarrow> bool" where
  "ci_provided p = (length (ci_providers p) > 0)"

definition ci_deprecated :: "info_ops \<Rightarrow> property_info \<Rightarrow> bool" where
  "ci_deprecated I p = io_keyDeprecated I (ci_keyName p)"

definition ci_plugin :: "property_info \<Rightarrow> string" where
  "ci_plugin p = (if length (ci_providers p) = 0 then [] else pi_plugin (ci_providers p ! 0))"

definition ci_constructionString :: "property_info \<Rightarrow> string" where
  "ci_constructionString p = (if length (ci_providers p) = 0 then [] else pi_construction (ci_providers p ! 0))"

definition ci_providerDBusName :: "property_info \<Rightarrow> string" where
  "ci_providerDBusName p =
     (if length (ci_providers p) = 0 then []
      else let plg = pi_plugin (ci_providers p ! 0); constructionString = pi_construction (ci_providers p ! 0)
           in if plg = ''contextkit-dbus'' then last (qs_split (CHR '':'') constructionString) else [])"

definition ci_providerDBusType :: "property_info \<Rightarrow> bus_type" where
  "ci_providerDBusType p =
     (let busType = (if length (ci_providers p) > 0 \<and> pi_plugin (ci_providers p ! 0) = ''contextkit-dbus''
        then hd (qs_split (CHR '':'') (pi_construction (ci_providers p ! 0))) else [])
      in if busType = ''system'' then SystemBus else SessionBus)"

definition ci_onKeyChanged :: "qt_lib \<Rightarrow> info_ops \<Rightarrow> key \<Rightarrow> property_info \<Rightarrow> property_info \<times> ci_signal list" where
  "ci_onKeyChanged Q I key p =
     (if key \<noteq> ci_keyName p then (p, [])
      else let p1 = ci_refresh I p in
        (p1, [CIChanged (ci_keyName p1), CITypeChanged (ci_type Q p1), CIExistsChanged (ci_declared p1 = Some True),
              CIProvidedChanged (ci_provided p1), CIProviderChanged (ci_providerDBusName p1),
              CIProviderDBusTypeChanged (ci_providerDBusType p1),
              CIPluginChanged (ci_plugin p1) (ci_constructionString p1)]))"

text \<open>The announcements of the backend delivered one after the other; the backend already answers anew.\<close>

fun ci_deliver :: "qt_lib \<Rightarrow> info_ops \<Rightarrow> ib_signal list \<Rightarrow> property_info \<Rightarrow> property_info \<times> ci_signal list" where
  "ci_deliver Q I [] p = (p, [])"
| "ci_deliver Q I (KeyChanged k # ss) p = (case ci_onKeyChanged Q I k p of (p1, o1) \<Rightarrow>
     case ci_deliver Q I ss p1 of (p2, o2) \<Rightarrow> (p2, o1 @ o2))"
| "ci_deliver Q I (_ # ss) p = ci_deliver Q I ss p"

fun ci_changes :: "ci_signal list \<Rightarrow> nat" where
  "ci_changes [] = 0"
| "ci_changes (CIChanged _ # ss) = Suc (ci_changes ss)"
| "ci_changes (_ # ss) = ci_changes ss"

section \<open>The cache follows the backend\<close>

lemma ci_refresh_key [simp]: "ci_keyName (ci_refresh I p) = ci_keyName p"
  by (simp add: ci_refresh_def)

lemma ci_refresh_idem [simp]: "ci_refresh I (ci_refresh J p) = ci_refresh I p"
  by (simp add: ci_refresh_def)

lemma ci_new_key [simp]: "ci_keyName (ci_new I k) = k"
  by (simp add: ci_new_def Let_def)

lemma ci_refresh_new: "k \<noteq> [] \<Longrightarrow> ci_refresh I (ci_new J k) = ci_new I k"
  by (simp add: ci_new_def Let_def)

lemma ci_changes_append: "ci_changes (xs @ ys) = ci_changes xs + ci_changes ys"
  by (induction xs rule: ci_changes.induct) auto

lemma count_list_distinct: "distinct xs \<Longrightarrow> count_list xs x = (if x \<in> set xs then 1 else 0)"
  by (induction xs) auto

lemma ci_onKeyChanged_fst:
  "fst (ci_onKeyChanged Q I k p) = (if k = ci_keyName p then ci_refresh I p else p)"
  "ci_changes (snd (ci_onKeyChanged Q I k p)) = (if k = ci_keyName p then 1 else 0)"
  by (auto simp: ci_onKeyChanged_def Let_def)

lemma ci_deliver_spec:
  "fst (ci_deliver Q I ss p) =
     (if ci_keyName p \<in> set (List.map_filter changed_key ss) then ci_refresh I p else p) \<and>
   ci_changes (snd (ci_deliver Q I ss p)) = count_list (List.map_filter changed_key ss) (ci_keyName p)"
proof (induction Q I ss p rule: ci_deliver.induct)
  case (2 Q I k ss p)
  obtain p1 o1 where 1: "ci_onKeyChanged Q I k p = (p1, o1)" by fastforce
  obtain p2 o2 where 2: "ci_deliver Q I ss p1 = (p2, o2)" by fastforce
  show ?case
    using "2.IH" [OF 1 [symmetric]] 1 2 ci_onKeyChanged_fst [of Q I k p]
    by (auto simp: List.map_filter_simps ci_changes_append split: if_splits)
qed (auto simp: List.map_filter_simps)

context info_registry
begin

text \<open>When the registry rereads and announces, the cache becomes that of a new object.\<close>

lemma cache_follows:
  assumes "ok s" and "ok s'" and "k \<noteq> []"
  shows "fst (ci_deliver Q (ops s') (ib_announce (io_listKeys (ops s')) (io_listKeys (ops s))) (ci_new (ops s) k)) =
      ci_new (ops s') k \<and>
    ci_changes (snd (ci_deliver Q (ops s') (ib_announce (io_listKeys (ops s')) (io_listKeys (ops s))) (ci_new (ops s) k))) =
      (if io_keyDeclared (ops s) k \<or> io_keyDeclared (ops s') k then 1 else 0)"
proof -
  let ?ch = "List.map_filter changed_key (ib_announce (io_listKeys (ops s')) (io_listKeys (ops s)))"
  have d: "distinct ?ch" "set ?ch = {k. io_keyDeclared (ops s) k \<or> io_keyDeclared (ops s') k}"
    using listed_once [OF assms(1)] listed_once [OF assms(2)] declared_iff assms(1,2)
    by (auto simp: announced_changes)
  have "ci_new (ops s) k = ci_new (ops s') k" if "k \<notin> set ?ch"
    using that d(2) undeclared_defaults declared_iff assms by (simp add: ci_new_def ci_refresh_def Let_def)
  then show ?thesis
    using ci_deliver_spec [of Q "ops s'" _ "ci_new (ops s) k"] d ci_refresh_new [OF assms(3)]
    by (auto simp: count_list_distinct)
qed

lemma no_type_no_provider:
  "ok s \<Longrightarrow> k \<noteq> [] \<Longrightarrow> ci_declared (ci_new (ops s) k) = Some False \<Longrightarrow>
    ci_type Q (ci_new (ops s) k) = [] \<and> \<not> ci_provided (ci_new (ops s) k) \<and> ci_plugin (ci_new (ops s) k) = []"
  using undeclared_defaults declared_iff
  by (simp add: ci_new_def ci_refresh_def ci_type_def ci_provided_def ci_plugin_def tree_name_def tree_nameq_def qs_str_def)

end

section \<open>Provider strings\<close>

text \<open>The deprecated accessors take an old-style provider declaration apart again: for a provider
  that was declared with a bus and a service name the D-Bus name and the bus type are the ones
  declared, as long as they contain no colon.\<close>

lemma old_style_provider_recovered:
  assumes "CHR '':'' \<notin> set bus" and "CHR '':'' \<notin> set service"
    and "ci_providers p = \<lparr>pi_plugin = ''contextkit-dbus'', pi_construction = bus @ '':'' @ service\<rparr> # ps"
  shows "ci_providerDBusName p = service \<and>
    ci_providerDBusType p = (if bus = ''system'' then SystemBus else SessionBus) \<and> ci_provided p \<and>
    ci_plugin p = ''contextkit-dbus'' \<and> ci_constructionString p = bus @ '':'' @ service"
  using assms by (simp add: ci_providerDBusName_def ci_providerDBusType_def ci_provided_def ci_plugin_def
      ci_constructionString_def qs_split_append qs_split_notin Let_def)

lemma old_style_provider_recovered_witness:
  "ci_providerDBusName \<lparr>ci_keyName = ''A.b'', ci_doc = [], ci_typeInfo = VInvalid, ci_declared = Some True,
     ci_providers = [\<lparr>pi_plugin = ''contextkit-dbus'', pi_construction = ''system:org.x''\<rparr>]\<rparr> = ''org.x''"
  using old_style_provider_recovered [of "''system''" "''org.x''"] by simp

end
