(* ===== verification/Registry_Info.thy ===== *)
theory Registry_Info
  imports Property_Info
begin

text \<open>
  \<open>ContextRegistryInfo\<close> (contextregistryinfo.cpp): questions about the whole registry,
  answered from the backend's key list and the providers of each key. A \<open>QSet\<close> is listed in
  insertion order. The last section has the life of this singleton and of the backend's.
\<close>

section \<open>ContextRegistryInfo\<close>

text \<open>The keys, or strings taken from providers, that the nested loops collect.\<close>

definition ri_listKeys :: "info_ops \<Rightarrow> key list" where
  "ri_listKeys I = io_listKeys I"

definition dbus_name :: "provider_info \<Rightarrow> string" where
  "dbus_name info = last (qs_split (CHR '':'') (pi_construction info))"

definition ri_listKeysOf :: "info_ops \<Rightarrow> string \<Rightarrow> key list" where
  "ri_listKeysOf I providerName =
     fold (\<lambda>key. fold (\<lambda>info keys.
         if pi_plugin info = ''contextkit-dbus'' \<and> dbus_name info = providerName
         then qset_insert key keys else keys) (io_providersForKey I key))
       (ri_listKeys I) []"

definition ri_listKeysForPlugin :: "info_ops \<Rightarrow> string \<Rightarrow> key list" where
  "ri_listKeysForPlugin I plugin =
     fold (\<lambda>key. fold (\<lambda>info keys. if pi_plugin info = plugin then qset_insert key keys else keys)
         (io_providersForKey I key))
       (ri_listKeys I) []"

definition ri_listProviders :: "info_ops \<Rightarrow> string list" where
  "ri_listProviders I =
     fold (\<lambda>key. fold (\<lambda>info providers.
         if pi_plugin info = ''contextkit-dbus'' then qset_insert (dbus_name info) providers else providers)
         (io_providersForKey I key))
       (ri_listKeys I) []"

definition ri_listPlugins :: "info_ops \<Rightarrow> string list" where
  "ri_listPlugins I =
     fold (\<lambda>key. fold (\<lambda>info. qset_insert (pi_plugin info)) (io_providersForKey I key)) (ri_listKeys I) []"

definition ri_backendName :: "info_ops \<Rightarrow> string" where
  "ri_backendName I = io_name I"

datatype ri_signal = RIKeysChanged "key list" | RIKeysAdded "key list" | RIKeysRemoved "key list" | RIChanged

fun ri_slot :: "ib_signal \<Rightarrow> ri_signal list" where
  "ri_slot (KeysChanged ks) = [RIKeysChanged ks]"
| "ri_slot (KeysAdded ks) = [RIKeysAdded ks]"
| "ri_slot (KeysRemoved ks) = [RIKeysRemoved ks]"
| "ri_slot ListChanged = [RIChanged]"
| "ri_slot (KeyChanged _) = []"

section \<open>Lemmas\<close>

lemma fold_collect:
  assumes "\<And>x acc. set (f x acc) = set acc \<union> g x"
  shows "set (fold f xs acc) = set acc \<union> (\<Union>x \<in> set xs. g x)"
  using assms by (induction xs arbitrary: acc) auto

lemma fold_insert_if:
  "set (fold (\<lambda>x acc. if P x then qset_insert (h x) acc else acc) xs acc) = set acc \<union> {h x | x. x \<in> set xs \<and> P x}"
  by (induction xs arbitrary: acc) auto

lemma fold_distinct:
  assumes "\<And>x acc. distinct acc \<Longrightarrow> distinct (f x acc)"
  shows "distinct acc \<Longrightarrow> distinct (fold f xs acc)"
  using assms by (induction xs arbitrary: acc) auto

context info_registry
begin

text \<open>Provided keys are declared, so the loops over the listed keys find every one.\<close>

lemma keys_for_plugin:
  "ok s \<Longrightarrow> set (ri_listKeysForPlugin (ops s) plugin) =
    {k. \<exists>p \<in> set (io_providersForKey (ops s) k). pi_plugin p = plugin}"
  unfolding ri_listKeysForPlugin_def ri_listKeys_def
  by (subst fold_collect [where g = "\<lambda>k. {k | p. p \<in> set (io_providersForKey (ops s) k) \<and> pi_plugin p = plugin}"])
    (use fold_insert_if [where h = "\<lambda>_. k" for k] undeclared_defaults in \<open>fastforce+\<close>)

lemma plugins_listed:
  "ok s \<Longrightarrow> set (ri_listPlugins (ops s)) = {pi_plugin p | p k. p \<in> set (io_providersForKey (ops s) k)}"
  unfolding ri_listPlugins_def ri_listKeys_def
  by (subst fold_collect [where g = "\<lambda>k. {pi_plugin p | p. p \<in> set (io_providersForKey (ops s) k)}"])
    (use fold_insert_if [where h = pi_plugin and P = "\<lambda>_. True"] undeclared_defaults in \<open>fastforce+\<close>)

lemma registry_follows:
  "ok s \<Longrightarrow> ok s' \<Longrightarrow> concat (map ri_slot (ib_announce (io_listKeys (ops s')) (io_listKeys (ops s)))) =
    map RIKeysAdded (if \<exists>k. io_keyDeclared (ops s') k \<and> \<not> io_keyDeclared (ops s) k
      then [filter (\<lambda>k. \<not> io_keyDeclared (ops s) k) (ri_listKeys (ops s'))] else []) @
    map RIKeysRemoved (if \<exists>k. io_keyDeclared (ops s) k \<and> \<not> io_keyDeclared (ops s') k
      then [filter (\<lambda>k. \<not> io_keyDeclared (ops s') k) (ri_listKeys (ops s))] else []) @
    [RIKeysChanged (ri_listKeys (ops s')), RIChanged]"
  by (auto simp: ib_announce_def checkAndEmitKeysAdded_def checkAndEmitKeysRemoved_def checkAndEmitKeyChanged_def
      Let_def declared_iff ri_listKeys_def filter_empty_conv comp_def concat_eq_Nil_conv)

end

section \<open>The singletons\<close>

text \<open>
  The two singletons: the backend (infobackend.cpp) and the registry info, which connects to the
  backend when it is made (contextregistryinfo.cpp). \<open>rs_heard\<close> says whether the registry info is
  connected to the backend there is. \<open>destroyInstance\<close> deletes the backend, with its connections.
\<close>

record registry_singletons =
  rs_backend :: "backend_kind option"
  rs_info :: bool
  rs_heard :: bool

definition ib_getInstance :: "bool \<Rightarrow> string \<Rightarrow> registry_singletons \<Rightarrow> registry_singletons" where
  "ib_getInstance databaseExists backendName s = s\<lparr>rs_backend := Some (ib_instance databaseExists backendName (rs_backend s))\<rparr>"

definition ib_destroyInstance :: "registry_singletons \<Rightarrow> registry_singletons" where
  "ib_destroyInstance s = s\<lparr>rs_backend := None, rs_heard := False\<rparr>"

definition ri_instance :: "bool \<Rightarrow> string \<Rightarrow> registry_singletons \<Rightarrow> registry_singletons" where
  "ri_instance databaseExists backendName s =
     (if rs_info s then s
      else (ib_getInstance databaseExists backendName s)\<lparr>rs_info := True, rs_heard := True\<rparr>)"

datatype rs_event = RSBackend bool string | RSInfo bool string | RSDestroy

fun rs_step :: "rs_event \<Rightarrow> registry_singletons \<Rightarrow> registry_singletons" where
  "rs_step (RSBackend e n) s = ib_getInstance e n s"
| "rs_step (RSInfo e n) s = ri_instance e n s"
| "rs_step RSDestroy s = ib_destroyInstance s"

lemmas rs_defs = ib_getInstance_def ib_destroyInstance_def ri_instance_def ib_instance_def

text \<open>The first request decides the backend: whatever later requests name, it stays.\<close>

lemma backend_decided_once:
  "rs_backend s = Some b \<Longrightarrow> RSDestroy \<notin> set es \<Longrightarrow> rs_backend (fold rs_step es s) = Some b"
proof (induction es arbitrary: s)
  case (Cons e es)
  then show ?case by (cases e) (simp_all add: rs_defs)
qed simp

text \<open>Until the backend is destroyed the registry info hears it; afterwards it never hears one again,
  even when a new backend is made.\<close>

lemma registry_heard_until_destroyed:
  "(rs_info s \<longrightarrow> rs_heard s) \<Longrightarrow> RSDestroy \<notin> set es \<Longrightarrow>
    rs_info (fold rs_step es s) \<longrightarrow> rs_heard (fold rs_step es s)"
proof (induction es arbitrary: s)
  case (Cons e es)
  then show ?case by (cases e) (simp_all add: rs_defs)
qed simp

lemma registry_deaf_after_destroy:
  "rs_info s \<Longrightarrow> \<not> rs_heard (fold rs_step es (ib_destroyInstance s))"
proof -
  have "rs_info t \<Longrightarrow> \<not> rs_heard t \<Longrightarrow> \<not> rs_heard (fold rs_step es t)" for t
  proof (induction es arbitrary: t)
    case (Cons e es)
    then show ?case by (cases e) (simp_all add: rs_defs)
  qed simp
  then show "rs_info s \<Longrightarrow> \<not> rs_heard (fold rs_step es (ib_destroyInstance s))" by (simp add: rs_defs)
qed

end
