(* ===== verification/Info_Xml.thy ===== *)
theory Info_Xml
  imports Registry_Info Nano_Xml
begin

text \<open>
  \<open>InfoXmlBackend\<close> (infoxmlbackend.cpp): the registry read from a directory of
  \<open>.context\<close> files and the core declarations, kept in memory. The files are the parameter
  record \<open>registry_fs\<close>: which paths exist, which files a readable directory lists, and
  what the XML parser delivers for a file. A file whose root has no tag is indexed out of range
  by the code: the reading operations are then \<open>None\<close>.
\<close>

record registry_fs =
  fs_env :: "string \<Rightarrow> string option"
  fs_defaultProviders :: string
  fs_defaultCore :: string
  fs_exists :: "string \<Rightarrow> bool"
  fs_entries :: "string \<Rightarrow> string list option"
  fs_xml :: "string \<Rightarrow> sax_event list \<times> bool"

record info_key_data =
  ik_name :: key
  ik_typeInfo :: type_info
  ik_doc :: string
  ik_deprecated :: bool

record xml_backend =
  xb_keyData :: "(key \<times> info_key_data) list"
  xb_keyProviders :: "(key \<times> provider_info list) list"
  xb_watched :: "string list"
  xb_countOfFiles :: nat

definition xb_init :: xml_backend where
  "xb_init = \<lparr>xb_keyData = [], xb_keyProviders = [], xb_watched = [], xb_countOfFiles = 0\<rparr>"

section \<open>Paths\<close>

definition registryPath :: "registry_fs \<Rightarrow> string" where
  "registryPath F = (case fs_env F ''CONTEXT_PROVIDERS'' of None \<Rightarrow> fs_defaultProviders F | Some p \<Rightarrow> p)"

definition coreDeclPath :: "registry_fs \<Rightarrow> string" where
  "coreDeclPath F = (case fs_env F ''CONTEXT_CORE_DECLARATIONS'' of None \<Rightarrow> fs_defaultCore F | Some p \<Rightarrow> p)"

section \<open>Queries\<close>

text \<open>\<open>keyDataHash.value(key)\<close> default-constructs the data of a missing key.\<close>

definition xb_data :: "key \<Rightarrow> xml_backend \<Rightarrow> info_key_data" where
  "xb_data k s = (case map_of (xb_keyData s) k of
      Some d \<Rightarrow> d | None \<Rightarrow> \<lparr>ik_name = [], ik_typeInfo = VInvalid, ik_doc = [], ik_deprecated = False\<rparr>)"

definition xb_contains :: "key \<Rightarrow> xml_backend \<Rightarrow> bool" where
  "xb_contains k s = (map_of (xb_keyData s) k \<noteq> None)"

definition xb_name :: string where
  "xb_name = ''xml''"

definition xb_listKeys :: "xml_backend \<Rightarrow> key list" where
  "xb_listKeys s = map (\<lambda>k. ik_name (xb_data k s)) (amap_keys (xb_keyData s))"

definition xb_docForKey :: "key \<Rightarrow> xml_backend \<Rightarrow> string" where
  "xb_docForKey k s = (if \<not> xb_contains k s then [] else ik_doc (xb_data k s))"

definition xb_keyDeclared :: "key \<Rightarrow> xml_backend \<Rightarrow> bool" where
  "xb_keyDeclared k s = (if xb_contains k s then True else False)"

definition xb_keyDeprecated :: "key \<Rightarrow> xml_backend \<Rightarrow> bool" where
  "xb_keyDeprecated k s = (if \<not> xb_contains k s then False else ik_deprecated (xb_data k s))"

definition xb_providersForKey :: "key \<Rightarrow> xml_backend \<Rightarrow> provider_info list" where
  "xb_providersForKey k s = (case map_of (xb_keyProviders s) k of None \<Rightarrow> [] | Some l \<Rightarrow> l)"

definition xb_typeInfoForKey :: "key \<Rightarrow> xml_backend \<Rightarrow> type_info" where
  "xb_typeInfoForKey k s = (if \<not> xb_contains k s then VInvalid else ik_typeInfo (xb_data k s))"

definition xb_ops :: "xml_backend \<Rightarrow> info_ops" where
  "xb_ops s = \<lparr>io_name = xb_name, io_listKeys = xb_listKeys s,
     io_typeInfoForKey = (\<lambda>k. xb_typeInfoForKey k s), io_docForKey = (\<lambda>k. xb_docForKey k s),
     io_keyDeclared = (\<lambda>k. xb_keyDeclared k s), io_keyDeprecated = (\<lambda>k. xb_keyDeprecated k s),
     io_providersForKey = (\<lambda>k. xb_providersForKey k s)\<rparr>"

section \<open>Reading the files\<close>

text \<open>The provider a declaration names, old-style declarations included; \<open>None\<close> when it names none.\<close>

definition xb_providerOf :: "qt_lib \<Rightarrow> assoc_tree \<Rightarrow> provider_info option" where
  "xb_providerOf Q providerTree =
     (let plugin = qv_toString Q (tree_value Q providerTree [''plugin'']);
          constructionString = qv_toString Q (tree_value Q providerTree [''constructionString'']);
          service = qv_toString Q (tree_value Q providerTree [''service'']);
          bus = qv_toString Q (tree_value Q providerTree [''bus''])
      in if plugin = [] then
           (if bus \<noteq> [] \<and> service \<noteq> []
            then Some \<lparr>pi_plugin = ''contextkit-dbus'', pi_construction = bus @ '':'' @ service\<rparr> else None)
         else Some \<lparr>pi_plugin = plugin, pi_construction = constructionString\<rparr>)"

definition xb_keyDataOf :: "qt_lib \<Rightarrow> assoc_tree \<Rightarrow> info_key_data" where
  "xb_keyDataOf Q keyTree =
     \<lparr>ik_name = qv_toString Q (tree_value Q keyTree [''name'']),
      ik_typeInfo = ti_ensureNewTypes Q (tree_value Q keyTree [''type'']),
      ik_doc = qv_toString Q (tree_value Q keyTree [''doc'']),
      ik_deprecated = qv_isValid (tree_node Q keyTree ''deprecated'')\<rparr>"

definition parseKey :: "qt_lib \<Rightarrow> assoc_tree \<Rightarrow> assoc_tree \<Rightarrow> xml_backend \<Rightarrow> xml_backend" where
  "parseKey Q keyTree providerTree s =
     (let keyData = xb_keyDataOf Q keyTree; key = ik_name keyData;
          s1 = (if xb_contains key s then s else s\<lparr>xb_keyData := amap_insert key keyData (xb_keyData s)\<rparr>)
      in case xb_providerOf Q providerTree of
           None \<Rightarrow> s1
         | Some p \<Rightarrow> s1\<lparr>xb_keyProviders := amap_insert key (xb_providersForKey key s1 @ [p]) (xb_keyProviders s1)\<rparr>)"

definition readKeyDataFromXml :: "qt_lib \<Rightarrow> registry_fs \<Rightarrow> string \<Rightarrow> xml_backend \<Rightarrow> xml_backend option" where
  "readKeyDataFromXml Q F path s = (case nx_initAndParse (fs_xml F path) of
      None \<Rightarrow> None
    | Some parser \<Rightarrow>
        if nr_failed parser then Some s
        else if nr_nspace parser \<noteq> [] \<and> nr_nspace parser \<noteq> backend_namespace then Some s
        else let rootTree = nr_result parser in
          (case qv_toList rootTree of
             [] \<Rightarrow> None
           | tag # _ \<Rightarrow>
             if qv_toString Q tag = ''provider'' \<or> qv_toString Q tag = ''properties'' then
               Some (fold (\<lambda>keyTree. if tree_name Q keyTree = ''key'' then parseKey Q keyTree rootTree else id)
                 (tree_nodes rootTree) s)
             else
               Some (fold (\<lambda>providerTree. if tree_name Q providerTree = ''provider'' then
                   fold (\<lambda>keyTree. if tree_name Q keyTree = ''key'' then parseKey Q keyTree providerTree else id)
                     (tree_nodes providerTree)
                 else id) (tree_nodes rootTree) s)))"

fun xb_readAll :: "qt_lib \<Rightarrow> registry_fs \<Rightarrow> string list \<Rightarrow> xml_backend \<Rightarrow> xml_backend option" where
  "xb_readAll Q F [] s = Some s"
| "xb_readAll Q F (f # fs) s = (case readKeyDataFromXml Q F f s of
      None \<Rightarrow> None
    | Some s1 \<Rightarrow> xb_readAll Q F fs (s1\<lparr>xb_watched := qset_insert f (xb_watched s1),
                                   xb_countOfFiles := Suc (xb_countOfFiles s1)\<rparr>))"

text \<open>The directory itself is watched all the time; \<open>xb_watched\<close> are the watched files.\<close>

definition regenerateKeyDataList :: "qt_lib \<Rightarrow> registry_fs \<Rightarrow> xml_backend \<Rightarrow> xml_backend option" where
  "regenerateKeyDataList Q F s =
     (let s0 = s\<lparr>xb_keyData := [], xb_keyProviders := [], xb_countOfFiles := 0, xb_watched := []\<rparr>
      in case (if fs_exists F (coreDeclPath F) then readKeyDataFromXml Q F (coreDeclPath F) s0 else Some s0) of
           None \<Rightarrow> None
         | Some s1 \<Rightarrow> (case fs_entries F (registryPath F) of
               None \<Rightarrow> Some s1
             | Some files \<Rightarrow> xb_readAll Q F files s1))"

definition xb_new :: "qt_lib \<Rightarrow> registry_fs \<Rightarrow> xml_backend option" where
  "xb_new Q F = regenerateKeyDataList Q F xb_init"

definition xb_onFileChanged ::
    "qt_lib \<Rightarrow> registry_fs \<Rightarrow> xml_backend \<Rightarrow> (xml_backend \<times> ib_signal list) option" where
  "xb_onFileChanged Q F s = (case regenerateKeyDataList Q F s of
      None \<Rightarrow> None
    | Some s1 \<Rightarrow> Some (s1, ib_announce (xb_listKeys s1) (xb_listKeys s)))"

definition xb_onDirectoryChanged ::
    "qt_lib \<Rightarrow> registry_fs \<Rightarrow> xml_backend \<Rightarrow> (xml_backend \<times> ib_signal list) option" where
  "xb_onDirectoryChanged Q F s =
     (let files = (case fs_entries F (registryPath F) of None \<Rightarrow> [] | Some fs \<Rightarrow> fs)
      in if length files = xb_countOfFiles s then Some (s, [])
         else (case regenerateKeyDataList Q F s of
             None \<Rightarrow> None
           | Some s1 \<Rightarrow> Some (s1, ib_announce (xb_listKeys s1) (xb_listKeys s))))"

section \<open>Declarations: what the files say\<close>

text \<open>
  The abstract registry: the list of declarations, each a key element with its provider
  element, in the order of the files and of the elements in them.
\<close>

type_synonym decl = "assoc_tree \<times> assoc_tree"

definition keys_of :: "qt_lib \<Rightarrow> assoc_tree \<Rightarrow> decl list" where
  "keys_of Q p = map (\<lambda>k. (k, p)) (filter (\<lambda>k. tree_name Q k = ''key'') (tree_nodes p))"

definition file_decls :: "qt_lib \<Rightarrow> assoc_tree \<Rightarrow> decl list" where
  "file_decls Q root =
     (if qv_toString Q (hd (qv_toList root)) \<in> {''provider'', ''properties''} then keys_of Q root
      else concat (map (keys_of Q) (filter (\<lambda>p. tree_name Q p = ''provider'') (tree_nodes root))))"

definition xml_decls :: "qt_lib \<Rightarrow> registry_fs \<Rightarrow> string \<Rightarrow> decl list" where
  "xml_decls Q F path = (case nx_initAndParse (fs_xml F path) of
      None \<Rightarrow> []
    | Some r \<Rightarrow> if nr_failed r \<or> nr_nspace r \<notin> {[], backend_namespace} then [] else file_decls Q (nr_result r))"

definition registry_decls :: "qt_lib \<Rightarrow> registry_fs \<Rightarrow> decl list" where
  "registry_decls Q F =
     (if fs_exists F (coreDeclPath F) then xml_decls Q F (coreDeclPath F) else []) @
     concat (map (xml_decls Q F) (case fs_entries F (registryPath F) of None \<Rightarrow> [] | Some fs \<Rightarrow> fs))"

definition decl_data :: "qt_lib \<Rightarrow> decl \<Rightarrow> info_key_data" where
  "decl_data Q d = xb_keyDataOf Q (fst d)"

definition decl_key :: "qt_lib \<Rightarrow> decl \<Rightarrow> key" where
  "decl_key Q d = ik_name (decl_data Q d)"

definition decls_for :: "qt_lib \<Rightarrow> key \<Rightarrow> decl list \<Rightarrow> decl list" where
  "decls_for Q k ds = filter (\<lambda>d. decl_key Q d = k) ds"

definition decl_providers :: "qt_lib \<Rightarrow> decl list \<Rightarrow> provider_info list" where
  "decl_providers Q ds = List.map_filter (\<lambda>d. xb_providerOf Q (snd d)) ds"

definition reads_decls :: "qt_lib \<Rightarrow> decl list \<Rightarrow> xml_backend \<Rightarrow> bool" where
  "reads_decls Q ds s =
     (distinct (map fst (xb_keyData s)) \<and> fst ` set (xb_keyData s) = decl_key Q ` set ds \<and>
      (\<forall>k. map_of (xb_keyData s) k =
        (case decls_for Q k ds of [] \<Rightarrow> None | d # _ \<Rightarrow> Some (decl_data Q d))) \<and>
      (\<forall>k. xb_providersForKey k s = decl_providers Q (decls_for Q k ds)))"

lemma decls_for_append [simp]: "decls_for Q k (ds @ es) = decls_for Q k ds @ decls_for Q k es"
  by (simp add: decls_for_def)

lemma decl_providers_append [simp]: "decl_providers Q (ds @ es) = decl_providers Q ds @ decl_providers Q es"
  by (simp add: decl_providers_def)

lemma decls_for_Nil_iff: "decls_for Q k ds = [] \<longleftrightarrow> k \<notin> decl_key Q ` set ds"
  by (auto simp: decls_for_def filter_empty_conv)

lemma parseKey_reads:
  assumes "reads_decls Q ds s"
  shows "reads_decls Q (ds @ [d]) (parseKey Q (fst d) (snd d) s)"
proof -
  define s1 where "s1 = (if xb_contains (decl_key Q d) s then s
    else s\<lparr>xb_keyData := amap_insert (decl_key Q d) (decl_data Q d) (xb_keyData s)\<rparr>)"
  have p: "xb_keyData (parseKey Q (fst d) (snd d) s) = xb_keyData s1"
    "xb_providersForKey k (parseKey Q (fst d) (snd d) s) =
       xb_providersForKey k s @ (if k = decl_key Q d then decl_providers Q [d] else [])" for k
    by (auto simp: parseKey_def s1_def decl_key_def decl_data_def Let_def xb_providersForKey_def
        decl_providers_def List.map_filter_simps split: option.splits)
  have s1: "distinct (map fst (xb_keyData s1))"
    "fst ` set (xb_keyData s1) = insert (decl_key Q d) (fst ` set (xb_keyData s))"
    using assms map_of_eq_None_iff [of "xb_keyData s" "decl_key Q d"]
    by (auto simp add: s1_def reads_decls_def xb_contains_def insert_absorb)
  have s1_of: "map_of (xb_keyData s1) k = (if map_of (xb_keyData s) k = None \<and> k = decl_key Q d
       then Some (decl_data Q d) else map_of (xb_keyData s) k)" for k
    by (simp add: s1_def xb_contains_def)
  have one: "decls_for Q k [d] = (if k = decl_key Q d then [d] else [])" for k
    by (simp add: decls_for_def)
  note old = assms [unfolded reads_decls_def]
  have "map_of (xb_keyData s1) k = (case decls_for Q k ds @ decls_for Q k [d] of [] \<Rightarrow> None | e # _ \<Rightarrow> Some (decl_data Q e))" for k
    using old by (cases "decls_for Q k ds") (simp_all add: s1_of one)
  moreover have "xb_providersForKey k s @ (if k = decl_key Q d then decl_providers Q [d] else []) =
      decl_providers Q (decls_for Q k ds @ decls_for Q k [d])" for k
    using old by (simp add: one) (simp add: decl_providers_def List.map_filter_simps)
  ultimately show ?thesis
    unfolding reads_decls_def decls_for_append p using old s1 by simp
qed

lemma parseKeys_read:
  "reads_decls Q ds s \<Longrightarrow> reads_decls Q (ds @ es) (fold (\<lambda>d. parseKey Q (fst d) (snd d)) es s)"
proof (induction es arbitrary: ds s)
  case (Cons e es)
  show ?case using Cons.IH [OF parseKey_reads [OF Cons.prems]] by simp
qed simp

lemma fold_keys_of:
  "fold (\<lambda>k. if tree_name Q k = ''key'' then parseKey Q k p else id) ks s =
     fold (\<lambda>d. parseKey Q (fst d) (snd d)) (map (\<lambda>k. (k, p)) (filter (\<lambda>k. tree_name Q k = ''key'') ks)) s"
  by (induction ks arbitrary: s) auto

lemma fold_providers:
  "fold (\<lambda>p. if tree_name Q p = ''provider'' then
       fold (\<lambda>k. if tree_name Q k = ''key'' then parseKey Q k p else id) (tree_nodes p) else id) ps s =
     fold (\<lambda>d. parseKey Q (fst d) (snd d))
       (concat (map (keys_of Q) (filter (\<lambda>p. tree_name Q p = ''provider'') ps))) s"
  by (induction ps arbitrary: s) (auto simp: keys_of_def fold_keys_of)

lemma readKeyData_fold:
  assumes "readKeyDataFromXml Q F path s = Some s'"
  shows "s' = fold (\<lambda>d. parseKey Q (fst d) (snd d)) (xml_decls Q F path) s"
  using assms
  by (auto simp: readKeyDataFromXml_def xml_decls_def file_decls_def Let_def fold_providers fold_keys_of keys_of_def
      split: option.splits if_splits list.splits)

lemma readAll_reads:
  "xb_readAll Q F fs s = Some s' \<Longrightarrow> reads_decls Q ds s \<Longrightarrow>
     reads_decls Q (ds @ concat (map (xml_decls Q F) fs)) s'"
proof (induction fs arbitrary: ds s)
  case (Cons f fs)
  then obtain s1 where r: "readKeyDataFromXml Q F f s = Some s1"
    and a: "xb_readAll Q F fs (s1\<lparr>xb_watched := qset_insert f (xb_watched s1), xb_countOfFiles := Suc (xb_countOfFiles s1)\<rparr>) = Some s'"
    by (auto split: option.splits)
  have "reads_decls Q (ds @ xml_decls Q F f) s1"
    using parseKeys_read [OF Cons.prems(2)] readKeyData_fold [OF r] by simp
  then have "reads_decls Q (ds @ xml_decls Q F f) (s1\<lparr>xb_watched := qset_insert f (xb_watched s1),
      xb_countOfFiles := Suc (xb_countOfFiles s1)\<rparr>)"
    by (simp add: reads_decls_def xb_providersForKey_def)
  from Cons.IH [OF a this] show ?case by simp
qed simp

lemma regenerate_reads:
  assumes "regenerateKeyDataList Q F s = Some s'"
  shows "reads_decls Q (registry_decls Q F) s'"
proof -
  let ?s0 = "s\<lparr>xb_keyData := [], xb_keyProviders := [], xb_countOfFiles := 0, xb_watched := []\<rparr>"
  let ?core = "if fs_exists F (coreDeclPath F) then xml_decls Q F (coreDeclPath F) else []"
  have "reads_decls Q [] ?s0"
    by (simp add: reads_decls_def decls_for_def decl_providers_def List.map_filter_simps xb_providersForKey_def)
  then have "reads_decls Q ?core s1"
    if "(if fs_exists F (coreDeclPath F) then readKeyDataFromXml Q F (coreDeclPath F) ?s0 else Some ?s0) = Some s1" for s1
    using that parseKeys_read [of Q "[]" ?s0 ?core] readKeyData_fold [of Q F "coreDeclPath F" ?s0 s1]
    by (auto split: if_splits)
  moreover obtain s1 where s1: "(if fs_exists F (coreDeclPath F) then readKeyDataFromXml Q F (coreDeclPath F) ?s0 else Some ?s0) = Some s1"
    and s': "(case fs_entries F (registryPath F) of None \<Rightarrow> Some s1 | Some files \<Rightarrow> xb_readAll Q F files s1) = Some s'"
    using assms by (auto simp: regenerateKeyDataList_def Let_def split: option.splits)
  ultimately have "reads_decls Q ?core s1" by blast
  with s' show ?thesis
    using readAll_reads [of Q F _ s1 s' ?core]
    by (cases "fs_exists F (coreDeclPath F)") (simp_all add: registry_decls_def split: option.splits)
qed

section \<open>The registry answers what the files declare\<close>

definition xb_ok :: "xml_backend \<Rightarrow> bool" where
  "xb_ok s = (distinct (map fst (xb_keyData s)) \<and> (\<forall>e \<in> set (xb_keyData s). ik_name (snd e) = fst e) \<and>
     (\<forall>k. xb_providersForKey k s \<noteq> [] \<longrightarrow> xb_contains k s))"

lemma xb_contains_iff: "xb_contains k s \<longleftrightarrow> k \<in> fst ` set (xb_keyData s)"
  by (simp add: xb_contains_def map_of_eq_None_iff)

lemma xb_listKeys_ok: "xb_ok s \<Longrightarrow> xb_listKeys s = map fst (xb_keyData s)"
  by (auto simp: xb_listKeys_def amap_keys_def xb_ok_def xb_data_def)

lemma reads_decls_ok:
  assumes "reads_decls Q ds s"
  shows "xb_ok s"
proof -
  have "ik_name d = k" if "(k, d) \<in> set (xb_keyData s)" for k d
  proof -
    have "map_of (xb_keyData s) k = Some d"
      using assms that unfolding reads_decls_def by (intro map_of_is_SomeI) auto
    moreover have "map_of (xb_keyData s) k = (case decls_for Q k ds of [] \<Rightarrow> None | d # _ \<Rightarrow> Some (decl_data Q d))"
      using assms unfolding reads_decls_def by blast
    ultimately obtain e es where "decls_for Q k ds = e # es" "d = decl_data Q e"
      by (auto split: list.splits)
    then have "e \<in> set (decls_for Q k ds)" by simp
    then show ?thesis using \<open>d = _\<close> by (simp add: decls_for_def decl_key_def)
  qed
  then show ?thesis
    using assms by (auto simp: xb_ok_def reads_decls_def xb_contains_iff decl_providers_def List.map_filter_simps
        decls_for_Nil_iff [symmetric] dest: arg_cong [of _ _ set])
qed

interpretation xml: info_registry xb_ok xb_ops
proof
  fix s k assume "xb_ok s"
  note l = xb_listKeys_ok [OF this]
  show "distinct (io_listKeys (xb_ops s))" and "io_keyDeclared (xb_ops s) k \<longleftrightarrow> k \<in> set (io_listKeys (xb_ops s))"
    using \<open>xb_ok s\<close> by (simp_all add: xb_ops_def l xb_keyDeclared_def xb_contains_iff xb_ok_def)
  assume "k \<notin> set (io_listKeys (xb_ops s))"
  then have "\<not> xb_contains k s" by (simp add: xb_ops_def l xb_contains_iff)
  then show "io_typeInfoForKey (xb_ops s) k = VInvalid \<and> io_docForKey (xb_ops s) k = [] \<and>
      \<not> io_keyDeprecated (xb_ops s) k \<and> io_providersForKey (xb_ops s) k = []"
    using \<open>xb_ok s\<close> by (auto simp: xb_ops_def xb_typeInfoForKey_def xb_docForKey_def xb_keyDeprecated_def xb_ok_def)
qed

lemma regenerate_ok: "regenerateKeyDataList Q F s = Some s' \<Longrightarrow> xb_ok s'"
  using regenerate_reads reads_decls_ok by blast

lemma regenerate_answers:
  assumes "regenerateKeyDataList Q F s = Some s'"
  shows "distinct (xb_listKeys s') \<and> set (xb_listKeys s') = decl_key Q ` set (registry_decls Q F) \<and>
    xb_keyDeclared k s' = (k \<in> decl_key Q ` set (registry_decls Q F)) \<and>
    xb_providersForKey k s' = decl_providers Q (decls_for Q k (registry_decls Q F)) \<and>
    (case decls_for Q k (registry_decls Q F) of
       [] \<Rightarrow> xb_typeInfoForKey k s' = VInvalid \<and> xb_docForKey k s' = [] \<and> \<not> xb_keyDeprecated k s'
     | d # _ \<Rightarrow> xb_typeInfoForKey k s' = ik_typeInfo (decl_data Q d) \<and> xb_docForKey k s' = ik_doc (decl_data Q d) \<and>
         xb_keyDeprecated k s' = ik_deprecated (decl_data Q d))"
proof -
  note r = regenerate_reads [OF assms, unfolded reads_decls_def]
  have c: "xb_contains k s' \<longleftrightarrow> decls_for Q k (registry_decls Q F) \<noteq> []"
    using r by (simp add: xb_contains_iff decls_for_Nil_iff)
  have "decls_for Q k (registry_decls Q F) = d # ds \<Longrightarrow> xb_data k s' = decl_data Q d" for d ds
    using r by (simp add: xb_data_def)
  then show ?thesis
    using r c xb_listKeys_ok [OF regenerate_ok [OF assms]]
    by (auto simp: xb_keyDeclared_def xb_typeInfoForKey_def xb_docForKey_def xb_keyDeprecated_def decls_for_Nil_iff
        split: list.splits)
qed

text \<open>C18: whatever the registry held before, after rereading it answers exactly what the files
  declare: it lists each declared key once, gives type, documentation and deprecation of the
  first declaration of the key (core declarations come first), and the providers of all its
  declarations in order.\<close>

theorem xml_registry_reads:
  assumes "regenerateKeyDataList Q F s = Some s'"
  shows "distinct (xb_listKeys s') \<and> set (xb_listKeys s') = decl_key Q ` set (registry_decls Q F) \<and>
    xb_keyDeclared k s' = (k \<in> decl_key Q ` set (registry_decls Q F)) \<and>
    xb_providersForKey k s' = decl_providers Q (decls_for Q k (registry_decls Q F)) \<and>
    (case decls_for Q k (registry_decls Q F) of
       [] \<Rightarrow> xb_typeInfoForKey k s' = VInvalid \<and> xb_docForKey k s' = [] \<and> \<not> xb_keyDeprecated k s'
     | d # _ \<Rightarrow> xb_typeInfoForKey k s' = ik_typeInfo (decl_data Q d) \<and> xb_docForKey k s' = ik_doc (decl_data Q d) \<and>
         xb_keyDeprecated k s' = ik_deprecated (decl_data Q d))"
  using assms by (rule regenerate_answers)

definition sample_fs :: registry_fs where
  "sample_fs = \<lparr>fs_env = (\<lambda>_. None), fs_defaultProviders = ''/p'', fs_defaultCore = ''/core'',
     fs_exists = (\<lambda>f. f = ''/core''), fs_entries = (\<lambda>d. if d = ''/p'' then Some [''/p/a.context''] else None),
     fs_xml = (\<lambda>f. if f = ''/core'' then
         (sax_events (Element ''properties'' [] [Element ''key'' [(''name'', ''A.b''), (''type'', ''integer'')]
            [Element ''doc'' [] [Text ''first'']]]), True)
       else (sax_events (Element ''provider'' [(''bus'', ''session''), (''service'', ''org.x'')]
         [Element ''key'' [(''name'', ''A.b''), (''type'', ''string'')] [], Element ''key'' [(''name'', ''A.c'')] []]), True))\<rparr>"

lemma xml_registry_reads_witness:
  "\<exists>s. xb_new qt_ref sample_fs = Some s \<and> xb_providersForKey ''A.b'' s =
      [\<lparr>pi_plugin = ''contextkit-dbus'', pi_construction = ''session:org.x''\<rparr>] \<and> xb_docForKey ''A.b'' s = ''first''"
proof -
  obtain s where s: "regenerateKeyDataList qt_ref sample_fs xb_init = Some s"
    by (cases "regenerateKeyDataList qt_ref sample_fs xb_init") (simp, code_simp)
  have d: "decls_for qt_ref ''A.b'' (registry_decls qt_ref sample_fs) =
      [(VList [VString ''key'', VList [VString ''name'', VString ''A.b''], VList [VString ''type'', VString ''integer''],
         VList [VString ''doc'', VString ''first'']],
        hd (map snd (decls_for qt_ref ''A.b'' (registry_decls qt_ref sample_fs)))),
       (last (decls_for qt_ref ''A.b'' (registry_decls qt_ref sample_fs)))]" by code_simp
  have p: "decl_providers qt_ref (decls_for qt_ref ''A.b'' (registry_decls qt_ref sample_fs)) =
      [\<lparr>pi_plugin = ''contextkit-dbus'', pi_construction = ''session:org.x''\<rparr>]" by code_simp
  have "ik_doc (decl_data qt_ref (hd (decls_for qt_ref ''A.b'' (registry_decls qt_ref sample_fs)))) = ''first''"
    by code_simp
  then show ?thesis
    using xml_registry_reads [OF s, of "''A.b''"] s d p by (auto simp: xb_new_def split: list.splits)
qed

section \<open>What the parser delivers is text and lists\<close>

fun text_tree :: "qvariant \<Rightarrow> bool" where
  "text_tree (VList xs) = list_all text_tree xs"
| "text_tree v = (v = VInvalid \<or> qv_type v = TString)"

definition nx_text :: "nano_xml \<Rightarrow> bool" where
  "nx_text s = (text_tree (nx_root s) \<and> list_all (list_all text_tree) (nx_stack s) \<and>
     (\<forall>xs. nx_current s = Some xs \<longrightarrow> list_all text_tree xs))"

lemma nx_addValue_text: "nx_addValue v s = Some s' \<Longrightarrow> nx_text s \<Longrightarrow> nx_text s'"
  by (auto simp: nx_addValue_def nx_text_def split: option.splits)

lemma nx_pushList_text: "nx_text s \<Longrightarrow> nx_text (nx_pushList s)"
  by (auto simp: nx_pushList_def nx_text_def split: option.splits)

lemma nx_popList_text: "nx_text s \<Longrightarrow> nx_text (nx_popList s)"
  by (auto simp: nx_popList_def nx_text_def split: option.splits list.splits)

lemma nx_attrs_text: "nx_attrs as s = Some s' \<Longrightarrow> nx_text s \<Longrightarrow> nx_text s'"
proof (induction as s rule: nx_attrs.induct)
  case (2 n v as s)
  then obtain s1 s2 where "nx_addValue n (nx_pushList s) = Some s1" "nx_addValue v s1 = Some s2"
      "nx_attrs as (nx_popList s2) = Some s'"
    by (auto simp: bind_eq_Some_conv)
  with 2 show ?case
    by (meson nx_addValue_text nx_popList_text nx_pushList_text)
qed simp

lemma nx_handle_text: "nx_handle e s = Some s' \<Longrightarrow> nx_text s \<Longrightarrow> nx_text s'"
proof (cases e)
  case (StartElement n as)
  then show "nx_handle e s = Some s' \<Longrightarrow> nx_text s \<Longrightarrow> nx_text s'"
    by (auto simp: nx_startElement_def bind_eq_Some_conv)
      (meson nx_attrs_text nx_addValue_text nx_pushList_text)
qed (auto simp: nx_startPrefixMapping_def nx_endElement_def nx_characters_def Let_def
    intro: nx_popList_text nx_addValue_text split: if_splits, simp add: nx_text_def)

lemma nx_run_text: "nx_run es s = Some s' \<Longrightarrow> nx_text s \<Longrightarrow> nx_text s'"
proof (induction es arbitrary: s)
  case (Cons e es)
  then show ?case by (auto simp: bind_eq_Some_conv dest: nx_handle_text)
qed simp

lemma parsed_text: "nx_initAndParse p = Some r \<Longrightarrow> text_tree (nr_result r)"
  by (auto simp: nx_initAndParse_def split: prod.splits dest!: nx_run_text)
    (simp_all add: nx_text_def nx_init_def)

lemma text_tree_nodes: "text_tree t \<Longrightarrow> list_all text_tree (tree_nodes t)"
  by (cases t) (auto simp: tree_nodes_def list_all_iff dest: in_set_dropD)

lemma text_tree_node: "text_tree t \<Longrightarrow> text_tree (tree_node Q t n)"
  using text_tree_nodes [of t] by (auto simp: tree_node_def find_Some_iff list_all_iff split: option.split)

lemma text_tree_value0: "text_tree t \<Longrightarrow> text_tree (tree_value0 t)"
  by (cases t) (auto simp: tree_value0_def list_all_iff)

lemma text_tree_value: "text_tree t \<Longrightarrow> text_tree (tree_value Q t [n])"
  by (simp add: tree_value_def tree_node_path_def text_tree_value0 text_tree_node)

lemma decls_text: "d \<in> set (registry_decls Q F) \<Longrightarrow> text_tree (fst d)"
proof -
  have "text_tree (fst d)" if x: "d \<in> set (xml_decls Q F path)" for path
  proof -
    obtain r where r: "nx_initAndParse (fs_xml F path) = Some r" and d: "d \<in> set (file_decls Q (nr_result r))"
      using x by (cases "nx_initAndParse (fs_xml F path)") (auto simp: xml_decls_def split: if_splits)
    have "text_tree (fst e)" if "e \<in> set (keys_of Q p)" "text_tree p" for e p
      using that text_tree_nodes [of p] by (auto simp: keys_of_def list_all_iff)
    then show ?thesis
      using d parsed_text [OF r] text_tree_nodes [OF parsed_text [OF r]]
      by (cases d) (auto simp: file_decls_def list_all_iff split: if_splits)
  qed
  then show "d \<in> set (registry_decls Q F) \<Longrightarrow> text_tree (fst d)"
    by (auto simp: registry_decls_def split: if_splits)
qed

lemma typeInfo_text:
  assumes "regenerateKeyDataList Q F s = Some s'"
  shows "text_tree (xb_typeInfoForKey k s')"
proof (cases "decls_for Q k (registry_decls Q F)")
  case (Cons d ds)
  then have "d \<in> set (decls_for Q k (registry_decls Q F))" by simp
  then have "text_tree (fst d)" using decls_text [of d Q F] by (simp add: decls_for_def)
  then show ?thesis
    using regenerate_answers [OF assms, of k] text_tree_value
    by (simp add: Cons decl_data_def xb_keyDataOf_def ti_ensureNewTypes_def Let_def)
qed (use regenerate_answers [OF assms, of k] in simp)

end
