(* ===== verification/Cdb_File.thy ===== *)
theory Cdb_File
  imports Qt_Variant
begin

text \<open>
  \<open>CDBWriter\<close> and \<open>CDBReader\<close> (cdbwriter.cpp, cdbreader.cpp): string keys and variant values
  over the constant-database library. The library, the variant stream of Qt and the UTF-8
  conversion are parameters (\<open>'d\<close> is a database, \<open>'b\<close> a streamed value); what their
  documentation promises is \<open>cdb_lib_ok\<close>.
  \<open>db_ref\<close> is a concrete instance: a list of records.
\<close>

type_synonym bytes = string

datatype cdb_put_mode = PutAdd | PutReplace | PutInsert

record ('d, 'b) cdb_lib =
  db_start :: 'd
  db_put :: "cdb_put_mode \<Rightarrow> bytes \<Rightarrow> 'b \<Rightarrow> 'd \<Rightarrow> 'd"
  db_find :: "'d \<Rightarrow> bytes \<Rightarrow> 'b list"
  db_valid :: "'d \<Rightarrow> bool"
  ds_write :: "qvariant \<Rightarrow> 'b"
  ds_read :: "'b \<Rightarrow> qvariant"
  toUtf8 :: "string \<Rightarrow> bytes"

text \<open>Values a variant stream carries: everything but unread D-Bus arguments.\<close>

fun streamable :: "qvariant \<Rightarrow> bool" where
  "streamable (VList xs) = list_all streamable xs"
| "streamable (VMap m) = list_all (\<lambda>e. streamable (snd e)) m"
| "streamable (VHash m) = list_all (\<lambda>e. streamable (snd e)) m"
| "streamable v = (qv_type v \<noteq> TDBusArgument)"

definition cdb_lib_ok :: "('d, 'b) cdb_lib \<Rightarrow> bool" where
  "cdb_lib_ok L =
     ((\<forall>k. db_find L (db_start L) k = []) \<and> db_valid L (db_start L) \<and>
      (\<forall>m k v d. db_valid L d \<longrightarrow> db_valid L (db_put L m k v d)) \<and>
      (\<forall>k v d k'. db_find L (db_put L PutAdd k v d) k' = (if k' = k then db_find L d k @ [v] else db_find L d k')) \<and>
      (\<forall>k v d k'. db_find L (db_put L PutReplace k v d) k' = (if k' = k then [v] else db_find L d k')) \<and>
      (\<forall>k v d k'. db_find L (db_put L PutInsert k v d) k' =
         (if k' = k \<and> db_find L d k = [] then [v] else db_find L d k')) \<and>
      (\<forall>v. streamable v \<longrightarrow> ds_read L (ds_write L v) = v) \<and> inj (toUtf8 L))"

section \<open>The writer\<close>

text \<open>\<open>cw_cdbm\<close> is the database being made, absent when the writer is closed.\<close>

record 'd cdb_writer =
  cw_cdbm :: "'d option"
  cw_fd :: int

definition cw_new :: "('d, 'b) cdb_lib \<Rightarrow> int \<Rightarrow> 'd cdb_writer" where
  "cw_new L fdd = \<lparr>cw_cdbm = (if fdd > 0 then Some (db_start L) else None), cw_fd = fdd\<rparr>"

text \<open>The constructor from a path; \<open>fdd\<close> is what \<open>open\<close> gives for it.\<close>

definition cw_open :: "('d, 'b) cdb_lib \<Rightarrow> int \<Rightarrow> 'd cdb_writer" where
  "cw_open L fdd = \<lparr>cw_cdbm = (if fdd > 0 then Some (db_start L) else None), cw_fd = fdd\<rparr>"

definition cw_put :: "('d, 'b) cdb_lib \<Rightarrow> cdb_put_mode \<Rightarrow> string \<Rightarrow> qvariant \<Rightarrow> 'd cdb_writer \<Rightarrow> 'd cdb_writer" where
  "cw_put L flag key val w = (case cw_cdbm w of
      None \<Rightarrow> w
    | Some d \<Rightarrow> w\<lparr>cw_cdbm := Some (db_put L flag (toUtf8 L key) (ds_write L val) d)\<rparr>)"

definition cw_add :: "('d, 'b) cdb_lib \<Rightarrow> string \<Rightarrow> qvariant \<Rightarrow> 'd cdb_writer \<Rightarrow> 'd cdb_writer" where
  "cw_add L key val w = cw_put L PutAdd key val w"

definition cw_insert :: "('d, 'b) cdb_lib \<Rightarrow> string \<Rightarrow> qvariant \<Rightarrow> 'd cdb_writer \<Rightarrow> 'd cdb_writer" where
  "cw_insert L key val w = cw_put L PutInsert key val w"

definition cw_replace :: "('d, 'b) cdb_lib \<Rightarrow> string \<Rightarrow> qvariant \<Rightarrow> 'd cdb_writer \<Rightarrow> 'd cdb_writer" where
  "cw_replace L key val w = cw_put L PutReplace key val w"

text \<open>Closing finishes the file: the result is its content, if one was being made.\<close>

definition cw_close :: "'d cdb_writer \<Rightarrow> 'd option \<times> 'd cdb_writer" where
  "cw_close w = (cw_cdbm w, w\<lparr>cw_cdbm := None, cw_fd := (if cw_fd w > 0 then 0 else cw_fd w)\<rparr>)"

definition cw_isWritable :: "'d cdb_writer \<Rightarrow> bool" where
  "cw_isWritable w = (cw_fd w > 0)"

section \<open>The reader\<close>

text \<open>
  A file is there or not, can be opened or not, and holds a valid database or not; the
  reader is readable as soon as the file is open.
\<close>

datatype 'd db_file = NoFile | Unopenable | File 'd

record 'd cdb_reader =
  cr_cdb :: "'d option"
  cr_fd :: int

definition cr_close :: "'d cdb_reader \<Rightarrow> 'd cdb_reader" where
  "cr_close r = r\<lparr>cr_cdb := None, cr_fd := (if cr_fd r > 0 then 0 else cr_fd r)\<rparr>"

definition cr_reopen :: "('d, 'b) cdb_lib \<Rightarrow> int \<Rightarrow> 'd db_file \<Rightarrow> 'd cdb_reader \<Rightarrow> 'd cdb_reader" where
  "cr_reopen L fd file r = (let r1 = cr_close r in case file of
      NoFile \<Rightarrow> r1
    | Unopenable \<Rightarrow> r1\<lparr>cr_fd := -1\<rparr>
    | File d \<Rightarrow> r1\<lparr>cr_fd := fd, cr_cdb := (if fd > 0 \<and> db_valid L d then Some d else None)\<rparr>)"

definition cr_new :: "('d, 'b) cdb_lib \<Rightarrow> int \<Rightarrow> 'd db_file \<Rightarrow> 'd cdb_reader" where
  "cr_new L fd file = cr_reopen L fd file \<lparr>cr_cdb = None, cr_fd = 0\<rparr>"

definition cr_valuesForKey :: "('d, 'b) cdb_lib \<Rightarrow> string \<Rightarrow> 'd cdb_reader \<Rightarrow> qvariant list" where
  "cr_valuesForKey L key r = (case cr_cdb r of
      None \<Rightarrow> []
    | Some d \<Rightarrow> map (ds_read L) (db_find L d (toUtf8 L key)))"

definition cr_valueForKey :: "('d, 'b) cdb_lib \<Rightarrow> string \<Rightarrow> 'd cdb_reader \<Rightarrow> qvariant" where
  "cr_valueForKey L key r = (let ret = cr_valuesForKey L key r in
     if length ret = 0 then VInvalid else ret ! 0)"

definition cr_isReadable :: "'d cdb_reader \<Rightarrow> bool" where
  "cr_isReadable r = (cr_fd r > 0)"

section \<open>The store as its users see it\<close>

text \<open>
  The interface the update tool writes through: values are added to a name or replace what
  is there, other names are untouched.
\<close>

locale keyed_store =
  fixes ok :: "'w \<Rightarrow> bool" and okv :: "'v \<Rightarrow> bool"
    and add :: "string \<Rightarrow> 'v \<Rightarrow> 'w \<Rightarrow> 'w" and replace :: "string \<Rightarrow> 'v \<Rightarrow> 'w \<Rightarrow> 'w"
    and vals :: "'w \<Rightarrow> string \<Rightarrow> 'v list"
  assumes add_ok: "ok w \<Longrightarrow> ok (add k v w)"
    and replace_ok: "ok w \<Longrightarrow> ok (replace k v w)"
    and vals_add: "ok w \<Longrightarrow> okv v \<Longrightarrow> vals (add k v w) k' = (if k' = k then vals w k @ [v] else vals w k')"
    and vals_replace: "ok w \<Longrightarrow> okv v \<Longrightarrow> vals (replace k v w) k' = (if k' = k then [v] else vals w k')"
begin

lemma ok_fold: "(\<And>x w. ok w \<Longrightarrow> ok (f x w)) \<Longrightarrow> ok w \<Longrightarrow> ok (fold f xs w)"
  by (induction xs arbitrary: w) auto

text \<open>A fold whose step sets a name of its own for each element, and touches no other element's.\<close>

lemma fold_owned:
  assumes "ok w" and "distinct xs" and ok: "\<And>x w. ok w \<Longrightarrow> ok (f x w)"
    and own: "\<And>x w. ok w \<Longrightarrow> x \<in> set xs \<Longrightarrow> vals (f x w) (n x) = g x (vals w (n x))"
    and other: "\<And>x y w. ok w \<Longrightarrow> x \<in> set xs \<Longrightarrow> x \<noteq> y \<Longrightarrow> vals (f x w) (n y) = vals w (n y)"
  shows "vals (fold f xs w) (n y) = (if y \<in> set xs then g y (vals w (n y)) else vals w (n y))"
  using assms(1,2) own other
proof (induction xs arbitrary: w)
  case (Cons x xs)
  have "vals (fold f xs (f x w)) (n y) = (if y \<in> set xs then g y (vals (f x w) (n y)) else vals (f x w) (n y))"
    by (rule Cons.IH) (use Cons.prems ok in auto)
  moreover have "x \<noteq> y \<Longrightarrow> vals (f x w) (n y) = vals w (n y)" using Cons.prems(1,4) by simp
  ultimately show ?case using Cons.prems(1,2,3) by (cases "x = y") auto
qed simp

text \<open>A fold whose step adds one value to a common name.\<close>

lemma fold_listed:
  assumes "ok w" and ok: "\<And>x w. ok w \<Longrightarrow> ok (f x w)"
    and step: "\<And>x w. ok w \<Longrightarrow> vals (f x w) n = vals w n @ [g x]"
  shows "vals (fold f xs w) n = vals w n @ map g xs"
  using assms(1) by (induction xs arbitrary: w) (auto simp: ok step)

end

text \<open>What a reader of the closed file will find.\<close>

definition cw_vals :: "('d, 'b) cdb_lib \<Rightarrow> 'd cdb_writer \<Rightarrow> string \<Rightarrow> qvariant list" where
  "cw_vals L w key = (case fst (cw_close w) of None \<Rightarrow> [] | Some d \<Rightarrow> map (ds_read L) (db_find L d (toUtf8 L key)))"

definition cw_ok :: "('d, 'b) cdb_lib \<Rightarrow> 'd cdb_writer \<Rightarrow> bool" where
  "cw_ok L w = (cdb_lib_ok L \<and> (\<exists>d. cw_cdbm w = Some d \<and> db_valid L d))"

lemma cw_put_ok: "cw_ok L w \<Longrightarrow> cw_ok L (cw_put L m k v w)"
  by (auto simp: cw_ok_def cw_put_def cdb_lib_ok_def)

interpretation store: keyed_store "cw_ok L" streamable "cw_add L" "cw_replace L" "cw_vals L"
  for L :: "('d, 'b) cdb_lib"
proof
  fix w k k' v assume w: "cw_ok L w"
  then obtain d where d: "cw_cdbm w = Some d" and L: "cdb_lib_ok L" by (auto simp: cw_ok_def)
  have utf: "toUtf8 L k' = toUtf8 L k \<longleftrightarrow> k' = k" using L by (auto simp: cdb_lib_ok_def inj_def)
  show "cw_ok L (cw_add L k v w)" and "cw_ok L (cw_replace L k v w)"
    using cw_put_ok [OF w] by (simp_all add: cw_add_def cw_replace_def)
  assume v: "streamable v"
  show "cw_vals L (cw_add L k v w) k' = (if k' = k then cw_vals L w k @ [v] else cw_vals L w k')"
    using L d v by (simp add: cw_vals_def cw_close_def cw_add_def cw_put_def cdb_lib_ok_def utf)
  show "cw_vals L (cw_replace L k v w) k' = (if k' = k then [v] else cw_vals L w k')"
    using L d v by (simp add: cw_vals_def cw_close_def cw_replace_def cw_put_def cdb_lib_ok_def utf)
qed

lemma cr_values_of_closed:
  "cw_ok L w \<Longrightarrow> fst (cw_close w) = Some d \<Longrightarrow> fd > 0 \<Longrightarrow>
    cr_valuesForKey L k (cr_new L fd (File d)) = cw_vals L w k"
  by (auto simp: cr_valuesForKey_def cr_new_def cr_reopen_def cr_close_def Let_def cw_vals_def cw_ok_def cw_close_def)

section \<open>A concrete library\<close>

text \<open>A database is its list of records, a value streams to itself, a name is ASCII.\<close>

fun ref_put :: "cdb_put_mode \<Rightarrow> bytes \<Rightarrow> qvariant \<Rightarrow> (bytes \<times> qvariant) list \<Rightarrow> (bytes \<times> qvariant) list" where
  "ref_put PutAdd k v d = d @ [(k, v)]"
| "ref_put PutReplace k v d = amap_remove k d @ [(k, v)]"
| "ref_put PutInsert k v d = (if k \<in> fst ` set d then d else d @ [(k, v)])"

definition ref_find :: "(bytes \<times> qvariant) list \<Rightarrow> bytes \<Rightarrow> qvariant list" where
  "ref_find d k = map snd (filter (\<lambda>e. fst e = k) d)"

definition cdb_ref :: "((bytes \<times> qvariant) list, qvariant) cdb_lib" where
  "cdb_ref = \<lparr>db_start = [], db_put = ref_put, db_find = ref_find, db_valid = (\<lambda>_. True),
     ds_write = (\<lambda>v. v), ds_read = (\<lambda>v. v), toUtf8 = (\<lambda>s. s)\<rparr>"

lemma cdb_lib_ok_ref [simp]: "cdb_lib_ok cdb_ref"
proof -
  have 1: "ref_find (ref_put PutReplace k v d) k' = (if k' = k then [v] else ref_find d k')" for k v d k'
  proof -
    have "filter (\<lambda>e. fst e = k') (amap_remove k d) = (if k' = k then [] else filter (\<lambda>e. fst e = k') d)"
      by (auto simp: amap_remove_def intro!: filter_cong)
    then show ?thesis by (auto simp: ref_find_def)
  qed
  have "ref_find (ref_put PutInsert k v d) k' =
      (if k' = k \<and> ref_find d k = [] then [v] else ref_find d k')" for k v d k'
    by (force simp: ref_find_def filter_empty_conv)
  with 1 show ?thesis by (simp add: cdb_lib_ok_def cdb_ref_def) (simp add: ref_find_def)
qed

end
