(* ===== verification/Info_Cdb.thy ===== *)
theory Info_Cdb
  imports Info_Xml Cdb_File
begin

text \<open>
  \<open>InfoCdbBackend\<close> (infocdbbackend.cpp): the registry read from the constant database the
  update tool writes. Nothing is cached; the backend reopens the file when the directory is
  reported changed and the inode of the database is a different one. \<open>db_disk\<close> is what the
  operating system answers about the database file: its inode (0 when \<open>stat\<close> fails), its
  content, and the descriptor \<open>open\<close> gives.
\<close>

record 'd db_disk =
  dk_inode :: nat
  dk_file :: "'d db_file"
  dk_fd :: int

record 'd cdb_backend =
  cb_reader :: "'d cdb_reader"
  cb_lastInode :: nat
  cb_databaseCompatible :: bool
  cb_connectCount :: int

section \<open>Paths\<close>

definition databaseDirectory :: "registry_fs \<Rightarrow> string" where
  "databaseDirectory F = (case fs_env F ''CONTEXT_PROVIDERS'' of None \<Rightarrow> fs_defaultProviders F | Some p \<Rightarrow> p)"

text \<open>\<open>QDir(regpath).filePath(name)\<close>.\<close>

definition qdir_filePath :: "string \<Rightarrow> string \<Rightarrow> string" where
  "qdir_filePath d name =
     (let r = (if d = [] then ''.'' else if length d > 1 \<and> last d = CHR ''/'' then butlast d else d)
      in if last r = CHR ''/'' then r @ name else r @ ''/'' @ name)"

definition databasePath :: "registry_fs \<Rightarrow> string" where
  "databasePath F = qdir_filePath
     (case fs_env F ''CONTEXT_PROVIDERS'' of None \<Rightarrow> fs_defaultProviders F | Some p \<Rightarrow> p) ''cache.cdb''"

definition databaseExists :: "registry_fs \<Rightarrow> bool" where
  "databaseExists F = fs_exists F (databasePath F)"

section \<open>Queries\<close>

definition variantListToStringList :: "qt_lib \<Rightarrow> qvariant list \<Rightarrow> string list" where
  "variantListToStringList Q l = map (qv_toString Q) l"

definition cb_name :: string where
  "cb_name = ''cdb''"

definition cb_listKeys :: "qt_lib \<Rightarrow> ('d, 'b) cdb_lib \<Rightarrow> 'd cdb_backend \<Rightarrow> key list" where
  "cb_listKeys Q L s = (if cb_databaseCompatible s
     then variantListToStringList Q (cr_valuesForKey L ''KEYS'' (cb_reader s)) else [])"

definition cb_docForKey :: "qt_lib \<Rightarrow> ('d, 'b) cdb_lib \<Rightarrow> key \<Rightarrow> 'd cdb_backend \<Rightarrow> string" where
  "cb_docForKey Q L key s = (if cb_databaseCompatible s
     then qv_toString Q (cr_valueForKey L (key @ '':KEYDOC'') (cb_reader s)) else [])"

definition cb_keyDeclared :: "qt_lib \<Rightarrow> ('d, 'b) cdb_lib \<Rightarrow> key \<Rightarrow> 'd cdb_backend \<Rightarrow> bool" where
  "cb_keyDeclared Q L key s =
     (if \<not> cb_databaseCompatible s then False
      else if list_ex (\<lambda>v. qv_eq Q v (VString key)) (cr_valuesForKey L ''KEYS'' (cb_reader s)) then True
      else False)"

definition cb_keyDeprecated :: "('d, 'b) cdb_lib \<Rightarrow> key \<Rightarrow> 'd cdb_backend \<Rightarrow> bool" where
  "cb_keyDeprecated L key s = (if cb_databaseCompatible s
     then qv_toBool (cr_valueForKey L (key @ '':KEYDEPRECATED'') (cb_reader s)) else False)"

definition hash_value :: "string \<Rightarrow> (string \<times> qvariant) list \<Rightarrow> qvariant" where
  "hash_value k m = (case map_of m k of None \<Rightarrow> VInvalid | Some v \<Rightarrow> v)"

definition cb_providersForKey :: "qt_lib \<Rightarrow> ('d, 'b) cdb_lib \<Rightarrow> key \<Rightarrow> 'd cdb_backend \<Rightarrow> provider_info list" where
  "cb_providersForKey Q L key s =
     (let providers = cr_valueForKey L (key @ '':PROVIDERS'') (cb_reader s)
      in if \<not> cb_databaseCompatible s then []
         else map (\<lambda>v. \<lparr>pi_plugin = qv_toString Q (hash_value ''plugin'' (qv_toHash v)),
                          pi_construction = qv_toString Q (hash_value ''constructionString'' (qv_toHash v))\<rparr>)
                (qv_toList providers))"

definition cb_typeInfoForKey :: "('d, 'b) cdb_lib \<Rightarrow> key \<Rightarrow> 'd cdb_backend \<Rightarrow> type_info" where
  "cb_typeInfoForKey L key s = cr_valueForKey L (key @ '':KEYTYPEINFO'') (cb_reader s)"

definition cb_ops :: "qt_lib \<Rightarrow> ('d, 'b) cdb_lib \<Rightarrow> 'd cdb_backend \<Rightarrow> info_ops" where
  "cb_ops Q L s = \<lparr>io_name = cb_name, io_listKeys = cb_listKeys Q L s,
     io_typeInfoForKey = (\<lambda>k. cb_typeInfoForKey L k s), io_docForKey = (\<lambda>k. cb_docForKey Q L k s),
     io_keyDeclared = (\<lambda>k. cb_keyDeclared Q L k s), io_keyDeprecated = (\<lambda>k. cb_keyDeprecated L k s),
     io_providersForKey = (\<lambda>k. cb_providersForKey Q L k s)\<rparr>"

section \<open>Opening and reopening\<close>

definition checkCompatibility :: "qt_lib \<Rightarrow> ('d, 'b) cdb_lib \<Rightarrow> 'd cdb_backend \<Rightarrow> 'd cdb_backend" where
  "checkCompatibility Q L s =
     (if \<not> cr_isReadable (cb_reader s) then s\<lparr>cb_databaseCompatible := False\<rparr>
      else let version = qv_toString Q (cr_valueForKey L ''VERSION'' (cb_reader s))
           in if version \<noteq> [] \<and> version \<noteq> backend_namespace then s\<lparr>cb_databaseCompatible := False\<rparr>
              else s\<lparr>cb_databaseCompatible := True\<rparr>)"

definition cb_new :: "qt_lib \<Rightarrow> ('d, 'b) cdb_lib \<Rightarrow> 'd db_disk \<Rightarrow> 'd cdb_backend" where
  "cb_new Q L disk =
     (checkCompatibility Q L
       \<lparr>cb_reader = cr_new L (dk_fd disk) (dk_file disk), cb_lastInode = 0, cb_databaseCompatible = False, cb_connectCount = 0\<rparr>)
     \<lparr>cb_lastInode := dk_inode disk\<rparr>"

definition cb_connectNotify :: "'d cdb_backend \<Rightarrow> 'd cdb_backend" where
  "cb_connectNotify s = s\<lparr>cb_connectCount := cb_connectCount s + 1\<rparr>"

definition cb_disconnectNotify :: "'d cdb_backend \<Rightarrow> 'd cdb_backend" where
  "cb_disconnectNotify s = s\<lparr>cb_connectCount := cb_connectCount s - 1\<rparr>"

definition onDatabaseDirectoryChanged ::
    "qt_lib \<Rightarrow> ('d, 'b) cdb_lib \<Rightarrow> 'd db_disk \<Rightarrow> 'd cdb_backend \<Rightarrow> 'd cdb_backend \<times> ib_signal list" where
  "onDatabaseDirectoryChanged Q L disk s =
     (let inode = dk_inode disk in
      if cb_lastInode s \<noteq> inode then
        let s1 = s\<lparr>cb_lastInode := inode\<rparr>;
            oldKeys = cb_listKeys Q L s1;
            s2 = s1\<lparr>cb_reader := cr_reopen L (dk_fd disk) (dk_file disk) (cb_reader s1)\<rparr>;
            s3 = (if cr_isReadable (cb_reader s2) then checkCompatibility Q L s2 else s2)
        in if cb_connectCount s3 = 0 then (s3, [])
           else (s3, ib_announce (cb_listKeys Q L s3) oldKeys)
      else (s, []))"

section \<open>Well-formed databases\<close>

text \<open>
  The database names every key once, as a string, and has entries for no other key. Of an
  incompatible database only the type information is still answered, so a backend is well-formed
  when it is closed or holds such a database of its own version.
\<close>

definition cb_closed :: "'d cdb_backend \<Rightarrow> bool" where
  "cb_closed s = (cr_cdb (cb_reader s) = None)"

definition cb_entries :: "('d, 'b) cdb_lib \<Rightarrow> key \<Rightarrow> 'd cdb_backend \<Rightarrow> qvariant list" where
  "cb_entries L k s = concat (map (\<lambda>suffix. cr_valuesForKey L (k @ suffix) (cb_reader s))
     ['':KEYTYPEINFO'', '':KEYDOC'', '':KEYDEPRECATED'', '':PROVIDERS''])"

definition cb_ok :: "('d, 'b) cdb_lib \<Rightarrow> 'd cdb_backend \<Rightarrow> bool" where
  "cb_ok L s = (cb_closed s \<or>
     (cb_databaseCompatible s \<and>
      (\<exists>ks. cr_valuesForKey L ''KEYS'' (cb_reader s) = map VString ks \<and> distinct ks \<and>
         (\<forall>k. k \<notin> set ks \<longrightarrow> cb_entries L k s = []))))"

lemma cb_closed_values [simp]: "cb_closed s \<Longrightarrow> cr_valuesForKey L k (cb_reader s) = []"
  by (simp add: cb_closed_def cr_valuesForKey_def)

lemma cr_value_Nil: "cr_valuesForKey L k r = [] \<Longrightarrow> cr_valueForKey L k r = VInvalid"
  by (simp add: cr_valueForKey_def)

lemma cr_value_Cons: "cr_valuesForKey L k r = v # vs \<Longrightarrow> cr_valueForKey L k r = v"
  by (simp add: cr_valueForKey_def)

lemma qv_toString_invalid [simp]: "qv_toString Q VInvalid = []"
  by (simp add: qv_toString_def qs_str_def)

lemma qv_eq_VString [simp]: "qv_eq Q (VString a) (VString b) \<longleftrightarrow> a = b"
  by (simp add: qv_other_eq_def qv_scalar_eq_def)

lemma toStrings_VString [simp]: "variantListToStringList Q (map VString ks) = ks"
  by (induction ks) (simp_all add: variantListToStringList_def)

lemma cb_default:
  assumes "cb_entries L k s = []"
  shows "cb_typeInfoForKey L k s = VInvalid \<and> cb_docForKey Q L k s = [] \<and> \<not> cb_keyDeprecated L k s \<and>
    cb_providersForKey Q L k s = []"
  using assms by (simp add: cb_entries_def cb_typeInfoForKey_def cb_docForKey_def cb_keyDeprecated_def
      cb_providersForKey_def cr_value_Nil qv_toBool_def)

interpretation cdb: info_registry "cb_ok L" "cb_ops Q L"
  for Q and L :: "('d, 'b) cdb_lib"
proof
  fix s :: "'d cdb_backend" and k assume ok: "cb_ok L s"
  have "distinct (cb_listKeys Q L s) \<and> (cb_keyDeclared Q L k s \<longleftrightarrow> k \<in> set (cb_listKeys Q L s)) \<and>
    (k \<notin> set (cb_listKeys Q L s) \<longrightarrow> cb_entries L k s = [])"
  proof (cases "cb_closed s")
    case True
    then show ?thesis by (simp add: cb_listKeys_def cb_keyDeclared_def cb_entries_def variantListToStringList_def)
  next
    case False
    with ok obtain ks where "cb_databaseCompatible s" "cr_valuesForKey L ''KEYS'' (cb_reader s) = map VString ks"
        "distinct ks" "\<forall>k. k \<notin> set ks \<longrightarrow> cb_entries L k s = []"
      unfolding cb_ok_def by blast
    then show ?thesis by (simp add: cb_listKeys_def cb_keyDeclared_def list_ex_iff image_iff)
  qed
  then show "distinct (io_listKeys (cb_ops Q L s))"
    and "io_keyDeclared (cb_ops Q L s) k \<longleftrightarrow> k \<in> set (io_listKeys (cb_ops Q L s))"
    and "k \<notin> set (io_listKeys (cb_ops Q L s)) \<Longrightarrow> io_typeInfoForKey (cb_ops Q L s) k = VInvalid \<and>
      io_docForKey (cb_ops Q L s) k = [] \<and> \<not> io_keyDeprecated (cb_ops Q L s) k \<and>
      io_providersForKey (cb_ops Q L s) k = []"
    using cb_default by (auto simp: cb_ops_def)
qed

section \<open>Reopening\<close>

lemma cr_reopen_fresh: "cr_cdb (cr_reopen L fd f r) = cr_cdb (cr_new L fd f)"
  by (cases f) (simp_all add: cr_new_def cr_reopen_def cr_close_def Let_def)

lemma cr_reopen_fd: "fd > 0 \<Longrightarrow> cr_isReadable (cr_reopen L fd f r) \<longleftrightarrow> (\<exists>d. f = File d)"
  by (cases f) (simp_all add: cr_reopen_def cr_close_def cr_isReadable_def Let_def)

lemma cr_values_cdb: "cr_cdb r = cr_cdb r' \<Longrightarrow> cr_valuesForKey L k r = cr_valuesForKey L k r'"
  by (simp add: cr_valuesForKey_def)

lemma cr_value_cdb: "cr_cdb r = cr_cdb r' \<Longrightarrow> cr_valueForKey L k r = cr_valueForKey L k r'"
  by (simp add: cr_valueForKey_def cr_values_cdb [of r r'])

text \<open>The answers depend only on the open database and the compatibility flag.\<close>

lemma cb_ops_cong:
  assumes "cr_cdb (cb_reader s) = cr_cdb (cb_reader s')"
    and "cb_databaseCompatible s = cb_databaseCompatible s' \<or> cr_cdb (cb_reader s) = None"
  shows "cb_ops Q L s = cb_ops Q L s'"
proof -
  note c = cr_value_cdb [OF assms(1)] cr_values_cdb [OF assms(1)]
  have "cr_cdb (cb_reader s) = None \<Longrightarrow> cr_valuesForKey L k (cb_reader s') = []" for k
    using assms(1) by (simp add: cr_valuesForKey_def)
  then show ?thesis using assms(2)
    by (auto simp: cb_ops_def cb_listKeys_def cb_docForKey_def cb_keyDeclared_def cb_keyDeprecated_def
        cb_providersForKey_def cb_typeInfoForKey_def c cr_value_Nil variantListToStringList_def qv_toBool_def fun_eq_iff)
qed

lemma checkCompatibility_reader [simp]: "cb_reader (checkCompatibility Q L s) = cb_reader s"
  by (simp add: checkCompatibility_def Let_def)

lemma checkCompatibility_count [simp]: "cb_connectCount (checkCompatibility Q L s) = cb_connectCount s"
  by (simp add: checkCompatibility_def Let_def)

lemma reopened_as_fresh:
  assumes "dk_inode disk \<noteq> cb_lastInode s" and "dk_fd disk > 0"
    and "onDatabaseDirectoryChanged Q L disk s = (s', os)"
  shows "cb_ops Q L s' = cb_ops Q L (cb_new Q L disk)"
    and "cb_ok L s' \<longleftrightarrow> cb_ok L (cb_new Q L disk)"
    and "cb_lastInode s' = dk_inode disk"
    and "os = (if cb_connectCount s = 0 then [] else ib_announce (cb_listKeys Q L s') (cb_listKeys Q L s))"
proof -
  define r where "r = cr_reopen L (dk_fd disk) (dk_file disk) (cb_reader s)"
  let ?n = "cr_new L (dk_fd disk) (dk_file disk)"
  define s2 where "s2 = s\<lparr>cb_lastInode := dk_inode disk, cb_reader := r\<rparr>"
  define s3 where "s3 = (if cr_isReadable r then checkCompatibility Q L s2 else s2)"
  have n: "cr_cdb r = cr_cdb ?n" by (simp add: r_def cr_reopen_fresh)
  have l: "cb_listKeys Q L (s\<lparr>cb_lastInode := dk_inode disk\<rparr>) = cb_listKeys Q L s"
    by (simp add: cb_listKeys_def)
  have s': "s' = s3" "os = (if cb_connectCount s = 0 then [] else ib_announce (cb_listKeys Q L s') (cb_listKeys Q L s))"
    using assms by (auto simp: onDatabaseDirectoryChanged_def Let_def s3_def s2_def r_def l split: if_splits)
  have rd: "cr_isReadable r \<longleftrightarrow> cr_isReadable ?n" "\<not> cr_isReadable r \<Longrightarrow> cr_cdb r = None"
    using assms(2) by (cases "dk_file disk";
      simp add: r_def cr_new_def cr_reopen_def cr_close_def cr_isReadable_def Let_def)+
  have reader: "cr_cdb (cb_reader s3) = cr_cdb (cb_reader (cb_new Q L disk))"
    using n by (simp add: s3_def s2_def cb_new_def)
  have compat: "cb_databaseCompatible s3 = cb_databaseCompatible (cb_new Q L disk) \<or> cr_cdb (cb_reader s3) = None"
    using rd cr_value_cdb [OF n, of L "''VERSION''"]
    by (auto simp: s3_def s2_def cb_new_def checkCompatibility_def Let_def)
  show "cb_ops Q L s' = cb_ops Q L (cb_new Q L disk)"
    using cb_ops_cong [OF reader compat] s' by simp
  show "cb_ok L s' \<longleftrightarrow> cb_ok L (cb_new Q L disk)"
    using compat reader unfolding s'(1) cb_ok_def cb_closed_def cb_entries_def
    by (auto simp: cr_values_cdb [OF reader])
  show "cb_lastInode s' = dk_inode disk"
    using s' by (simp add: s3_def s2_def checkCompatibility_def Let_def)
  show "os = (if cb_connectCount s = 0 then [] else ib_announce (cb_listKeys Q L s') (cb_listKeys Q L s))"
    by (rule s'(2))
qed

end
