(* ===== verification/Update_Registry.thy ===== *)
theory Update_Registry
  imports Info_Cdb
begin

text \<open>
  The update tool (update-contextkit-providers.cpp): reads the registry through the XML backend
  and writes it as a constant database, to a temporary file that is renamed over the old
  database at the end. What the operating system answers to \<open>mkstemp\<close>, \<open>fsync\<close> and
  \<open>rename\<close> is the parameter record \<open>update_os\<close>. The result is the exit code and the
  content of \<open>cache.cdb\<close>; \<open>None\<close> is a crash while the XML files are read.
\<close>

record update_os =
  uo_mkstemp :: int
  uo_fsync :: int
  uo_rename :: int

definition provider_variant :: "provider_info \<Rightarrow> qvariant" where
  "provider_variant info =
     VHash (amap_insert ''constructionString'' (VString (pi_construction info))
       (amap_insert ''plugin'' (VString (pi_plugin info)) []))"

text \<open>The body of the loop over the keys.\<close>

definition update_key :: "('d, 'b) cdb_lib \<Rightarrow> info_ops \<Rightarrow> key \<Rightarrow> 'd cdb_writer \<Rightarrow> 'd cdb_writer" where
  "update_key L I key w =
     (let keyInfo = ci_new I key;
          w1 = cw_add L ''KEYS'' (VString key) w;
          w2 = cw_replace L (key @ '':KEYTYPEINFO'') (ci_typeInfo keyInfo) w1;
          w3 = cw_replace L (key @ '':KEYDOC'') (VString (ci_doc keyInfo)) w2;
          w4 = cw_replace L (key @ '':KEYDEPRECATED'') (VBool (ci_deprecated I keyInfo)) w3
      in cw_add L (key @ '':PROVIDERS'') (VList (map provider_variant (ci_providers keyInfo))) w4)"

definition update_write :: "('d, 'b) cdb_lib \<Rightarrow> info_ops \<Rightarrow> 'd cdb_writer \<Rightarrow> 'd cdb_writer" where
  "update_write L I w = fold (update_key L I) (io_listKeys I) (cw_add L ''VERSION'' (VString backend_namespace) w)"

definition update_path :: "string list \<Rightarrow> registry_fs \<Rightarrow> string \<times> registry_fs" where
  "update_path args F =
     (if length args > 1 then (args ! 1, F\<lparr>fs_env := (fs_env F)(''CONTEXT_PROVIDERS'' \<mapsto> args ! 1)\<rparr>)
      else (case fs_env F ''CONTEXT_PROVIDERS'' of
          Some p \<Rightarrow> (p, F)
        | None \<Rightarrow> (fs_defaultProviders F, F)))"

text \<open>Whether the directory exists and can be read; otherwise the tool exits with 128.\<close>

definition checkDirectory :: "registry_fs \<Rightarrow> string \<Rightarrow> bool" where
  "checkDirectory F dir = (fs_entries F dir \<noteq> None)"

definition update_main ::
    "qt_lib \<Rightarrow> ('d, 'b) cdb_lib \<Rightarrow> update_os \<Rightarrow> string list \<Rightarrow> registry_fs \<Rightarrow> 'd db_file \<Rightarrow> (int \<times> 'd db_file) option" where
  "update_main Q L OS args F cache =
     (case update_path args F of (path, F1) \<Rightarrow>
      case xb_new Q F1 of
        None \<Rightarrow> None
      | Some xml \<Rightarrow>
        if \<not> checkDirectory F1 path then Some (128, cache)
        else let writer = cw_new L (uo_mkstemp OS) in
          if \<not> cw_isWritable writer then Some (128, cache)
          else let writer1 = update_write L (xb_ops xml) writer in
            if uo_fsync OS \<noteq> 0 then Some (64, cache)
            else (case cw_close writer1 of (content, _) \<Rightarrow>
              if uo_rename OS \<noteq> 0 then Some (64, cache)
              else Some (0, case content of None \<Rightarrow> cache | Some d \<Rightarrow> File d)))"

section \<open>The names of the entries never clash\<close>

lemma suffix_clash: "a @ s = b @ t \<Longrightarrow> s \<noteq> [] \<Longrightarrow> t \<noteq> [] \<Longrightarrow> last s = last t"
  by (metis last_appendR)

lemma entry_names [simp]:
  "a @ '':KEYTYPEINFO'' \<noteq> b @ '':KEYDOC''" "a @ '':KEYTYPEINFO'' \<noteq> b @ '':KEYDEPRECATED''"
  "a @ '':KEYTYPEINFO'' \<noteq> b @ '':PROVIDERS''" "a @ '':KEYDOC'' \<noteq> b @ '':KEYDEPRECATED''"
  "a @ '':KEYDOC'' \<noteq> b @ '':PROVIDERS''" "a @ '':KEYDEPRECATED'' \<noteq> b @ '':PROVIDERS''"
  using suffix_clash by fastforce+

lemmas entry_names_sym [simp] = entry_names [symmetric]

lemma entry_not_list [simp]:
  "a @ '':KEYTYPEINFO'' \<noteq> ''KEYS''" "a @ '':KEYDOC'' \<noteq> ''KEYS''" "a @ '':KEYDEPRECATED'' \<noteq> ''KEYS''"
  "a @ '':PROVIDERS'' \<noteq> ''KEYS''"
  "a @ '':KEYTYPEINFO'' \<noteq> ''VERSION''" "a @ '':KEYDOC'' \<noteq> ''VERSION''" "a @ '':KEYDEPRECATED'' \<noteq> ''VERSION''"
  "a @ '':PROVIDERS'' \<noteq> ''VERSION''"
  using arg_cong [of "a @ '':PROVIDERS''" "''KEYS''" length]
  by (auto dest: arg_cong [of _ _ last] arg_cong [of _ _ length])

lemmas entry_not_list_sym [simp] = entry_not_list [symmetric]

section \<open>The entries of the written database\<close>

lemma streamable_provider [simp]: "streamable (provider_variant p)"
  by (simp add: provider_variant_def)

lemma streamable_text: "text_tree v \<Longrightarrow> streamable v"
  by (induction v rule: text_tree.induct) (auto simp: list_all_iff)

text \<open>What the loop reads for a key from the XML backend.\<close>

definition backend_text :: "info_ops \<Rightarrow> bool" where
  "backend_text I = (\<forall>k. text_tree (io_typeInfoForKey I k))"

lemma ci_new_text: "backend_text I \<Longrightarrow> streamable (ci_typeInfo (ci_new I k))"
  by (simp add: backend_text_def ci_new_def ci_refresh_def Let_def streamable_text)

definition key_entries :: "info_ops \<Rightarrow> key \<Rightarrow> string \<Rightarrow> qvariant list" where
  "key_entries I k suffix =
     (if suffix = '':KEYTYPEINFO'' then [ci_typeInfo (ci_new I k)]
      else if suffix = '':KEYDOC'' then [VString (ci_doc (ci_new I k))]
      else if suffix = '':KEYDEPRECATED'' then [VBool (ci_deprecated I (ci_new I k))]
      else [VList (map provider_variant (ci_providers (ci_new I k)))])"

abbreviation entry_suffixes :: "string list" where
  "entry_suffixes \<equiv> ['':KEYTYPEINFO'', '':KEYDOC'', '':KEYDEPRECATED'', '':PROVIDERS'']"

lemma update_key_ok: "cw_ok L w \<Longrightarrow> cw_ok L (update_key L I k w)"
  by (simp add: update_key_def Let_def store.add_ok store.replace_ok)

lemma update_key_vals:
  assumes "cw_ok L w" and "backend_text I"
  shows "cw_vals L (update_key L I k w) ''KEYS'' = cw_vals L w ''KEYS'' @ [VString k]"
    and "cw_vals L (update_key L I k w) ''VERSION'' = cw_vals L w ''VERSION''"
    and "suffix \<in> set entry_suffixes \<Longrightarrow> j \<noteq> k \<Longrightarrow>
      cw_vals L (update_key L I k w) (j @ suffix) = cw_vals L w (j @ suffix)"
    and "suffix \<in> set entry_suffixes \<Longrightarrow> cw_vals L (update_key L I k w) (k @ suffix) =
      (if suffix = '':PROVIDERS'' then cw_vals L w (k @ suffix) else []) @ key_entries I k suffix"
proof -
  have "list_all streamable (map provider_variant ps)" for ps by (induction ps) auto
  then have s: "streamable (VList (map provider_variant (ci_providers (ci_new I k))))" by simp
  note v = store.vals_add store.vals_replace store.add_ok store.replace_ok assms(1) s ci_new_text [OF assms(2)]
  show "cw_vals L (update_key L I k w) ''KEYS'' = cw_vals L w ''KEYS'' @ [VString k]"
    and "cw_vals L (update_key L I k w) ''VERSION'' = cw_vals L w ''VERSION''"
    by (simp_all add: update_key_def Let_def v del: streamable.simps(1))
  show "suffix \<in> set entry_suffixes \<Longrightarrow> j \<noteq> k \<Longrightarrow>
      cw_vals L (update_key L I k w) (j @ suffix) = cw_vals L w (j @ suffix)"
    by (auto simp add: update_key_def Let_def v simp del: streamable.simps(1))
  show "suffix \<in> set entry_suffixes \<Longrightarrow> cw_vals L (update_key L I k w) (k @ suffix) =
      (if suffix = '':PROVIDERS'' then cw_vals L w (k @ suffix) else []) @ key_entries I k suffix"
    by (auto simp add: update_key_def Let_def v key_entries_def simp del: streamable.simps(1))
qed

lemma update_write_vals:
  assumes "cw_ok L w" and "\<And>n. cw_vals L w n = []" and "backend_text I" and "distinct (io_listKeys I)"
  shows "cw_ok L (update_write L I w)"
    and "cw_vals L (update_write L I w) ''VERSION'' = [VString backend_namespace]"
    and "cw_vals L (update_write L I w) ''KEYS'' = map VString (io_listKeys I)"
    and "suffix \<in> set entry_suffixes \<Longrightarrow> cw_vals L (update_write L I w) (k @ suffix) =
      (if k \<in> set (io_listKeys I) then key_entries I k suffix else [])"
proof -
  let ?w = "cw_add L ''VERSION'' (VString backend_namespace) w"
  have ok: "cw_ok L ?w" by (simp add: assms(1) store.add_ok)
  have old: "cw_vals L ?w n = (if n = ''VERSION'' then [VString backend_namespace] else [])" for n
    by (simp add: store.vals_add assms(1,2))
  note fold_ok = store.ok_fold [where f = "update_key L I", OF update_key_ok]
  show "cw_ok L (update_write L I w)"
    unfolding update_write_def by (rule fold_ok [OF _ ok])
  show "cw_vals L (update_write L I w) ''KEYS'' = map VString (io_listKeys I)"
    unfolding update_write_def
    by (simp add: store.fold_listed [where g = VString, OF ok update_key_ok update_key_vals(1) [OF _ assms(3)]] old)
  have "cw_vals L (fold (update_key L I) ks w') ''VERSION'' = cw_vals L w' ''VERSION''" if "cw_ok L w'" for ks w'
    using that by (induction ks arbitrary: w') (auto simp: update_key_ok update_key_vals(2) [OF _ assms(3)])
  then show "cw_vals L (update_write L I w) ''VERSION'' = [VString backend_namespace]"
    using ok by (simp add: update_write_def old)
  assume s: "suffix \<in> set entry_suffixes"
  have "cw_vals L (fold (update_key L I) (io_listKeys I) ?w) (k @ suffix) =
      (if k \<in> set (io_listKeys I)
       then (if suffix = '':PROVIDERS'' then cw_vals L ?w (k @ suffix) else []) @ key_entries I k suffix
       else cw_vals L ?w (k @ suffix))"
    by (rule store.fold_owned [where n = "\<lambda>k. k @ suffix" and
        g = "\<lambda>k old. (if suffix = '':PROVIDERS'' then old else []) @ key_entries I k suffix",
        OF ok assms(4) update_key_ok])
      (assumption, erule update_key_vals(4) [OF _ assms(3) s], erule update_key_vals(3) [OF _ assms(3) s], blast)
  moreover have "k @ suffix \<noteq> ''VERSION''" using s by auto
  ultimately show "cw_vals L (update_write L I w) (k @ suffix) =
      (if k \<in> set (io_listKeys I) then key_entries I k suffix else [])"
    by (simp add: update_write_def old)
qed

section \<open>The database answers as the XML registry does\<close>

definition same_registry :: "info_ops \<Rightarrow> info_ops \<Rightarrow> bool" where
  "same_registry I J = (io_listKeys I = io_listKeys J \<and>
     (\<forall>k. io_keyDeclared I k = io_keyDeclared J k \<and> io_keyDeprecated I k = io_keyDeprecated J k \<and>
        (k \<noteq> [] \<longrightarrow> io_docForKey I k = io_docForKey J k \<and> io_typeInfoForKey I k = io_typeInfoForKey J k \<and>
          io_providersForKey I k = io_providersForKey J k)))"

lemma provider_roundtrip [simp]:
  "map (\<lambda>v. \<lparr>pi_plugin = qv_toString Q (hash_value ''plugin'' (qv_toHash v)),
      pi_construction = qv_toString Q (hash_value ''constructionString'' (qv_toHash v))\<rparr>)
    (map provider_variant ps) = ps"
  by (induction ps) (simp_all add: provider_variant_def hash_value_def)

lemma written_database:
  assumes "cw_ok L w" and "\<And>n. cw_vals L w n = []" and "xb_ok xml" and "backend_text (xb_ops xml)"
    and "fst (cw_close (update_write L (xb_ops xml) w)) = Some d" and "dk_file disk = File d" and "dk_fd disk > 0"
  shows "cb_ok L (cb_new Q L disk) \<and> same_registry (cb_ops Q L (cb_new Q L disk)) (xb_ops xml)"
proof -
  let ?I = "xb_ops xml" and ?s = "cb_new Q L disk"
  have dist: "distinct (io_listKeys ?I)" by (rule xml.listed_once [OF assms(3)])
  note wr = update_write_vals [OF assms(1,2,4) dist]
  have vals: "cr_valuesForKey L n (cb_reader ?s) = cw_vals L (update_write L ?I w) n" for n
    using cr_values_of_closed [OF wr(1) assms(5,7)] assms(6) by (simp add: cb_new_def)
  have readable: "cr_isReadable (cr_new L (dk_fd disk) (dk_file disk))"
    using assms(6,7) by (simp add: cr_new_def cr_reopen_def cr_isReadable_def Let_def)
  have version: "cr_valueForKey L ''VERSION'' (cr_new L (dk_fd disk) (dk_file disk)) = VString backend_namespace"
    using vals [of "''VERSION''"] wr(2) by (simp add: cb_new_def cr_valueForKey_def)
  have compat: "cb_databaseCompatible ?s"
    using readable version by (simp add: cb_new_def checkCompatibility_def Let_def)
  have keys: "cr_valuesForKey L ''KEYS'' (cb_reader ?s) = map VString (io_listKeys ?I)"
    by (simp only: vals wr(3))
  have undeclared: "cb_entries L k ?s = []" if "k \<notin> set (io_listKeys ?I)" for k
    using that by (simp add: cb_entries_def vals wr(4))
  have ok: "cb_ok L ?s"
    using compat keys dist undeclared unfolding cb_ok_def by blast
  have entry: "cr_valueForKey L (k @ suffix) (cb_reader ?s) = hd (key_entries ?I k suffix)"
    if "k \<in> set (io_listKeys ?I)" "suffix \<in> set entry_suffixes" for k suffix
    using wr(4) [OF that(2), of k] that(1) vals by (simp add: cr_valueForKey_def key_entries_def)
  have declared: "cb_keyDeprecated L k ?s = io_keyDeprecated ?I k \<and>
      (k \<noteq> [] \<longrightarrow> cb_docForKey Q L k ?s = io_docForKey ?I k \<and> cb_typeInfoForKey L k ?s = io_typeInfoForKey ?I k \<and>
        cb_providersForKey Q L k ?s = io_providersForKey ?I k)" if "k \<in> set (io_listKeys ?I)" for k
    using entry [OF that] compat
    by (simp add: cb_keyDeprecated_def cb_docForKey_def cb_typeInfoForKey_def cb_providersForKey_def Let_def
        key_entries_def ci_deprecated_def qv_toBool_def ci_new_def ci_refresh_def del: list.map_comp map_map)
  have "cb_keyDeclared Q L k ?s = io_keyDeclared ?I k" for k
    using xml.declared_iff [OF assms(3), of k] compat keys by (auto simp: cb_keyDeclared_def list_ex_iff)
  moreover have "cb_listKeys Q L ?s = io_listKeys ?I"
    using compat keys by (simp add: cb_listKeys_def)
  moreover have "cb_keyDeprecated L k ?s = io_keyDeprecated ?I k \<and>
      (k \<noteq> [] \<longrightarrow> cb_docForKey Q L k ?s = io_docForKey ?I k \<and> cb_typeInfoForKey L k ?s = io_typeInfoForKey ?I k \<and>
        cb_providersForKey Q L k ?s = io_providersForKey ?I k)" for k
    using declared [of k] xml.undeclared_defaults [OF assms(3), of k] cb_default [OF undeclared, of k Q]
    by (cases "k \<in> set (io_listKeys ?I)") auto
  ultimately show ?thesis using ok by (simp add: same_registry_def cb_ops_def)
qed

lemma update_main_cases:
  assumes "update_main Q L OS args F cache = Some (code, cache')"
  obtains (failed) "code \<noteq> 0" "cache' = cache"
  | (written) xml d where "code = 0" "xb_new Q (snd (update_path args F)) = Some xml" "uo_mkstemp OS > 0"
      "fst (cw_close (update_write L (xb_ops xml) (cw_new L (uo_mkstemp OS)))) = Some d" "cache' = File d"
proof -
  have some: "cw_cdbm (update_write L I w) \<noteq> None" if "cw_cdbm w \<noteq> None" for I and w :: "'d cdb_writer" and L :: "('d, 'b) cdb_lib"
  proof -
    have "cw_cdbm (cw_put L m k v w) \<noteq> None" if "cw_cdbm w \<noteq> None" for m k v w
      using that by (auto simp: cw_put_def)
    then have k: "cw_cdbm (update_key L I k w) \<noteq> None" if "cw_cdbm w \<noteq> None" for k w
      using that by (simp add: update_key_def Let_def cw_add_def cw_replace_def)
    have "cw_cdbm (fold (update_key L I) ks w) \<noteq> None" if "cw_cdbm w \<noteq> None" for ks w
      using that by (induction ks arbitrary: w) (auto simp: k simp del: not_None_eq)
    moreover have "cw_cdbm (cw_add L ''VERSION'' (VString backend_namespace) w) \<noteq> None"
      using that by (auto simp: cw_add_def cw_put_def)
    ultimately show ?thesis unfolding update_write_def by blast
  qed
  have made: "cw_cdbm (update_write L I \<lparr>cw_cdbm = Some (db_start L), cw_fd = fd\<rparr>) = None \<longleftrightarrow> False" for I fd
    using some [of "\<lparr>cw_cdbm = Some (db_start L), cw_fd = fd\<rparr>" L I] by simp
  show ?thesis
    using assms
    by (auto simp: update_main_def checkDirectory_def Let_def cw_isWritable_def cw_close_def cw_new_def case_prod_unfold made
        split: option.splits if_splits intro: that)
qed

lemma update_main_correct:
  assumes "cdb_lib_ok L" and "update_main Q L OS args F cache = Some (code, cache')"
    and "dk_file disk = cache'" and "dk_fd disk > 0"
  shows "code \<noteq> 0 \<and> cache' = cache \<or>
    code = 0 \<and> (\<exists>xml. xb_new Q (snd (update_path args F)) = Some xml \<and>
      cb_ok L (cb_new Q L disk) \<and> same_registry (cb_ops Q L (cb_new Q L disk)) (xb_ops xml))"
  using assms(2)
proof (cases rule: update_main_cases)
  case (written xml d)
  have "cw_ok L (cw_new L (uo_mkstemp OS))" "\<And>n. cw_vals L (cw_new L (uo_mkstemp OS)) n = []"
    using assms(1) written(3) by (simp_all add: cw_ok_def cw_new_def cdb_lib_ok_def cw_vals_def cw_close_def)
  moreover have "xb_ok xml" "backend_text (xb_ops xml)"
    using written(2) regenerate_ok typeInfo_text by (auto simp: xb_new_def backend_text_def xb_ops_def)
  ultimately show ?thesis
    using written written_database [of L "cw_new L (uo_mkstemp OS)" xml d disk Q] assms(3,4) by simp
qed simp



section \<open>From the files to a client in another process\<close>

lemma ci_new_same: "same_registry I J \<Longrightarrow> k \<noteq> [] \<Longrightarrow> ci_new I k = ci_new J k"
  by (simp add: same_registry_def ci_new_def ci_refresh_def Let_def)



end
