(* ===== verification/Context_Ls.thy ===== *)
theory Context_Ls
  imports Info_Cdb
begin

text \<open>
  The \<open>context-ls\<close> command (cls/context-ls.cpp): lists the registry of either backend. The
  wildcard match is Qt's and a parameter.
\<close>

section \<open>Options and output\<close>

record ls_options =
  ls_backendName :: string
  ls_doc :: bool
  ls_provided :: bool
  ls_long :: bool
  ls_hasFilter :: bool
  ls_filter :: string

definition ls_defaults :: ls_options where
  "ls_defaults = \<lparr>ls_backendName = [], ls_doc = False, ls_provided = False, ls_long = False,
     ls_hasFilter = False, ls_filter = ''*''\<rparr>"

definition ls_arg :: "string \<Rightarrow> ls_options \<Rightarrow> ls_options" where
  "ls_arg arg o' =
     (if arg = ''--xml'' \<or> arg = ''-x'' then o'\<lparr>ls_backendName := ''xml''\<rparr>
      else if arg = ''--cdb'' \<or> arg = ''-c'' then o'\<lparr>ls_backendName := ''cdb''\<rparr>
      else if arg = ''--provided'' \<or> arg = ''-p'' then o'\<lparr>ls_provided := True\<rparr>
      else if arg = ''--long'' \<or> arg = ''-l'' then o'\<lparr>ls_long := True\<rparr>
      else if arg = ''--doc'' \<or> arg = ''-d'' then o'\<lparr>ls_doc := True\<rparr>
      else if ls_hasFilter o' then o'
      else o'\<lparr>ls_hasFilter := True, ls_filter := arg\<rparr>)"

definition ls_options_of :: "string list \<Rightarrow> ls_options" where
  "ls_options_of args = fold ls_arg (drop 1 args) ls_defaults"

definition tab :: string where
  "tab = [char_of (9 :: nat)]"

definition ls_lines :: "qt_lib \<Rightarrow> ls_options \<Rightarrow> property_info \<Rightarrow> string list" where
  "ls_lines Q o' info =
     (let key = ci_keyName info; type = tree_name Q (ci_typeInfo info) in
      (if ls_long o' then
         (if length (ci_providers info) = 0 then [key @ tab @ type] else []) @
         map (\<lambda>p. key @ tab @ type @ tab @ pi_plugin p @ tab @ pi_construction p) (ci_providers info)
       else [key]) @
      (if ls_doc o' then [''Documentation: '' @ ci_doc info] else []))"

definition ls_shown :: "(string \<Rightarrow> string \<Rightarrow> bool) \<Rightarrow> info_ops \<Rightarrow> ls_options \<Rightarrow> key \<Rightarrow> bool" where
  "ls_shown exactMatch I o' key =
     (exactMatch (ls_filter o') key \<and> \<not> (ls_provided o' \<and> \<not> ci_provided (ci_new I key)))"

fun ls_loop :: "qt_lib \<Rightarrow> (string \<Rightarrow> string \<Rightarrow> bool) \<Rightarrow> info_ops \<Rightarrow> ls_options \<Rightarrow> key list \<Rightarrow> int \<Rightarrow> int \<times> string list" where
  "ls_loop Q m I o' [] retValue = (retValue, [])"
| "ls_loop Q m I o' (key # keys) retValue =
     (if \<not> ls_shown m I o' key then ls_loop Q m I o' keys retValue
      else case ls_loop Q m I o' keys 0 of (r, out) \<Rightarrow> (r, ls_lines Q o' (ci_new I key) @ out))"

text \<open>
  The backend is the singleton, created on first use for the forced name; \<open>backends\<close> gives the
  answers of either kind.
\<close>

definition ls_main ::
    "qt_lib \<Rightarrow> (string \<Rightarrow> string \<Rightarrow> bool) \<Rightarrow> bool \<Rightarrow> (backend_kind \<Rightarrow> info_ops) \<Rightarrow> string list \<Rightarrow> int \<times> string list" where
  "ls_main Q exactMatch dbExists backends args =
     (let o' = ls_options_of args; I = backends (ib_instance dbExists (ls_backendName o') None)
      in ls_loop Q exactMatch I o' (sort (ri_listKeys I)) 1)"

lemma ls_loop_spec:
  "ls_loop Q m I o' keys r =
     (if filter (ls_shown m I o') keys = [] then r else 0,
      concat (map (\<lambda>k. ls_lines Q o' (ci_new I k)) (filter (ls_shown m I o') keys)))"
  by (induction keys arbitrary: r) (auto simp: filter_empty_conv split: prod.splits)

text \<open>C38: \<open>context-ls\<close> lists the registry, whichever backend it uses: without \<open>-l\<close> and
  \<open>-d\<close> it prints exactly the declared keys that match the filter, and with \<open>-p\<close> have a
  provider, each once and in order, and it exits with 0 exactly when it has printed one.\<close>

theorem context_ls_lists:
  assumes "xb_ok xml" and "cb_ok L cdb"
    and "backends = (\<lambda>k. case k of XmlBackend \<Rightarrow> xb_ops xml | CdbBackend \<Rightarrow> cb_ops Q L cdb)"
    and "I = backends (ib_instance dbExists (ls_backendName (ls_options_of args)) None)"
    and "\<not> ls_long (ls_options_of args)" and "\<not> ls_doc (ls_options_of args)"
    and "ls_main Q exactMatch dbExists backends args = (r, out)"
  shows "sorted out \<and> distinct out \<and>
    set out = {k. io_keyDeclared I k \<and> exactMatch (ls_filter (ls_options_of args)) k \<and>
      (ls_provided (ls_options_of args) \<longrightarrow> ci_provided (ci_new I k))} \<and>
    r = (if out = [] then 1 else 0)"
proof -
  let ?o = "ls_options_of args"
  have I: "distinct (io_listKeys I) \<and> {k. io_keyDeclared I k} = set (io_listKeys I)"
    using xml.listed_once [OF assms(1)] xml.declared_iff [OF assms(1)]
      cdb.listed_once [OF assms(2), of Q] cdb.declared_iff [OF assms(2), of Q] assms(3,4)
    by (auto split: backend_kind.splits)
  have "concat (map (\<lambda>k. ls_lines Q ?o (ci_new I k)) ks) = ks" for ks
    using assms(5,6) by (induction ks) (simp_all add: ls_lines_def Let_def)
  then have "out = filter (ls_shown exactMatch I ?o) (sort (io_listKeys I))" "r = (if out = [] then 1 else 0)"
    using assms(4,7) by (auto simp: ls_main_def Let_def ls_loop_spec ri_listKeys_def)
  then show ?thesis
    using I by (auto simp: ls_shown_def sorted_wrt_filter)
qed

lemma context_ls_lists_witness:
  "\<exists>xml. xb_new qt_ref sample_fs = Some xml \<and>
    (let m = (\<lambda>p k. p = ''*'' \<or> p = k);
         backends = (\<lambda>k. case k of XmlBackend \<Rightarrow> xb_ops xml
           | CdbBackend \<Rightarrow> cb_ops qt_ref cdb_ref (cb_new qt_ref cdb_ref \<lparr>dk_inode = 0, dk_file = NoFile, dk_fd = 4\<rparr>))
     in set (snd (ls_main qt_ref m False backends [''context-ls'', ''-p''])) =
       {k. xb_keyDeclared k xml \<and> ci_provided (ci_new (xb_ops xml) k)})"
proof -
  obtain xml where x: "xb_new qt_ref sample_fs = Some xml"
    by (cases "xb_new qt_ref sample_fs") (simp, code_simp)
  have ok: "xb_ok xml" using x regenerate_ok by (auto simp: xb_new_def)
  have c: "cb_ok cdb_ref (cb_new qt_ref cdb_ref \<lparr>dk_inode = 0, dk_file = NoFile, dk_fd = 4\<rparr>)"
    by (simp add: cb_ok_def cb_closed_def cb_new_def cr_new_def cr_reopen_def cr_close_def
        checkCompatibility_def cr_isReadable_def)
  have o': "ls_options_of [''context-ls'', ''-p''] = ls_defaults\<lparr>ls_provided := True\<rparr>" by code_simp
  show ?thesis
    using context_ls_lists [OF ok c refl refl, where exactMatch = "\<lambda>p k. p = ''*'' \<or> p = k" and dbExists = False
        and args = "[''context-ls'', ''-p'']" and Q = qt_ref, OF _ _ prod.collapse [symmetric]] x
    by (simp add: o' ls_defaults_def ib_instance_def Let_def xb_ops_def)
qed

end
