(* ===== verification/Logging.thy ===== *)
theory Logging
  imports CK_Prelude
begin

text \<open>
  The runtime logger (src/common/logging.cpp): the static configuration, set once from the
  environment when the first message is built, and the life of a message, which is composed in
  a string and printed when it is destroyed. \<open>QDebug\<close> writes a \<open>char*\<close> followed by
  a space; a payload is given as the string \<open>QDebug\<close> makes of it.
\<close>

record log_config =
  lc_showTest :: bool
  lc_showDebug :: bool
  lc_showWarning :: bool
  lc_showCritical :: bool
  lc_hideTimestamps :: bool
  lc_useColor :: bool
  lc_showModule :: "string option"
  lc_hideModule :: "string option"
  lc_initialized :: bool
  lc_vanilla :: bool

definition log_static :: log_config where
  "log_static = \<lparr>lc_showTest = True, lc_showDebug = True, lc_showWarning = True, lc_showCritical = True,
     lc_hideTimestamps = False, lc_useColor = False, lc_showModule = None, lc_hideModule = None,
     lc_initialized = False, lc_vanilla = False\<rparr>"

type_synonym environment = "string \<Rightarrow> string option"

definition log_initialize :: "environment \<Rightarrow> log_config \<Rightarrow> log_config" where
  "log_initialize env c =
     (let c1 = (if env ''CONTEXT_LOG_HIDE_TIMESTAMPS'' \<noteq> None then c\<lparr>lc_hideTimestamps := True\<rparr> else c);
          c2 = (if env ''CONTEXT_LOG_USE_COLOR'' \<noteq> None then c1\<lparr>lc_useColor := True\<rparr> else c1);
          c3 = c2\<lparr>lc_showModule := env ''CONTEXT_LOG_SHOW_MODULE'', lc_hideModule := env ''CONTEXT_LOG_HIDE_MODULE''\<rparr>;
          c4 = (if env ''CONTEXT_LOG_VANILLA'' \<noteq> None then c3\<lparr>lc_vanilla := True\<rparr> else c3);
          verbosity = (case env ''CONTEXT_LOG_VERBOSITY'' of None \<Rightarrow> ''WARNING'' | Some v \<Rightarrow> v);
          c5 = (if verbosity = ''TEST'' then c4
                else if verbosity = ''DEBUG'' then c4\<lparr>lc_showTest := False\<rparr>
                else if verbosity = ''WARNING'' then c4\<lparr>lc_showTest := False, lc_showDebug := False\<rparr>
                else if verbosity = ''CRITICAL'' then
                  c4\<lparr>lc_showTest := False, lc_showDebug := False, lc_showWarning := False\<rparr>
                else if verbosity = ''NONE'' then
                  c4\<lparr>lc_showDebug := False, lc_showTest := False, lc_showWarning := False\<rparr>
                else c4)
      in c5\<lparr>lc_initialized := True\<rparr>)"

record logger =
  lg_type :: int
  lg_module :: string
  lg_data :: string
  lg_features :: "string list"

text \<open>The macro values of the message types.\<close>

definition msg_test :: int where "msg_test = 1"
definition msg_debug :: int where "msg_debug = 2"
definition msg_warning :: int where "msg_warning = 3"
definition msg_critical :: int where "msg_critical = 4"

definition log_piece :: "string \<Rightarrow> logger \<Rightarrow> logger" where
  "log_piece s l = l\<lparr>lg_data := lg_data l @ s @ '' ''\<rparr>"

definition log_feature :: "string \<Rightarrow> logger \<Rightarrow> logger" where
  "log_feature name l = l\<lparr>lg_features := lg_features l @ [name]\<rparr>"

definition esc :: string where
  "esc = [char_of (27 :: nat)]"

definition logger_new ::
    "environment \<Rightarrow> string \<times> string \<Rightarrow> int \<Rightarrow> string \<Rightarrow> string \<Rightarrow> string \<Rightarrow> nat \<Rightarrow> log_config \<Rightarrow> log_config \<times> logger" where
  "logger_new env now type module func file line c =
     (let c1 = (if \<not> lc_initialized c then log_initialize env c else c);
          l0 = \<lparr>lg_type = type, lg_module = module, lg_data = [], lg_features = []\<rparr>;
          l1 = (if \<not> lc_hideTimestamps c1 \<and> \<not> lc_vanilla c1 then log_piece (fst now) l0 else l0);
          l2 = (if \<not> lc_hideTimestamps c1 then log_piece (snd now) l1 else l1);
          l3 = (if \<not> lc_vanilla c1 then log_piece (''['' @ module @ '']'') l2 else l2);
          l4 = (if type = msg_debug then (if \<not> lc_vanilla c1 then log_piece ''DEBUG'' l3 else l3)
                else if type = msg_warning then
                  log_piece (if lc_useColor c1 then esc @ ''[103mWARNING'' @ esc @ ''[0m'' else ''WARNING'') l3
                else if type = msg_critical then
                  log_piece (if lc_useColor c1 then esc @ ''[101mCRITICAL'' @ esc @ ''[0m'' else ''CRITICAL'') l3
                else if type = msg_test then log_piece ''TEST'' l3
                else log_piece ''UNKNOWN'' l3);
          l5 = (if \<not> lc_vanilla c1
                then log_piece (''['' @ file @ '':'' @ int_str (int line) @ '':'' @ func @ '']'') l4 else l4)
      in (c1, l5))"

definition log_shouldPrint :: "log_config \<Rightarrow> logger \<Rightarrow> bool" where
  "log_shouldPrint c l =
     (if lg_type l = msg_debug \<and> \<not> lc_showDebug c then False
      else if lg_type l = msg_warning \<and> \<not> lc_showWarning c then False
      else if lg_type l = msg_test \<and> \<not> lc_showTest c then False
      else if lg_type l = msg_critical \<and> \<not> lc_showCritical c then False
      else if (case lc_showModule c of None \<Rightarrow> False | Some m \<Rightarrow> m \<noteq> lg_module l) then False
      else if (case lc_hideModule c of None \<Rightarrow> False | Some m \<Rightarrow> m = lg_module l) then False
      else True)"

fun feature_list :: "string list \<Rightarrow> string" where
  "feature_list [] = []"
| "feature_list (f # fs) = ''#'' @ f @ (if fs \<noteq> [] then '', '' else []) @ feature_list fs"

definition log_appendFeatures :: "logger \<Rightarrow> logger" where
  "log_appendFeatures l = (if length (lg_features l) = 0 then l
     else l\<lparr>lg_data := lg_data l @ ''['' @ feature_list (lg_features l) @ '']''\<rparr>)"

text \<open>The destructor: what is written to the standard error stream.\<close>

definition logger_delete :: "log_config \<Rightarrow> logger \<Rightarrow> string option" where
  "logger_delete c l = (if log_shouldPrint c l then Some (lg_data (log_appendFeatures l) @ ''\<newline>'') else None)"

text \<open>A message statement: construct, stream the operands, destroy.\<close>

datatype log_operand = Payload string | Feature string

fun log_stream :: "log_operand \<Rightarrow> logger \<Rightarrow> logger" where
  "log_stream (Payload s) l = l\<lparr>lg_data := lg_data l @ s\<rparr>"
| "log_stream (Feature f) l = log_feature f l"

record log_message =
  lm_type :: int
  lm_module :: string
  lm_func :: string
  lm_file :: string
  lm_line :: nat
  lm_operands :: "log_operand list"

definition log_message :: "environment \<Rightarrow> string \<times> string \<Rightarrow> log_message \<Rightarrow> log_config \<Rightarrow> log_config \<times> string option" where
  "log_message env now msg c =
     (case logger_new env now (lm_type msg) (lm_module msg) (lm_func msg) (lm_file msg) (lm_line msg) c of
       (c1, l) \<Rightarrow> (c1, logger_delete c1 (fold log_stream (lm_operands msg) l)))"

fun log_run :: "(environment \<times> (string \<times> string) \<times> log_message) list \<Rightarrow> log_config \<Rightarrow> log_config \<times> string option list" where
  "log_run [] c = (c, [])"
| "log_run ((env, now, msg) # ms) c = (case log_message env now msg c of
     (c1, out) \<Rightarrow> case log_run ms c1 of (c2, outs) \<Rightarrow> (c2, out # outs))"

section \<open>What is printed\<close>

text \<open>The threshold a verbosity stands for: the lowest message type shown.\<close>

definition log_threshold :: "environment \<Rightarrow> int" where
  "log_threshold env = (case env ''CONTEXT_LOG_VERBOSITY'' of
      None \<Rightarrow> msg_warning
    | Some v \<Rightarrow> if v = ''DEBUG'' then msg_debug else if v = ''WARNING'' then msg_warning
               else if v = ''CRITICAL'' \<or> v = ''NONE'' then msg_critical else msg_test)"

definition log_module_shown :: "environment \<Rightarrow> string \<Rightarrow> bool" where
  "log_module_shown env m =
     ((env ''CONTEXT_LOG_SHOW_MODULE'' = None \<or> env ''CONTEXT_LOG_SHOW_MODULE'' = Some m) \<and>
      env ''CONTEXT_LOG_HIDE_MODULE'' \<noteq> Some m)"

lemmas msg_defs = msg_test_def msg_debug_def msg_warning_def msg_critical_def

lemma log_stream_frame [simp]:
  "lg_type (fold log_stream os l) = lg_type l" "lg_module (fold log_stream os l) = lg_module l"
proof -
  have "lg_type (log_stream x l) = lg_type l \<and> lg_module (log_stream x l) = lg_module l" for x l
    by (cases x) (simp_all add: log_feature_def)
  then show "lg_type (fold log_stream os l) = lg_type l" "lg_module (fold log_stream os l) = lg_module l"
    by (induction os arbitrary: l) auto
qed

lemma logger_new_frame:
  "lg_type (snd (logger_new env now t m f fi n c)) = t" "lg_module (snd (logger_new env now t m f fi n c)) = m"
  "fst (logger_new env now t m f fi n c) = (if lc_initialized c then c else log_initialize env c)"
  by (simp_all add: logger_new_def Let_def log_piece_def)

lemma shouldPrint_initialized:
  assumes "c = log_initialize env log_static" and "lg_type l \<in> {msg_test, msg_debug, msg_warning, msg_critical}"
  shows "log_shouldPrint c l \<longleftrightarrow> lg_type l \<ge> log_threshold env \<and> log_module_shown env (lg_module l)"
proof -
  have "lc_showModule c = env ''CONTEXT_LOG_SHOW_MODULE''" "lc_hideModule c = env ''CONTEXT_LOG_HIDE_MODULE''"
    by (simp_all add: assms(1) log_initialize_def Let_def)
  moreover have "lc_showTest c = (log_threshold env \<le> msg_test)" "lc_showDebug c = (log_threshold env \<le> msg_debug)"
    "lc_showWarning c = (log_threshold env \<le> msg_warning)" "lc_showCritical c" "log_threshold env \<le> msg_critical"
    by (auto simp: assms(1) log_initialize_def Let_def log_static_def log_threshold_def msg_defs split: option.splits)
  ultimately show ?thesis
    using assms(2) by (auto simp: log_shouldPrint_def log_module_shown_def msg_defs split: option.splits)
qed

lemma log_initialized: "lc_initialized (log_initialize env c)"
  by (simp add: log_initialize_def Let_def)

lemma log_message_initialized:
  assumes "c = log_initialize env log_static"
    and "lm_type msg \<in> {msg_test, msg_debug, msg_warning, msg_critical}"
  shows "fst (log_message env' now msg c) = c \<and>
    (snd (log_message env' now msg c) \<noteq> None \<longleftrightarrow>
       lm_type msg \<ge> log_threshold env \<and> log_module_shown env (lm_module msg))"
proof -
  obtain c1 l where l: "logger_new env' now (lm_type msg) (lm_module msg) (lm_func msg) (lm_file msg) (lm_line msg) c = (c1, l)"
    by fastforce
  have "lc_initialized c" unfolding assms(1) by (rule log_initialized)
  then have "c1 = c" "lg_type l = lm_type msg" "lg_module l = lm_module msg"
    using logger_new_frame [of env' now "lm_type msg" "lm_module msg" "lm_func msg" "lm_file msg" "lm_line msg" c, unfolded l]
    by simp_all
  then show ?thesis
    using shouldPrint_initialized [OF assms(1), of "fold log_stream (lm_operands msg) l"] assms(2) l
    by (simp add: log_message_def logger_delete_def)
qed



text \<open>Verbosity \<open>NONE\<close> still prints critical messages: it does not clear \<open>showCritical\<close>.\<close>

lemma verbosity_none_prints_critical:
  "snd (log_message (\<lambda>v. if v = ''CONTEXT_LOG_VERBOSITY'' then Some ''NONE'' else None) now
     \<lparr>lm_type = msg_critical, lm_module = m, lm_func = f, lm_file = fi, lm_line = n, lm_operands = os\<rparr> log_static) \<noteq> None"
  by (simp add: log_message_def logger_new_def Let_def log_static_def log_initialize_def logger_delete_def
      log_shouldPrint_def msg_defs log_piece_def)

text \<open>The features of a printed message end its line, in the order they were streamed.\<close>

lemma feature_list_commas: "fs \<noteq> [] \<Longrightarrow> feature_list (fs @ [f]) = feature_list fs @ '', #'' @ f"
  by (induction fs rule: feature_list.induct) (auto split: if_splits)

end
