(* ===== verification/Command_Reader.thy ===== *)
theory Command_Reader
  imports CK_Prelude
begin

text \<open>
  How the two command line tools read their commands (\<open>CommandWatcher::onActivated\<close> in
  context-provide/commandwatcher.cpp and cli/commandwatcher.cpp): whatever is readable is added
  to a buffer, whole lines are taken from it and split at semicolons. The index of the line end
  counts bytes, but the line is cut after decoding the buffer, which stops at a NUL and is the
  parameter \<open>fromUtf8\<close>.
\<close>

type_synonym command_buffer = string

definition c_str :: "string \<Rightarrow> string" where
  "c_str b = takeWhile (\<lambda>c. c \<noteq> CHR 0x00) b"

text \<open>\<open>indexOf('\<newline>')\<close>.\<close>

fun line_end :: "string \<Rightarrow> nat option" where
  "line_end [] = None"
| "line_end (c # s) = (if c = CHR 0x0A then Some 0 else map_option Suc (line_end s))"

definition line_commands :: "string \<Rightarrow> string list" where
  "line_commands l = map qs_trimmed (qs_split (CHR '';'') l)"

lemma line_end_less: "line_end b = Some n \<Longrightarrow> n < length b"
  by (induction b arbitrary: n) (auto split: if_splits)

function take_commands :: "(string \<Rightarrow> string) \<Rightarrow> command_buffer \<Rightarrow> string list \<times> command_buffer" where
  "take_commands fromUtf8 b = (case line_end b of
      None \<Rightarrow> ([], b)
    | Some n \<Rightarrow> (case take_commands fromUtf8 (drop (Suc n) b) of
        (cs, rest) \<Rightarrow> (line_commands (take n (fromUtf8 (c_str b))) @ cs, rest)))"
  by pat_completeness auto
termination
  by (relation "measure (\<lambda>(_, b). length b)") (auto dest: line_end_less)

declare take_commands.simps [simp del]

text \<open>
  One activation: the chunks \<open>read\<close> returns until it would block or the end of the input, which
  makes the program quit after the commands. The result is the commands to interpret, the buffer
  and whether to quit.
\<close>

definition onActivated :: "(string \<Rightarrow> string) \<Rightarrow> string list \<times> bool \<Rightarrow> command_buffer \<Rightarrow> string list \<times> command_buffer \<times> bool" where
  "onActivated fromUtf8 reads b = (case reads of (chunks, eof) \<Rightarrow>
     case take_commands fromUtf8 (b @ concat chunks) of (cs, rest) \<Rightarrow> (cs, rest, eof))"

fun run_activations :: "(string \<Rightarrow> string) \<Rightarrow> (string list \<times> bool) list \<Rightarrow> command_buffer \<Rightarrow> string list \<times> command_buffer" where
  "run_activations U [] b = ([], b)"
| "run_activations U (r # rs) b = (case onActivated U r b of (cs, b1, _) \<Rightarrow>
     case run_activations U rs b1 of (cs', b2) \<Rightarrow> (cs @ cs', b2))"

section \<open>The commands of an input\<close>

text \<open>The lines of an input that are complete, and what follows the last of them.\<close>

definition whole_lines :: "string \<Rightarrow> string list" where
  "whole_lines s = butlast (qs_split (CHR 0x0A) s)"

definition partial_line :: "string \<Rightarrow> string" where
  "partial_line s = last (qs_split (CHR 0x0A) s)"

lemma line_end_split:
  "(case line_end b of None \<Rightarrow> CHR 0x0A \<notin> set b
    | Some n \<Rightarrow> b = take n b @ CHR 0x0A # drop (Suc n) b \<and> CHR 0x0A \<notin> set (take n b))"
proof (induction b)
  case (Cons c b)
  then show ?case by (cases "line_end b") auto
qed simp

lemma whole_lines_step:
  assumes "line_end b = Some n"
  shows "whole_lines b = take n b # whole_lines (drop (Suc n) b)" "partial_line b = partial_line (drop (Suc n) b)"
proof -
  have s: "b = take n b @ CHR 0x0A # drop (Suc n) b" "CHR 0x0A \<notin> set (take n b)"
    using line_end_split [of b] assms by auto
  have "qs_split (CHR 0x0A) b = take n b # qs_split (CHR 0x0A) (drop (Suc n) b)"
    using qs_split_append [OF s(2), of "drop (Suc n) b"] s(1) by simp
  then show "whole_lines b = take n b # whole_lines (drop (Suc n) b)" "partial_line b = partial_line (drop (Suc n) b)"
    by (simp_all add: whole_lines_def partial_line_def)
qed

lemma whole_lines_none:
  "line_end b = None \<Longrightarrow> whole_lines b = [] \<and> partial_line b = b"
  using line_end_split [of b] by (simp add: whole_lines_def partial_line_def qs_split_notin)

text \<open>What \<open>fromUtf8\<close> promises on ASCII text.\<close>

definition ascii :: "string \<Rightarrow> bool" where
  "ascii s = (\<forall>c \<in> set s. c \<noteq> CHR 0x00 \<and> (of_char c :: nat) < 128)"

definition utf8_ok :: "(string \<Rightarrow> string) \<Rightarrow> bool" where
  "utf8_ok U = (\<forall>s. ascii s \<longrightarrow> U s = s)"

lemma ascii_append [simp]: "ascii (s @ t) \<longleftrightarrow> ascii s \<and> ascii t"
  by (auto simp: ascii_def)

lemma ascii_subset: "ascii s \<Longrightarrow> set t \<subseteq> set s \<Longrightarrow> ascii t"
  by (auto simp: ascii_def)

lemma take_commands_lines:
  assumes "ascii b" and "utf8_ok fromUtf8"
  shows "take_commands fromUtf8 b = (concat (map line_commands (whole_lines b)), partial_line b)"
  using assms
proof (induction fromUtf8 b rule: take_commands.induct)
  case (1 U b)
  show ?case
  proof (cases "line_end b")
    case None
    then show ?thesis using whole_lines_none [OF None] by (subst take_commands.simps) simp
  next
    case (Some n)
    have "c_str b = b" using "1.prems"(1) by (auto simp: c_str_def takeWhile_eq_all_conv ascii_def)
    moreover have "U b = b" using "1.prems" by (simp add: utf8_ok_def)
    moreover have "take_commands U (drop (Suc n) b) =
        (concat (map line_commands (whole_lines (drop (Suc n) b))), partial_line (drop (Suc n) b))"
      by (rule "1.IH" [OF Some ascii_subset [OF "1.prems"(1) set_drop_subset] "1.prems"(2)])
    ultimately show ?thesis
      using whole_lines_step [OF Some] by (subst take_commands.simps) (simp add: Some)
  qed
qed

lemma split_partial:
  "whole_lines (s @ t) = whole_lines s @ whole_lines (partial_line s @ t)"
  "partial_line (s @ t) = partial_line (partial_line s @ t)"
proof (induction s rule: measure_induct_rule [of length])
  case (less s)
  {
    case 1
    show ?case
    proof (cases "line_end s")
      case None
      then show ?thesis using whole_lines_none [OF None] by simp
    next
      case (Some n)
      have e: "line_end (s @ t) = Some n" using Some by (induction s arbitrary: n) (auto split: if_splits)
      have n: "n < length s" by (rule line_end_less [OF Some])
      have "length (drop (Suc n) s) < length s" using n by simp
      from less [OF this] show ?thesis
        using whole_lines_step [OF Some] whole_lines_step [OF e] n by simp
    qed
  next
    case 2
    show ?case
    proof (cases "line_end s")
      case None
      then show ?thesis using whole_lines_none [OF None] by simp
    next
      case (Some n)
      have e: "line_end (s @ t) = Some n" using Some by (induction s arbitrary: n) (auto split: if_splits)
      have n: "n < length s" by (rule line_end_less [OF Some])
      have "length (drop (Suc n) s) < length s" using n by simp
      from less [OF this] show ?thesis
        using whole_lines_step [OF Some] whole_lines_step [OF e] n by simp
    qed
  }
qed

lemma partial_line_subset: "set (partial_line s) \<subseteq> set s"
  using qs_split_subset [of "partial_line s" "CHR 0x0A" s] by (auto simp: partial_line_def)

lemma run_activations_from:
  assumes "ascii (b @ concat (concat (map fst rs)))" and "utf8_ok fromUtf8" and "whole_lines b = []"
  shows "run_activations fromUtf8 rs b =
    (concat (map line_commands (whole_lines (b @ concat (concat (map fst rs))))),
     partial_line (b @ concat (concat (map fst rs))))"
  using assms
proof (induction rs arbitrary: b)
  case Nil
  have "partial_line b = b"
    using Nil(3) whole_lines_none [of b] whole_lines_step [of b] by (cases "line_end b") auto
  with Nil show ?case by simp
next
  case (Cons r rs)
  let ?in = "b @ concat (fst r)" and ?rest = "concat (concat (map fst rs))"
  have t: "take_commands fromUtf8 ?in = (concat (map line_commands (whole_lines ?in)), partial_line ?in)"
    by (rule take_commands_lines) (use Cons.prems(1,2) in auto)
  have "ascii (partial_line ?in @ ?rest)"
    using Cons.prems(1) ascii_subset [OF _ partial_line_subset, of ?in] by simp
  moreover have "whole_lines (partial_line ?in) = []"
    using split_partial(1) [of ?in "[]"] by simp
  ultimately have "run_activations fromUtf8 rs (partial_line ?in) =
      (concat (map line_commands (whole_lines (partial_line ?in @ ?rest))), partial_line (partial_line ?in @ ?rest))"
    using Cons.IH Cons.prems(2) by blast
  then show ?case
    using t split_partial [of ?in ?rest] by (simp add: onActivated_def case_prod_unfold)
qed



text \<open>
  Outside ASCII the cut is wrong: the index counts bytes of the buffer but cuts the decoded text,
  so that the command of a line with multi-byte characters runs on into the next line, which is
  then interpreted again. Here \<open>fromUtf8\<close> decodes two-byte sequences to one character.
\<close>

fun two_byte :: "string \<Rightarrow> string" where
  "two_byte (a # b # s) = (if (of_char a :: nat) \<ge> 192 then b # two_byte s else a # two_byte (b # s))"
| "two_byte s = s"

lemma multibyte_line_runs_on:
  "fst (take_commands two_byte ([char_of (195 :: nat), char_of (169 :: nat), char_of (195 :: nat), char_of (169 :: nat)] @ ''\<newline>x\<newline>'')) =
    [[char_of (169 :: nat), char_of (169 :: nat)] @ ''\<newline>x'', ''x'']"
  by code_simp

end
