(* ===== verification/Cli.thy ===== *)
theory Cli
  imports Property_System Property_Info Command_Reader
begin

text \<open>
  The \<open>context-listen\<close> tool (cli/commandwatcher.cpp, cli/propertylistener.cpp,
  cli/context-listen.cpp): creates, deletes, subscribes and prints context properties on command,
  on top of the whole subscriber library. A listener is its key and the number of its
  \<open>ContextProperty\<close> in the system; deleting it unsubscribes. JSON, the type names of
  variants and the property registry are parameters; messages on the debug stream are left out.
  While a wait for a subscription goes on the events of the loop are processed; the events that
  arrive are given with the command, and a wait that outlasts them is \<open>CLWaiting\<close>.
\<close>

record cli =
  cl_sys :: sys
  cl_props :: "(key \<times> nat) list"

record cli_env =
  le_sys :: sys_env
  le_registry :: info_ops
  le_json :: "string \<Rightarrow> qvariant option"
  le_serialize :: "qvariant \<Rightarrow> string"
  le_typeName :: "qvariant \<Rightarrow> string"

datatype cli_end = CLRunning | CLWaiting | CLCrashed

type_synonym cli_result = "cli \<times> string list \<times> cli_end"

definition cl_then :: "cli_result \<Rightarrow> (cli \<Rightarrow> cli_result) \<Rightarrow> cli_result" where
  "cl_then r f = (case r of (s, os, e) \<Rightarrow>
     if e = CLRunning then (case f s of (s1, os1, e1) \<Rightarrow> (s1, os @ os1, e1)) else r)"

section \<open>PropertyListener\<close>

definition valueToString :: "cli_env \<Rightarrow> string \<Rightarrow> nat \<Rightarrow> cli \<Rightarrow> string" where
  "valueToString E defaultValue n s =
     (let value = (if defaultValue \<noteq> []
          then cp_valueDefault n (case le_json E defaultValue of None \<Rightarrow> VInvalid | Some v \<Rightarrow> v) (cl_sys s)
          else cp_valueOf n (cl_sys s))
      in if qv_isNull value then ''Unknown'' else le_typeName E value @ '':'' @ le_serialize E value)"

definition pl_onValueChanged :: "cli_env \<Rightarrow> nat \<Rightarrow> cli \<Rightarrow> string list" where
  "pl_onValueChanged E n s =
     map (\<lambda>e. fst e @ '' = '' @ valueToString E [] n s) (filter (\<lambda>e. snd e = n) (cl_props s))"

text \<open>One event of the subscriber library; the listeners print what it announces.\<close>

definition cl_event :: "cli_env \<Rightarrow> sy_event \<Rightarrow> cli \<Rightarrow> cli_result" where
  "cl_event E e s = (case sy_step (le_sys E) e (cl_sys s) of
     (sy, os) \<Rightarrow> let s1 = s\<lparr>cl_sys := sy\<rparr> in
       (s1, concat (map (\<lambda>x. case x of PropertyChanged n \<Rightarrow> pl_onValueChanged E n s1 | _ \<Rightarrow> []) os), CLRunning))"

definition pl_new :: "cli_env \<Rightarrow> key \<Rightarrow> cli \<Rightarrow> cli_result" where
  "pl_new E key s =
     (let n = length (sy_props (cl_sys s)); info = ci_new (le_registry E) key in
      cl_then (cl_event E (SYNew key) s)
        (\<lambda>s1. (s1\<lparr>cl_props := smap_insert key n (cl_props s1)\<rparr>,
           (if ci_declared info \<noteq> Some True then [''Key doesn'' @ [CHR 0x27] @ ''t exist: '' @ key]
            else if \<not> ci_provided info then [''Key not provided: '' @ key] else []) @
           [key @ '' subscribtion started''], CLRunning)))"

text \<open>\<open>delete properties->take(key)\<close>.\<close>

definition pl_delete :: "cli_env \<Rightarrow> key \<Rightarrow> cli \<Rightarrow> cli_result" where
  "pl_delete E key s = (case map_of (cl_props s) key of
      None \<Rightarrow> (s, [], CLRunning)
    | Some n \<Rightarrow> cl_event E (SYUnsubscribe n) (s\<lparr>cl_props := amap_remove key (cl_props s)\<rparr>))"

text \<open>\<open>waitForSubscription()\<close>: process events while the subscription is pending.\<close>

fun pl_wait :: "cli_env \<Rightarrow> sy_event list \<Rightarrow> nat \<Rightarrow> cli \<Rightarrow> cli_result" where
  "pl_wait E [] n s = (s, [], if cp_waits n (cl_sys s) then CLWaiting else CLRunning)"
| "pl_wait E (e # es) n s =
     (if cp_waits n (cl_sys s) then cl_then (cl_event E e s) (pl_wait E es n) else (s, [], CLRunning))"

section \<open>The commands\<close>

fun for_keys :: "(key \<Rightarrow> cli \<Rightarrow> cli_result) \<Rightarrow> key list \<Rightarrow> cli \<Rightarrow> cli_result" where
  "for_keys f [] s = (s, [], CLRunning)"
| "for_keys f (k # ks) s = cl_then (f k s) (for_keys f ks)"

text \<open>The commands for one known key; a missing argument is indexed out of range.\<close>

definition on_key :: "string list \<Rightarrow> cli \<Rightarrow> (key \<Rightarrow> nat \<Rightarrow> string list) \<Rightarrow> cli_result" where
  "on_key args s f = (case args of
      [] \<Rightarrow> (s, [], CLCrashed)
    | key # _ \<Rightarrow> (case map_of (cl_props s) key of
        None \<Rightarrow> (s, [], CLRunning)
      | Some n \<Rightarrow> (s, f key n, CLRunning)))"

definition cl_interpret :: "cli_env \<Rightarrow> (key \<Rightarrow> sy_event list) \<Rightarrow> string \<Rightarrow> cli \<Rightarrow> cli_result" where
  "cl_interpret E waits command s =
     (let words = qs_split (CHR '' '') command; commandName = hd words; args = tl words;
          known = (\<lambda>k. map_of (cl_props s) k);
          info = (\<lambda>k. ci_new (le_registry E) k)
      in if qs_startsWith ''new'' commandName then
           for_keys (\<lambda>k t. if map_of (cl_props t) k \<noteq> None then (t, [], CLRunning) else pl_new E k t) args s
         else if qs_startsWith ''delete'' commandName then for_keys (pl_delete E) args s
         else if qs_startsWith ''subscribe'' commandName then
           for_keys (\<lambda>k t. case map_of (cl_props t) k of None \<Rightarrow> (t, [], CLRunning)
             | Some n \<Rightarrow> cl_event E (SYSubscribe n) t) args s
         else if qs_startsWith ''waitforsubscription'' commandName then
           for_keys (\<lambda>k t. case map_of (cl_props t) k of None \<Rightarrow> (t, [], CLRunning)
             | Some n \<Rightarrow> cl_then (pl_wait E (waits k) n t) (\<lambda>u. (u, [''wait finished for '' @ k], CLRunning))) args s
         else if qs_startsWith ''unsubscribe'' commandName then
           for_keys (\<lambda>k t. case map_of (cl_props t) k of None \<Rightarrow> (t, [], CLRunning)
             | Some n \<Rightarrow> cl_event E (SYUnsubscribe n) t) args s
         else if qs_startsWith ''value'' commandName then
           on_key args s (\<lambda>k n. [''value: '' @ valueToString E (if length args > 1 then args ! 1 else []) n s])
         else if qs_startsWith ''key'' commandName then
           on_key args s (\<lambda>k n. [''key: '' @ cp_key (sy_props (cl_sys s) ! n)])
         else if qs_startsWith ''ikey'' commandName then on_key args s (\<lambda>k n. [''ikey: '' @ ci_keyName (info k)])
         else if qs_startsWith ''man'' commandName then on_key args s (\<lambda>k n. [''man: '' @ ci_doc (info k)])
         else if qs_startsWith ''type'' commandName then
           on_key args s (\<lambda>k n. [''type: '' @ ci_type (en_qt (le_sys E)) (info k)])
         else if qs_startsWith ''plugin'' commandName then
           on_key args s (\<lambda>k n. if length (ci_providers (info k)) > 0
             then [''plugin: '' @ pi_plugin (ci_providers (info k) ! 0)] else [''no plugin for key:'' @ k])
         else if qs_startsWith ''constructionstring'' commandName then
           on_key args s (\<lambda>k n. if length (ci_providers (info k)) > 0
             then [''constructionstring: '' @ pi_construction (ci_providers (info k) ! 0)]
             else [''no constructionString for key:'' @ k])
         else if qs_startsWith ''providers'' commandName then
           on_key args s (\<lambda>k n. [''providers: '' @
             concat (map (\<lambda>p. pi_construction p @ ''@'' @ pi_plugin p @ '' '') (ci_providers (info k)))])
         else (s, [], CLRunning))"

section \<open>Start-up and runs\<close>

text \<open>\<open>Inl\<close> is an exit code: an option was given.\<close>

definition listen_main :: "cli_env \<Rightarrow> (string \<Rightarrow> string option) \<Rightarrow> (key \<Rightarrow> provider_info list) \<Rightarrow> string list \<Rightarrow> int + cli_result" where
  "listen_main E env registry args =
     (let sy0 = setTypeCheck (env ''CONTEXT_CLI_DISABLE_TYPE_CHECK'' = None) (sys_new registry);
          sy1 = (if env ''CONTEXT_CLI_IGNORE_COMMANDER'' \<noteq> None then ignoreCommander sy0 else sy0);
          keys = drop 1 args
      in if list_ex (\<lambda>k. qs_startsWith k ''-'') keys then Inl 1
         else Inr (for_keys (pl_new E) (fold qset_insert keys []) \<lparr>cl_sys = sy1, cl_props = []\<rparr>))"

datatype cli_event = CLCommand string "key \<Rightarrow> sy_event list" | CLLoop sy_event

text \<open>The application itself makes and subscribes no properties but through its commands.\<close>

fun loop_event :: "sy_event \<Rightarrow> bool" where
  "loop_event (SYNew _) = False"
| "loop_event (SYSubscribe _) = False"
| "loop_event (SYUnsubscribe _) = False"
| "loop_event (SYWaitBlocking _ _) = False"
| "loop_event (SYIgnoreCommander) = False"
| "loop_event (SYTypeCheck _) = False"
| "loop_event _ = True"

fun cl_step :: "cli_env \<Rightarrow> cli_event \<Rightarrow> cli \<Rightarrow> cli_result" where
  "cl_step E (CLCommand c waits) s = cl_interpret E (\<lambda>k. filter loop_event (waits k)) c s"
| "cl_step E (CLLoop e) s = (if loop_event e then cl_event E e s else (s, [], CLRunning))"

fun cl_run :: "cli_env \<Rightarrow> cli_event list \<Rightarrow> cli \<Rightarrow> cli_result" where
  "cl_run E [] s = (s, [], CLRunning)"
| "cl_run E (e # es) s = cl_then (cl_step E e s) (cl_run E es)"

section \<open>Listeners and subscriptions\<close>

definition cl_ok :: "cli \<Rightarrow> bool" where
  "cl_ok s = (sys_ok (cl_sys s) \<and>
     (\<forall>k n. map_of (cl_props s) k = Some n \<longrightarrow> n < length (sy_props (cl_sys s)) \<and> cp_key (sy_props (cl_sys s) ! n) = k) \<and>
     (\<forall>n < length (sy_props (cl_sys s)). cp_subscribed (sy_props (cl_sys s) ! n) \<longrightarrow>
        map_of (cl_props s) (cp_key (sy_props (cl_sys s) ! n)) = Some n))"

text \<open>At most \<open>b\<close> properties more, and the invariant, while they are fewer than 2^32.\<close>

definition grows :: "nat \<Rightarrow> cli \<Rightarrow> cli_result \<Rightarrow> bool" where
  "grows b s r = (cl_ok s \<longrightarrow> length (sy_props (cl_sys s)) + b < 2 ^ 32 \<longrightarrow>
     cl_ok (fst r) \<and> length (sy_props (cl_sys (fst r))) \<le> length (sy_props (cl_sys s)) + b)"

lemma grows_same: "grows b s (s, os, e)"
  by (simp add: grows_def)

lemma grows_out: "grows b s (t, os, e) \<Longrightarrow> grows b s (t, os', e')"
  by (simp add: grows_def)

lemma fst_cl_then: "fst (cl_then r f) = (if snd (snd r) = CLRunning then fst (f (fst r)) else fst r)"
  by (simp add: cl_then_def case_prod_unfold)

lemma grows_then:
  assumes "grows b s r" and "\<And>t. grows c t (f t)"
  shows "grows (b + c) s (cl_then r f)"
  unfolding grows_def fst_cl_then
proof (intro impI)
  assume s: "cl_ok s" "length (sy_props (cl_sys s)) + (b + c) < 2 ^ 32"
  have 1: "cl_ok (fst r)" "length (sy_props (cl_sys (fst r))) \<le> length (sy_props (cl_sys s)) + b"
    using assms(1) s by (auto simp: grows_def)
  have "length (sy_props (cl_sys (fst r))) + c < 2 ^ 32" using 1(2) s(2) by linarith
  then have 2: "cl_ok (fst (f (fst r)))"
      "length (sy_props (cl_sys (fst (f (fst r))))) \<le> length (sy_props (cl_sys (fst r))) + c"
    using assms(2) [of "fst r"] 1(1) by (auto simp: grows_def)
  show "cl_ok (if snd (snd r) = CLRunning then fst (f (fst r)) else fst r) \<and>
     length (sy_props (cl_sys (if snd (snd r) = CLRunning then fst (f (fst r)) else fst r)))
       \<le> length (sy_props (cl_sys s)) + (b + c)"
    using 1 2 by auto
qed

lemma grows_for_keys: "(\<And>k t. grows (Suc 0) t (f k t)) \<Longrightarrow> grows (length ks) s (for_keys f ks s)"
  by (induction ks arbitrary: s) (auto simp: grows_same intro: grows_then [of "Suc 0", simplified])

lemma grows_mono: "grows b s r \<Longrightarrow> b \<le> c \<Longrightarrow> grows c s r"
  by (auto simp: grows_def)

lemma fst_cl_event: "fst (cl_event E e s) = s\<lparr>cl_sys := fst (sy_step (le_sys E) e (cl_sys s))\<rparr>"
  by (simp add: cl_event_def case_prod_unfold Let_def)

lemma loop_props:
  assumes "sys_ok sy" and "loop_event e"
  shows "map (\<lambda>c. (cp_key c, cp_subscribed c)) (sy_props (fst (sy_step E e sy))) =
    map (\<lambda>c. (cp_key c, cp_subscribed c)) (sy_props sy)"
proof (cases e)
  case (SYName x)
  then show ?thesis using assms(1) listener_event_ok [of sy E x] by (auto simp: ok_from_def split: nl_event.splits)
next
  case (SYRegistry k infos)
  have "sys_ok (sy\<lparr>sy_registry := (sy_registry sy)(k := infos)\<rparr>)"
    using assms(1) by (simp add: sys_ok_def subs_def sy_handle_def sy_provider_def prop_count_def)
  then show ?thesis using SYRegistry updateProvider_ok [of "sy\<lparr>sy_registry := (sy_registry sy)(k := infos)\<rparr>" E k]
    by (auto simp: ok_from_def Let_def)
next
  case (SYLoop i)
  then show ?thesis using assms(1) provider_op_ok [of sy "pr_loop (en_plugins E)" E i]
    by (auto simp: ok_from_def subscribedKeys_loop)
next
  case (SYPlugin i sg)
  then show ?thesis using assms(1) provider_op_ok [of sy "pr_on_plugin sg" E i]
    by (auto simp: ok_from_def subscribedKeys_plugin)
next
  case (SYNotify n)
  have "n < length xs \<Longrightarrow> map (\<lambda>c. (cp_key c, cp_subscribed c)) (xs[n := (xs ! n)\<lparr>cp_value := v\<rparr>]) =
      map (\<lambda>c. (cp_key c, cp_subscribed c)) xs" for xs v
    by (simp add: map_update list_update_same_conv)
  from this [of "sy_props sy"] show ?thesis using SYNotify by (auto simp: cp_onValueChanged_def cp_put_def Let_def)
qed (use assms(2) in simp_all)

lemma grows_loop_event: "loop_event e \<Longrightarrow> grows 0 s (cl_event E e s)"
  unfolding grows_def fst_cl_event
proof (intro impI)
  assume e: "loop_event e" and ok: "cl_ok s" and n: "length (sy_props (cl_sys s)) + 0 < 2 ^ 32"
  define sy where "sy = fst (sy_step (le_sys E) e (cl_sys s))"
  have s: "sys_ok (cl_sys s)" using ok by (simp add: cl_ok_def)
  have v: "map (\<lambda>c. (cp_key c, cp_subscribed c)) (sy_props sy) = map (\<lambda>c. (cp_key c, cp_subscribed c)) (sy_props (cl_sys s))"
    unfolding sy_def by (rule loop_props [OF s e])
  then have l: "length (sy_props sy) = length (sy_props (cl_sys s))" using map_eq_imp_length_eq by blast
  have f: "cp_key (sy_props sy ! m) = cp_key (sy_props (cl_sys s) ! m) \<and>
      cp_subscribed (sy_props sy ! m) = cp_subscribed (sy_props (cl_sys s) ! m)" if "m < length (sy_props sy)" for m
    using arg_cong [OF v, of "\<lambda>xs. xs ! m"] that l by simp
  have "sys_ok sy" using sy_step_ok [OF s, of "le_sys E" e] n l unfolding sy_def by simp
  then show "cl_ok (s\<lparr>cl_sys := fst (sy_step (le_sys E) e (cl_sys s))\<rparr>) \<and>
      length (sy_props (cl_sys (s\<lparr>cl_sys := fst (sy_step (le_sys E) e (cl_sys s))\<rparr>))) \<le> length (sy_props (cl_sys s)) + 0"
    using ok f l unfolding sy_def [symmetric] cl_ok_def by auto
qed

lemma set_subscribed_same [simp]: "cp_subscribed (c::context_property) = b \<Longrightarrow> c\<lparr>cp_subscribed := b\<rparr> = c"
  by (cases c) simp

lemma grows_unsubscribe:
  assumes "map_of (cl_props s) k = Some n" and "cl_props t = cl_props s \<or> cl_props t = amap_remove k (cl_props s)"
    and "cl_sys t = fst (sy_step (le_sys E) (SYUnsubscribe n) (cl_sys s))"
    and "t = fst r"
  shows "grows 0 s r"
  unfolding grows_def assms(4) [symmetric]
proof (intro impI)
  assume ok: "cl_ok s"
  define ps where "ps = sy_props (cl_sys s)"
  have n: "n < length ps" "cp_key (ps ! n) = k" using ok assms(1) by (auto simp: cl_ok_def ps_def)
  have s: "sys_ok (cl_sys s)" using ok by (simp add: cl_ok_def)
  have p: "sy_props (cl_sys t) = ps[n := (ps ! n)\<lparr>cp_subscribed := False\<rparr>]"
    using n by (auto simp: assms(3) ps_def cp_unsubscribe_def Let_def cp_put_def h_unsubscribe_frame)
  have t: "sys_ok (cl_sys t)" using cp_unsubscribe_ok [OF s, of n] n by (simp add: assms(3) ps_def)
  have sub: "map_of (cl_props s) (cp_key (ps ! m)) = Some m" if "m < length ps" "cp_subscribed (ps ! m)" for m
    using ok that by (simp add: cl_ok_def ps_def)
  have "map_of (cl_props t) (cp_key (sy_props (cl_sys t) ! m)) = Some m"
    if m: "m < length (sy_props (cl_sys t))" "cp_subscribed (sy_props (cl_sys t) ! m)" for m
  proof -
    have "m \<noteq> n" "m < length ps" "cp_subscribed (ps ! m)" using m n(1) by (cases "m = n"; simp add: p)+
    then show ?thesis using sub [of m] assms(1,2) n by (auto simp: p)
  qed
  moreover have "m < length (sy_props (cl_sys t)) \<and> cp_key (sy_props (cl_sys t) ! m) = l"
    if "map_of (cl_props t) l = Some m" for l m
  proof -
    have "map_of (cl_props s) l = Some m" using that assms(2) by (auto split: if_splits)
    then show ?thesis using ok n by (auto simp: p cl_ok_def ps_def nth_list_update)
  qed
  ultimately show "cl_ok t \<and> length (sy_props (cl_sys t)) \<le> length (sy_props (cl_sys s)) + 0"
    using t by (simp add: cl_ok_def) (simp add: p ps_def)
qed

lemma grows_subscribe:
  assumes "map_of (cl_props s) k = Some n"
  shows "grows 0 s (cl_event E (SYSubscribe n) s)"
  unfolding grows_def fst_cl_event
proof (intro impI)
  assume ok: "cl_ok s" and len: "length (sy_props (cl_sys s)) + 0 < 2 ^ 32"
  define ps where "ps = sy_props (cl_sys s)"
  define sy where "sy = fst (sy_step (le_sys E) (SYSubscribe n) (cl_sys s))"
  have n: "n < length ps" "cp_key (ps ! n) = k" using ok assms by (auto simp: cl_ok_def ps_def)
  have p: "sy_props sy = ps[n := (ps ! n)\<lparr>cp_subscribed := True\<rparr>]"
    using n by (auto simp: sy_def ps_def cp_subscribe_def Let_def cp_put_def h_subscribe_frame)
  have "sys_ok sy" using cp_subscribe_ok [of "cl_sys s" n] n len ok by (simp add: sy_def ps_def cl_ok_def)
  then show "cl_ok (s\<lparr>cl_sys := fst (sy_step (le_sys E) (SYSubscribe n) (cl_sys s))\<rparr>) \<and>
      length (sy_props (cl_sys (s\<lparr>cl_sys := fst (sy_step (le_sys E) (SYSubscribe n) (cl_sys s))\<rparr>)))
        \<le> length (sy_props (cl_sys s)) + 0"
    using ok n assms unfolding sy_def [symmetric] cl_ok_def
    by (auto simp: p ps_def nth_list_update split: if_splits)
qed

lemma cp_new_props: "sys_ok sy \<Longrightarrow> sy_props (fst (cp_new E k sy)) =
    sy_props sy @ [\<lparr>cp_key = k, cp_subscribed = True, cp_value = VInvalid\<rparr>]"
  using handle_instance_ok [of sy E k]
  by (auto simp: cp_new_def case_prod_unfold ok_from_def cp_subscribe_def Let_def cp_put_def h_subscribe_frame)

lemma grows_new:
  assumes "map_of (cl_props s) k = None"
  shows "grows 1 s (pl_new E k s)"
  unfolding grows_def
proof (intro impI)
  assume ok: "cl_ok s" and len: "length (sy_props (cl_sys s)) + 1 < 2 ^ 32"
  define ps where "ps = sy_props (cl_sys s)"
  define sy where "sy = fst (cp_new (le_sys E) k (cl_sys s))"
  have s: "sys_ok (cl_sys s)" using ok by (simp add: cl_ok_def)
  have p: "sy_props sy = ps @ [\<lparr>cp_key = k, cp_subscribed = True, cp_value = VInvalid\<rparr>]"
    unfolding sy_def ps_def by (rule cp_new_props [OF s])
  have t: "fst (pl_new E k s) = s\<lparr>cl_sys := sy, cl_props := smap_insert k (length ps) (cl_props s)\<rparr>"
    by (simp add: pl_new_def Let_def fst_cl_then fst_cl_event sy_def ps_def)
       (simp add: cl_event_def case_prod_unfold Let_def)
  have "sys_ok sy" using cp_new_ok [OF s, of "le_sys E" k] len by (simp add: sy_def)
  then show "cl_ok (fst (pl_new E k s)) \<and>
      length (sy_props (cl_sys (fst (pl_new E k s)))) \<le> length (sy_props (cl_sys s)) + 1"
    using ok assms unfolding t cl_ok_def by (auto simp: p ps_def nth_append less_Suc_eq split: if_splits)
qed

lemma grows_wait: "\<forall>e \<in> set es. loop_event e \<Longrightarrow> grows 0 s (pl_wait E es n s)"
proof (induction es arbitrary: s)
  case (Cons e es)
  have "grows (0 + 0) s (cl_then (cl_event E e s) (pl_wait E es n))"
    by (intro grows_then grows_loop_event Cons.IH) (use Cons.prems in auto)
  then show ?case by (simp add: grows_same)
qed (simp add: grows_same)

lemma grows_on_key: "grows b s (on_key args s f)"
  by (simp add: on_key_def grows_same split: list.split option.split)

fun cl_size :: "cli_event \<Rightarrow> nat" where
  "cl_size (CLCommand c _) = length (qs_split (CHR '' '') c)"
| "cl_size (CLLoop _) = 0"

lemma grows_interpret:
  assumes "\<forall>k. \<forall>e \<in> set (waits k). loop_event e"
  shows "grows (length (qs_split (CHR '' '') c)) s (cl_interpret E waits c s)"
proof -
  define args where "args = tl (qs_split (CHR '' '') c)"
  have b: "length args \<le> length (qs_split (CHR '' '') c)" by (simp add: args_def)
  have new: "grows (length args) s (for_keys (\<lambda>k t. if map_of (cl_props t) k \<noteq> None then (t, [], CLRunning)
      else pl_new E k t) args s)"
    by (rule grows_for_keys) (use grows_new in \<open>auto simp: grows_same\<close>)
  have del: "grows (length args) s (for_keys (pl_delete E) args s)"
  proof (rule grows_for_keys)
    fix k t
    have "grows 0 t (pl_delete E k t)"
    proof (cases "map_of (cl_props t) k")
      case (Some n)
      show ?thesis
        by (rule grows_unsubscribe [OF Some _ _ refl, of _ E]) (simp_all add: pl_delete_def Some fst_cl_event)
    qed (simp add: pl_delete_def grows_same)
    then show "grows (Suc 0) t (pl_delete E k t)" by (rule grows_mono) simp
  qed
  have sub: "grows (length args) s (for_keys (\<lambda>k t. case map_of (cl_props t) k of None \<Rightarrow> (t, [], CLRunning)
             | Some n \<Rightarrow> cl_event E (SYSubscribe n) t) args s)"
    by (rule grows_for_keys) (use grows_mono [OF grows_subscribe] in \<open>auto simp: grows_same split: option.split\<close>)
  have uns: "grows (length args) s (for_keys (\<lambda>k t. case map_of (cl_props t) k of None \<Rightarrow> (t, [], CLRunning)
             | Some n \<Rightarrow> cl_event E (SYUnsubscribe n) t) args s)"
  proof (rule grows_for_keys)
    fix k t
    have "grows 0 t (cl_event E (SYUnsubscribe n) t)" if "map_of (cl_props t) k = Some n" for n
      by (rule grows_unsubscribe [OF that _ _ refl, of _ E]) (simp_all add: fst_cl_event)
    then show "grows (Suc 0) t (case map_of (cl_props t) k of None \<Rightarrow> (t, [], CLRunning)
             | Some n \<Rightarrow> cl_event E (SYUnsubscribe n) t)"
      using grows_mono [of 0 t] by (auto simp: grows_same split: option.split)
  qed
  have wait: "grows (length args) s (for_keys (\<lambda>k t. case map_of (cl_props t) k of None \<Rightarrow> (t, [], CLRunning)
             | Some n \<Rightarrow> cl_then (pl_wait E (waits k) n t) (\<lambda>u. (u, [''wait finished for '' @ k], CLRunning))) args s)"
  proof (rule grows_for_keys)
    fix k t
    have "grows (0 + 0) t (cl_then (pl_wait E (waits k) n t) (\<lambda>u. (u, [''wait finished for '' @ k], CLRunning)))" for n
      by (intro grows_then grows_wait grows_same) (use assms in auto)
    then show "grows (Suc 0) t (case map_of (cl_props t) k of None \<Rightarrow> (t, [], CLRunning)
             | Some n \<Rightarrow> cl_then (pl_wait E (waits k) n t) (\<lambda>u. (u, [''wait finished for '' @ k], CLRunning)))"
      using grows_mono [of 0 t] by (auto simp: grows_same split: option.split)
  qed
  have "grows (length args) s (cl_interpret E waits c s)"
    unfolding cl_interpret_def Let_def args_def [symmetric] using new del sub uns wait by (simp add: grows_on_key grows_same)
  then show ?thesis using b by (rule grows_mono)
qed

lemma grows_run: "grows (sum_list (map cl_size es)) s (cl_run E es s)"
proof (induction es arbitrary: s)
  case (Cons e es)
  have "grows (cl_size e) s (cl_step E e s)"
    by (cases e) (use grows_interpret grows_loop_event in \<open>auto simp: grows_same\<close>)
  then show ?case using grows_then [OF _ Cons.IH] by simp
qed (simp add: grows_same)

lemma grows_start: "distinct ks \<Longrightarrow> (\<forall>k \<in> set ks. map_of (cl_props s) k = None) \<Longrightarrow>
    grows (length ks) s (for_keys (pl_new E) ks s)"
proof (induction ks arbitrary: s)
  case (Cons k ks)
  have t: "cl_props (fst (pl_new E k s)) = smap_insert k (length (sy_props (cl_sys s))) (cl_props s)"
    by (simp add: pl_new_def Let_def fst_cl_then fst_cl_event) (simp add: cl_event_def case_prod_unfold Let_def)
  have r: "snd (snd (pl_new E k s)) = CLRunning"
    by (simp add: pl_new_def Let_def cl_then_def cl_event_def case_prod_unfold)
  have 1: "grows 1 s (pl_new E k s)" using Cons.prems by (intro grows_new) simp
  have 2: "grows (length ks) (fst (pl_new E k s)) (for_keys (pl_new E) ks (fst (pl_new E k s)))"
    using Cons.prems by (intro Cons.IH) (auto simp: t)
  show ?case
    using 1 2 unfolding grows_def by (auto simp: fst_cl_then r)
qed (simp add: grows_same)

lemma cl_ok_fresh: "sys_ok sy \<Longrightarrow> sy_props sy = [] \<Longrightarrow> cl_ok \<lparr>cl_sys = sy, cl_props = []\<rparr>"
  by (simp add: cl_ok_def)

lemma listen_ok:
  assumes "listen_main E env registry args = Inr r"
    and "length args + sum_list (map cl_size es) < 2 ^ 32"
  shows "cl_ok (fst (cl_then r (cl_run E es)))"
proof -
  define sy where "sy = (if env ''CONTEXT_CLI_IGNORE_COMMANDER'' \<noteq> None
      then ignoreCommander (setTypeCheck (env ''CONTEXT_CLI_DISABLE_TYPE_CHECK'' = None) (sys_new registry))
      else setTypeCheck (env ''CONTEXT_CLI_DISABLE_TYPE_CHECK'' = None) (sys_new registry))"
  define s where "s = \<lparr>cl_sys = sy, cl_props = []\<rparr>"
  define ks where "ks = fold qset_insert (drop 1 args) []"
  have sy: "sys_ok sy \<and> sy_props sy = []"
    using sys_new_ok [of registry]
    by (simp add: sy_def sys_new_def setTypeCheck_def ignoreCommander_def sys_ok_def subs_def sy_handle_def
        sy_provider_def prop_count_def)
  have r: "r = for_keys (pl_new E) ks s"
    using assms(1) by (simp add: listen_main_def Let_def s_def sy_def ks_def split: if_splits)
  have d: "distinct ks" by (simp add: ks_def)
  have "card (set ks) \<le> length (drop 1 args)" unfolding ks_def by (simp add: card_length [THEN order_trans])
  then have len: "length ks \<le> length args" using distinct_card [OF d] by simp
  have "grows (length ks) s r" unfolding r by (rule grows_start [OF d]) (simp add: s_def)
  then have "grows (length ks + sum_list (map cl_size es)) s (cl_then r (cl_run E es))"
    by (rule grows_then) (rule grows_run)
  moreover have "cl_ok s" using sy by (simp add: s_def cl_ok_fresh)
  moreover have "length (sy_props (cl_sys s)) + (length ks + sum_list (map cl_size es)) < 2 ^ 32"
    using len assms(2) sy by (simp add: s_def)
  ultimately show ?thesis by (simp add: grows_def)
qed


definition listen_registry :: info_ops where
  "listen_registry = \<lparr>io_name = [], io_listKeys = [''A.b''], io_typeInfoForKey = (\<lambda>_. VInvalid),
     io_docForKey = (\<lambda>_. []), io_keyDeclared = (\<lambda>k. k = ''A.b''), io_keyDeprecated = (\<lambda>_. False),
     io_providersForKey = sample_registry\<rparr>"

definition listen_env :: cli_env where
  "listen_env = \<lparr>le_sys = sample_env, le_registry = listen_registry, le_json = (\<lambda>_. None), le_serialize = (\<lambda>_. []),
     le_typeName = (\<lambda>_. [])\<rparr>"

definition listen_start :: cli_result where
  "listen_start = for_keys (pl_new listen_env) [''A.b''] \<lparr>cl_sys = setTypeCheck True (sys_new sample_registry), cl_props = []\<rparr>"

lemma listen_main_start:
  "listen_main listen_env (\<lambda>_. None) sample_registry [''context-listen'', ''A.b''] = Inr listen_start"
  by (simp add: listen_main_def listen_start_def qset_insert_def qs_startsWith_def)


end
