(* ===== verification/Service_Registry.thy ===== *)
theory Service_Registry
  imports Service_Backend
begin

text \<open>
  The life of the \<open>Service\<close> objects of one provider program (service.cpp, servicebackend.cpp,
  property.cpp): a \<open>Service\<close> is a pointer to a backend of the table of instances, several of
  them share one, and the backend counts them. The state is the table together with the
  \<open>Service\<close> objects that are alive, each with the backend it points to (named by its key in
  the table). The events are what the program may do with the objects it has, and what its
  clients do on D-Bus. \<open>None\<close> is the end of the program, by \<open>qFatal\<close> or \<open>abort\<close>.
\<close>

record process =
  ps_services :: services
  ps_objects :: "(nat \<times> string) list"

type_synonym ps_outs = "(string \<times> key \<times> pp_out) list"

type_synonym ps_result = "(process \<times> ps_outs) option"

definition ps_start :: process where
  "ps_start = \<lparr>ps_services = \<lparr>sv_instances = [], sv_default = None\<rparr>, ps_objects = []\<rparr>"

definition ps_backend :: "string \<Rightarrow> process \<Rightarrow> backend option" where
  "ps_backend l s = map_of (sv_instances (ps_services s)) l"

definition ps_put :: "string \<Rightarrow> backend \<Rightarrow> process \<Rightarrow> process" where
  "ps_put l b s = s\<lparr>ps_services := sv_put l b (ps_services s)\<rparr>"

text \<open>What a \<open>Service\<close> forwards to its backend.\<close>

definition ps_forward :: "string \<Rightarrow> (backend \<Rightarrow> backend \<times> sb_outs) \<Rightarrow> process \<Rightarrow> ps_result" where
  "ps_forward l f s = (case ps_backend l s of
      Some b \<Rightarrow> (case f b of (b1, os) \<Rightarrow> Some (ps_put l b1 s, map (Pair l) os))
    | None \<Rightarrow> None)"

definition service_start :: "dbus_answers \<Rightarrow> backend \<Rightarrow> backend \<times> sb_outs" where
  "service_start D b = snd (sb_start D b)"

definition service_stop :: "backend \<Rightarrow> backend \<times> sb_outs" where
  "service_stop b = sb_stop b"

definition service_setValue :: "qt_lib \<Rightarrow> 64 word \<Rightarrow> key \<Rightarrow> qvariant \<Rightarrow> backend \<Rightarrow> backend \<times> sb_outs" where
  "service_setValue Q now key v b = sb_setValue Q now key v b"

text \<open>\<open>D\<close> is what the new connection answers.\<close>

definition service_setConnection :: "dbus_answers \<Rightarrow> backend \<Rightarrow> backend \<times> sb_outs" where
  "service_setConnection D b = (case sb_stop b of (b1, o1) \<Rightarrow>
     case sb_start D b1 of (_, b2, o2) \<Rightarrow> (b2, o1 @ o2))"

definition prop_on_service :: "dbus_answers \<Rightarrow> 64 word \<Rightarrow> key \<Rightarrow> backend \<Rightarrow> backend \<times> sb_outs" where
  "prop_on_service D now key b = (prop_init D now key b, [])"

definition prop_setValue :: "qt_lib \<Rightarrow> 64 word \<Rightarrow> key \<Rightarrow> qvariant \<Rightarrow> backend \<Rightarrow> backend \<times> sb_outs" where
  "prop_setValue Q now key v b = sb_setValue Q now key v b"

definition prop_key :: "key \<Rightarrow> backend \<Rightarrow> key option" where
  "prop_key key b = map_option (\<lambda>a. pp_key (pa_property a)) (map_of (sb_props b) key)"

text \<open>The destructor of a backend, which nothing in the library calls.\<close>

definition sv_destroy :: "string \<Rightarrow> services \<Rightarrow> services \<times> sb_outs" where
  "sv_destroy l sv = (case map_of (sv_instances sv) l of
      Some b \<Rightarrow> (case sb_stop b of (b1, os) \<Rightarrow>
        ((sv_put l b1 sv)\<lparr>sv_default := (if sv_default sv = Some l then None else sv_default sv)\<rparr>, os))
    | None \<Rightarrow> (sv, []))"

section \<open>Events\<close>

datatype ps_event =
    PSNewConnection nat string
  | PSNewBus nat bus_type string bool
  | PSDelete nat
  | PSSetAsDefault nat
  | PSStart nat
  | PSStop nat
  | PSRestart nat
  | PSSetConnection nat
  | PSSetValue nat "64 word" key qvariant
  | PSProperty nat "64 word" key
  | PSDefaultProperty "64 word" key
  | PSPropertySet string "64 word" key qvariant
  | PSClient string key pa_event

text \<open>An event on a pointer that is not (or, for a constructor, already is) a living object does
  not happen: it leaves everything as it is.\<close>

definition ps_on :: "nat \<Rightarrow> (string \<Rightarrow> process \<Rightarrow> ps_result) \<Rightarrow> process \<Rightarrow> ps_result" where
  "ps_on i f s = (case map_of (ps_objects s) i of Some l \<Rightarrow> f l s | None \<Rightarrow> Some (s, []))"

definition ps_new :: "nat \<Rightarrow> string \<Rightarrow> services \<times> sb_outs \<Rightarrow> process \<Rightarrow> ps_result" where
  "ps_new i l r s = (case r of (sv, os) \<Rightarrow>
     (if i \<in> fst ` set (ps_objects s) then Some (s, [])
      else Some (\<lparr>ps_services = sv, ps_objects = (i, l) # ps_objects s\<rparr>, map (Pair l) os)))"

fun ps_step :: "qt_lib \<Rightarrow> dbus_answers \<Rightarrow> ps_event \<Rightarrow> process \<Rightarrow> ps_result" where
  "ps_step Q D (PSNewConnection i lookup) s =
     ps_new i lookup (service_of_connection D lookup (ps_services s), []) s"
| "ps_step Q D (PSNewBus i busType busName autoStart) s =
     ps_new i (sv_lookup busType busName) (service_of_bus D busType busName autoStart (ps_services s)) s"
| "ps_step Q D (PSDelete i) s = ps_on i (\<lambda>l s. case service_delete l (ps_services s) of
     (sv, os) \<Rightarrow> Some (\<lparr>ps_services = sv, ps_objects = amap_remove i (ps_objects s)\<rparr>, map (Pair l) os)) s"
| "ps_step Q D (PSSetAsDefault i) s = ps_on i (\<lambda>l s.
     Some (s\<lparr>ps_services := service_setAsDefault l (ps_services s)\<rparr>, [])) s"
| "ps_step Q D (PSStart i) s = ps_on i (\<lambda>l. ps_forward l (service_start D)) s"
| "ps_step Q D (PSStop i) s = ps_on i (\<lambda>l. ps_forward l service_stop) s"
| "ps_step Q D (PSRestart i) s = ps_on i (\<lambda>l s. case ps_backend l s of
      Some b \<Rightarrow> map_option (\<lambda>(b1, os). (ps_put l b1 s, map (Pair l) os)) (service_restart D b)
    | None \<Rightarrow> None) s"
| "ps_step Q D (PSSetConnection i) s = ps_on i (\<lambda>l. ps_forward l (service_setConnection D)) s"
| "ps_step Q D (PSSetValue i now key v) s = ps_on i (\<lambda>l. ps_forward l (service_setValue Q now key v)) s"
| "ps_step Q D (PSProperty i now key) s = ps_on i (\<lambda>l. ps_forward l (prop_on_service D now key)) s"
| "ps_step Q D (PSDefaultProperty now key) s =
     map_option (\<lambda>sv. (s\<lparr>ps_services := sv\<rparr>, [])) (prop_default D now key (ps_services s))"
| "ps_step Q D (PSPropertySet l now key v) s =
     (if ps_backend l s = None then Some (s, []) else ps_forward l (prop_setValue Q now key v) s)"
| "ps_step Q D (PSClient l key e) s =
     (if ps_backend l s = None then Some (s, []) else ps_forward l (sb_step Q D (SBClient key e)) s)"

fun ps_run :: "qt_lib \<Rightarrow> (dbus_answers \<times> ps_event) list \<Rightarrow> process \<Rightarrow> ps_result" where
  "ps_run Q [] s = Some (s, [])"
| "ps_run Q ((D, e) # es) s = (case ps_step Q D e s of None \<Rightarrow> None
    | Some (s1, o1) \<Rightarrow> map_option (\<lambda>(s2, o2). (s2, o1 @ o2)) (ps_run Q es s1))"

lemmas ps_ops = ps_forward_def service_start_def service_stop_def service_setValue_def service_setConnection_def
  prop_on_service_def prop_setValue_def ps_backend_def ps_put_def sv_put_def

section \<open>The counters\<close>

definition ps_uses :: "string \<Rightarrow> process \<Rightarrow> nat" where
  "ps_uses l s = length (filter (\<lambda>e. snd e = l) (ps_objects s))"

definition sb_counted :: "nat \<Rightarrow> backend \<Rightarrow> bool" where
  "sb_counted n b = (sb_ok b \<and> sb_refCount b = int n \<and> (sb_nameOwned b \<longrightarrow> 0 < n \<and> sb_busName b \<noteq> []))"

definition ps_ok :: "process \<Rightarrow> bool" where
  "ps_ok s = (distinct (map fst (ps_objects s)) \<and>
     (\<forall>l b. ps_backend l s = Some b \<longrightarrow> sb_counted (ps_uses l s) b) \<and>
     (\<forall>e \<in> set (ps_objects s). ps_backend (snd e) s \<noteq> None) \<and>
     (\<forall>l. sv_default (ps_services s) = Some l \<longrightarrow> ps_backend l s \<noteq> None))"

text \<open>What every operation of a backend keeps: the counter and the bus name.\<close>

lemma sb_stop_busName: "sb_busName (fst (sb_stop b)) = sb_busName b"
  by (auto simp: sb_stop_def Let_def split: prod.splits)

lemma sb_stop_nameOwned: "sb_nameOwned (fst (sb_stop b)) \<Longrightarrow> sb_nameOwned b \<and> sb_busName b = []"
  by (auto simp: sb_stop_def Let_def sb_sharedConnection_def split: prod.splits if_splits)

lemma registerProperty_refCount: "sb_refCount (snd (sb_registerProperty D k b)) = sb_refCount b"
  by (simp add: sb_registerProperty_def Let_def)

lemma registerAll_refCount: "sb_refCount (snd (sb_registerAll D ks b)) = sb_refCount b"
  by (induction ks arbitrary: b)
    (auto split: prod.splits, metis registerProperty_refCount snd_conv, metis registerProperty_refCount snd_conv)

lemma sb_stop_counted: "sb_counted n b \<Longrightarrow> sb_counted m (fst (sb_stop b)) \<longleftrightarrow> n = m"
  using sb_stop_nameOwned [of b]
  by (auto simp: sb_counted_def sb_stop_ok sb_stop_refCount sb_stop_busName)

lemma sb_start_frame:
  assumes "sb_counted n b"
  shows "sb_ok (fst (snd (sb_start D b))) \<and> sb_refCount (fst (snd (sb_start D b))) = int n \<and>
    (sb_nameOwned (fst (snd (sb_start D b))) \<longrightarrow> sb_busName (fst (snd (sb_start D b))) \<noteq> [])"
proof -
  obtain r b1 where 1: "sb_registerAll D (amap_keys (sb_props b)) b = (r, b1)"
    by (cases "sb_registerAll D (amap_keys (sb_props b)) b")
  have ok: "sb_ok (fst (snd (sb_start D b)))" using assms by (simp add: sb_counted_def sb_start_ok)
  have r1: "sb_refCount b1 = int n"
    using registerAll_refCount [of D "amap_keys (sb_props b)" b] 1 assms by (simp add: sb_counted_def)
  have o1: "sb_busName b1 = sb_busName b" "sb_nameOwned b1 = sb_nameOwned b" using registerAll_frame [OF 1] by simp_all
  then show ?thesis using ok assms r1 sb_stop_refCount [of b1] sb_stop_nameOwned [of b1] sb_stop_busName [of b1]
    by (auto simp: sb_counted_def sb_start_def 1 sb_sharedConnection_def split: prod.splits if_splits)
qed

lemma sb_start_counted: "sb_counted n b \<Longrightarrow> 0 < n \<Longrightarrow> sb_counted n (fst (snd (sb_start D b)))"
  using sb_start_frame by (auto simp: sb_counted_def)

lemma prop_init_counted: "sb_counted n b \<Longrightarrow> sb_counted n (prop_init D now k b)"
  by (auto simp: sb_counted_def prop_init_ok)
    (auto simp: prop_init_def sb_addProperty_def sb_registerProperty_def Let_def split: if_splits)

lemma sb_setValue_counted: "sb_counted n b \<Longrightarrow> sb_counted n (fst (sb_setValue Q now k v b))"
  using sb_step_ok [of b Q undefined "SBSet now k v"]
  by (auto simp: sb_counted_def sb_setValue_def split: option.splits prod.splits)

lemma sb_client_counted: "sb_counted n b \<Longrightarrow> sb_counted n (fst (sb_step Q D (SBClient k e) b))"
  using sb_step_ok [of b Q D "SBClient k e"]
  by (auto simp: sb_counted_def split: option.splits prod.splits)

lemma setConnection_counted: "sb_counted n b \<Longrightarrow> 0 < n \<Longrightarrow> sb_counted n (fst (service_setConnection D b))"
  using sb_start_counted [of n "fst (sb_stop b)" D] sb_stop_counted [of n b n]
  by (auto simp: service_setConnection_def split: prod.splits)

lemma restart_counted:
  "sb_counted n b \<Longrightarrow> 0 < n \<Longrightarrow> service_restart D b = Some (b', os) \<Longrightarrow> sb_counted n b'"
  using setConnection_counted [of n b D]
  by (auto simp: service_setConnection_def service_restart_def split: prod.splits if_splits)

lemmas counted_intros = sb_start_counted prop_init_counted sb_setValue_counted sb_client_counted setConnection_counted

text \<open>A new backend, a counted reference and a released one.\<close>

lemma sb_new_counted: "sb_counted 0 (sb_new n)"
  by (simp add: sb_counted_def sb_new_def sb_ok_def)

lemma sb_ref_counted: "sb_counted n b \<Longrightarrow> sb_counted (Suc n) (sb_ref b)"
  by (auto simp: sb_counted_def sb_ref_def sb_ok_def)

lemma sb_start_ref_counted: "sb_counted n b \<Longrightarrow> sb_counted (Suc n) (sb_ref (fst (snd (sb_start D b))))"
  using sb_start_frame [of n b D] by (auto simp: sb_counted_def sb_ref_def sb_ok_def)

lemma sb_unref_spec:
  assumes "sb_counted (Suc n) b" and "sb_unref b = (b', os)"
  shows "sb_counted n b' \<and> map fst (sb_props b') = map fst (sb_props b) \<and>
    (0 < n \<longrightarrow> b' = b\<lparr>sb_refCount := int n\<rparr> \<and> os = []) \<and>
    (n = 0 \<longrightarrow> sb_registered b' = [] \<and> \<not> sb_nameOwned b' \<and>
       (\<forall>e \<in> set (sb_props b'). clientServiceNames (snd e) = []))"
proof (cases n)
  case 0
  define b0 where "b0 = b\<lparr>sb_refCount := 0\<rparr>"
  have s: "sb_stop b0 = (b', os)" using assms 0 by (simp add: sb_unref_def Let_def sb_counted_def b0_def)
  note f = sb_stop_spec [OF s]
  have ok: "sb_ok b0" using assms(1) by (simp add: b0_def sb_counted_def sb_ok_def)
  then have "set (sb_registered b') = {}" using f by (auto simp: sb_ok_def)
  then have "sb_registered b' = []" by simp
  moreover have "\<not> sb_nameOwned b'" using sb_stop_nameOwned [of b0] s assms(1) by (auto simp: b0_def sb_counted_def)
  moreover have "sb_ok b'" using sb_stop_ok [OF ok] s by simp
  moreover have "sb_refCount b' = 0" using sb_stop_refCount [of b0] s by (simp add: b0_def)
  ultimately show ?thesis using f 0 by (simp add: sb_counted_def b0_def)
next
  case (Suc m)
  then have "b' = b\<lparr>sb_refCount := int n\<rparr> \<and> os = []" using assms by (auto simp: sb_unref_def Let_def sb_counted_def)
  then show ?thesis using assms(1) Suc by (auto simp: sb_counted_def sb_ok_def)
qed

section \<open>The invariant\<close>

lemma ps_ok_start: "ps_ok ps_start"
  by (simp add: ps_ok_def ps_start_def ps_backend_def)

lemma ps_okD:
  assumes "ps_ok s" and "map_of (ps_objects s) i = Some l"
  obtains b where "ps_backend l s = Some b" "sb_counted (ps_uses l s) b" "0 < ps_uses l s"
proof -
  have e: "(i, l) \<in> set (ps_objects s)" using assms(2) by (rule map_of_SomeD)
  then obtain b where b: "ps_backend l s = Some b" using assms(1) by (fastforce simp: ps_ok_def)
  moreover have "sb_counted (ps_uses l s) b" using assms(1) b by (simp add: ps_ok_def)
  moreover have "filter (\<lambda>e. snd e = l) (ps_objects s) \<noteq> []" using e by (force simp: filter_empty_conv)
  then have "0 < ps_uses l s" by (simp add: ps_uses_def)
  ultimately show ?thesis using that by blast
qed

lemma ps_put_ok: "ps_ok s \<Longrightarrow> sb_counted (ps_uses l s) b \<Longrightarrow> ps_ok (ps_put l b s)"
  by (auto simp: ps_ok_def ps_backend_def ps_put_def sv_put_def ps_uses_def)

lemma ps_forward_ok:
  assumes "ps_ok s" and "ps_forward l f s = Some (s', os)"
    and "\<And>b. ps_backend l s = Some b \<Longrightarrow> sb_counted (ps_uses l s) b \<Longrightarrow> sb_counted (ps_uses l s) (fst (f b))"
  shows "ps_ok s'"
proof -
  obtain b where b: "ps_backend l s = Some b" using assms(2) by (auto simp: ps_forward_def split: option.splits)
  then have "sb_counted (ps_uses l s) b" using assms(1) by (simp add: ps_ok_def)
  then have "ps_ok (ps_put l (fst (f b)) s)" by (intro ps_put_ok assms(1) assms(3) b)
  then show ?thesis using assms(2) b by (auto simp: ps_forward_def split: prod.splits)
qed

definition ps_added :: "string \<Rightarrow> process \<Rightarrow> services \<Rightarrow> bool" where
  "ps_added l s sv = (\<exists>b. sb_counted (Suc (ps_uses l s)) b \<and> sv_default sv = sv_default (ps_services s) \<and>
    (\<forall>k. map_of (sv_instances sv) k = (if k = l then Some b else ps_backend k s)))"

lemma ps_new_ok:
  assumes "ps_ok s" and "ps_added l s sv" and "ps_new i l (sv, os) s = Some (s', os')"
  shows "ps_ok s'"
proof (cases "i \<in> fst ` set (ps_objects s)")
  case False
  then have s': "s' = \<lparr>ps_services = sv, ps_objects = (i, l) # ps_objects s\<rparr>" using assms(3) by (simp add: ps_new_def)
  obtain b where "sb_counted (Suc (ps_uses l s)) b" "sv_default sv = sv_default (ps_services s)"
    "\<And>k. map_of (sv_instances sv) k = (if k = l then Some b else ps_backend k s)"
    using assms(2) unfolding ps_added_def by blast
  then show ?thesis using assms(1) False by (auto simp: s' ps_ok_def ps_backend_def ps_uses_def)
qed (use assms in \<open>simp add: ps_new_def\<close>)

lemma instance_connection_spec:
  assumes "ps_ok s"
  shows "ps_added l s (service_of_connection D l (ps_services s))"
proof (cases "ps_backend l s")
  case None
  then have u: "ps_uses l s = 0" using assms by (auto simp: ps_ok_def ps_uses_def filter_empty_conv)
  let ?b = "fst (snd (sb_start D (sb_new [])))"
  have "sb_counted 0 ?b"
    using sb_new_counted by (simp add: sb_start_def sb_new_def amap_keys_def sb_sharedConnection_def)
  then have "sb_counted (Suc (ps_uses l s)) (sb_ref ?b)" using u by (simp add: sb_ref_counted)
  then show ?thesis using None unfolding ps_added_def
    by (intro exI [of _ "sb_ref ?b"])
      (simp add: service_of_connection_def sv_instance_connection_def ps_backend_def sv_put_def Let_def)
next
  case (Some b)
  then have "sb_counted (Suc (ps_uses l s)) (sb_ref b)" using assms by (simp add: ps_ok_def sb_ref_counted)
  then show ?thesis using Some unfolding ps_added_def
    by (intro exI [of _ "sb_ref b"])
      (simp add: service_of_connection_def sv_instance_connection_def ps_backend_def sv_put_def Let_def)
qed

lemma instance_bus_spec:
  assumes "ps_ok s" and "service_of_bus D t n auto (ps_services s) = (sv, os)" and "l = sv_lookup t n"
  shows "ps_added l s sv"
proof -
  define b where "b = (case ps_backend l s of Some b \<Rightarrow> b | None \<Rightarrow> sb_new n)"
  have c: "sb_counted (ps_uses l s) b"
  proof (cases "ps_backend l s")
    case None
    then have "ps_uses l s = 0" using assms(1) by (auto simp: ps_ok_def ps_uses_def filter_empty_conv)
    then show ?thesis using None by (simp add: b_def sb_new_counted)
  qed (use assms(1) in \<open>simp add: b_def ps_ok_def\<close>)
  define b1 where "b1 = (if auto then fst (snd (sb_start D b)) else b)"
  have "sb_counted (Suc (ps_uses l s)) (sb_ref b1)"
    using c by (simp add: b1_def sb_ref_counted sb_start_ref_counted)
  moreover have "sv = sv_put l (sb_ref b1) (sv_put l b1 (ps_services s))"
    using assms(2,3) by (auto simp: service_of_bus_def sv_instance_bus_def Let_def b_def b1_def ps_backend_def
        split: prod.splits if_splits)
  ultimately show ?thesis unfolding ps_added_def by (intro exI [of _ "sb_ref b1"]) (simp add: sv_put_def ps_backend_def)
qed

lemma uses_remove:
  assumes "distinct (map fst os)" and "map_of os i = Some k"
  shows "length (filter (\<lambda>e. snd e = l) (amap_remove i os)) + (if k = l then 1 else 0) =
    length (filter (\<lambda>e. snd e = l) os)"
  using assms
proof (induction os)
  case (Cons e os)
  show ?case
  proof (cases "fst e = i")
    case True
    then have "filter (\<lambda>e. fst e \<noteq> i) os = os" using Cons.prems(1) by (auto intro!: filter_True simp: rev_image_eqI)
    then show ?thesis using True Cons.prems by (cases e) (simp add: amap_remove_def)
  next
    case False
    then show ?thesis using Cons by (cases e) (simp add: amap_remove_def)
  qed
qed simp

lemma service_delete_spec:
  assumes "ps_ok s" and "map_of (ps_objects s) i = Some l" and "ps_step Q D (PSDelete i) s = Some (s', os)"
  shows "\<exists>b b'. ps_backend l s = Some b \<and> sb_unref b = (b', map snd os) \<and>
    sb_counted (Suc (ps_uses l s')) b \<and> ps_objects s' = amap_remove i (ps_objects s) \<and>
    ps_services s' = sv_put l b' (ps_services s) \<and> Suc (ps_uses l s') = ps_uses l s"
proof -
  obtain b where b: "ps_backend l s = Some b" "sb_counted (ps_uses l s) b" "0 < ps_uses l s"
    using ps_okD [OF assms(1,2)] by blast
  have s': "s' = \<lparr>ps_services = sv_put l (fst (sb_unref b)) (ps_services s), ps_objects = amap_remove i (ps_objects s)\<rparr>"
      "os = map (Pair l) (snd (sb_unref b))"
    using assms(2,3) b(1) by (auto simp: ps_on_def service_delete_def ps_backend_def split: prod.splits)
  have u: "Suc (ps_uses l s') = ps_uses l s"
    using uses_remove [of "ps_objects s" i l l] assms(1,2) by (simp add: s' ps_uses_def ps_ok_def)
  show ?thesis using b u by (intro exI [of _ b] exI [of _ "fst (sb_unref b)"]) (auto simp: s' comp_def)
qed

lemma ps_delete_ok:
  assumes "ps_ok s" and "map_of (ps_objects s) i = Some l" and "ps_step Q D (PSDelete i) s = Some (s', os)"
  shows "ps_ok s'"
proof -
  obtain b b' where b: "ps_backend l s = Some b" "sb_unref b = (b', map snd os)" "sb_counted (Suc (ps_uses l s')) b"
      "ps_objects s' = amap_remove i (ps_objects s)" "ps_services s' = sv_put l b' (ps_services s)"
    using service_delete_spec [OF assms] by blast
  have "ps_uses k s' = ps_uses k s" if "k \<noteq> l" for k
    using that uses_remove [of "ps_objects s" i l k] assms(1,2) by (simp add: b(4) ps_uses_def ps_ok_def)
  moreover have "sb_counted (ps_uses l s') b'" using sb_unref_spec [OF b(3,2)] by simp
  moreover have "ps_backend k s' = (if k = l then Some b' else ps_backend k s)" for k
    by (simp add: ps_backend_def b(5) sv_put_def)
  moreover have "distinct (map fst (ps_objects s'))" "set (ps_objects s') \<subseteq> set (ps_objects s)"
    using assms(1) distinct_keys_amap_remove [of "ps_objects s" i] by (auto simp: b(4) ps_ok_def amap_remove_def)
  moreover have "sv_default (ps_services s') = sv_default (ps_services s)" by (simp add: b(5) sv_put_def)
  ultimately show ?thesis using assms(1) by (auto simp: ps_ok_def)
qed

lemma prop_default_ok:
  assumes "ps_ok s" and "prop_default D now k (ps_services s) = Some sv"
  shows "ps_ok (s\<lparr>ps_services := sv\<rparr>)"
proof -
  obtain l b where b: "ps_backend l s = Some b" "sv = sv_put l (prop_init D now k b) (ps_services s)"
    using assms(2) by (auto simp: prop_default_def ps_backend_def split: option.splits)
  then have "sb_counted (ps_uses l s) (prop_init D now k b)" using assms(1) by (simp add: ps_ok_def prop_init_counted)
  then have "ps_ok (ps_put l (prop_init D now k b) s)" by (rule ps_put_ok [OF assms(1)])
  then show ?thesis by (simp add: b(2) ps_put_def)
qed

lemma ps_forward_counted_ok:
  assumes "ps_ok s" and "map_of (ps_objects s) i = Some l" and "ps_forward l f s = Some (s', os)"
    and "\<And>n b. sb_counted n b \<Longrightarrow> 0 < n \<Longrightarrow> sb_counted n (fst (f b))"
  shows "ps_ok s'"
  using ps_forward_ok [OF assms(1,3)] assms(4) ps_okD [OF assms(1,2)] by metis

lemma ps_step_ok:
  assumes ok: "ps_ok s" and step: "ps_step Q D e s = Some (s', os)"
  shows "ps_ok s'"
proof (cases e)
  case (PSNewConnection i l)
  then show ?thesis using step by (simp add: ps_new_ok [OF ok instance_connection_spec [OF ok]])
next
  case (PSNewBus i t n auto)
  obtain sv o1 where n: "service_of_bus D t n auto (ps_services s) = (sv, o1)"
    by (cases "service_of_bus D t n auto (ps_services s)")
  then show ?thesis using step PSNewBus ps_new_ok [OF ok instance_bus_spec [OF ok n refl]] by simp
next
  case (PSDelete i)
  then show ?thesis
  proof (cases "map_of (ps_objects s) i")
    case (Some l)
    then show ?thesis using ps_delete_ok [OF ok] step PSDelete by blast
  qed (use step ok in \<open>simp add: ps_on_def\<close>)
next
  case (PSSetAsDefault i)
  then show ?thesis using step ok
    by (auto simp: ps_on_def service_setAsDefault_def split: option.splits if_splits elim!: ps_okD [OF ok])
      (auto simp: ps_ok_def ps_backend_def ps_uses_def dest: map_of_SomeD)
next
  case (PSRestart i)
  then show ?thesis
  proof (cases "map_of (ps_objects s) i")
    case (Some l)
    obtain b where b: "ps_backend l s = Some b" "sb_counted (ps_uses l s) b" "0 < ps_uses l s"
      using ps_okD [OF ok Some] by blast
    then obtain b1 o1 where r: "service_restart D b = Some (b1, o1)" "s' = ps_put l b1 s"
      using step PSRestart Some by (auto simp: ps_on_def)
    show ?thesis using ps_put_ok [OF ok restart_counted [OF b(2,3) r(1)]] by (simp add: r(2))
  qed (use step ok in \<open>simp add: ps_on_def\<close>)
next
  case (PSDefaultProperty now k)
  then show ?thesis using step ok by (auto simp: prop_default_ok)
next
  case (PSPropertySet l now k v)
  then show ?thesis using step ok ps_forward_ok [OF ok, of l "prop_setValue Q now k v"]
    by (auto simp: prop_setValue_def sb_setValue_counted split: if_splits)
next
  case (PSClient l k x)
  then show ?thesis using step ok ps_forward_ok [OF ok, of l "sb_step Q D (SBClient k x)"] sb_client_counted
    by (auto simp del: sb_step.simps split: if_splits)
qed (use step ok in \<open>auto simp: ps_on_def service_start_def service_stop_def service_setValue_def prop_on_service_def
    sb_stop_counted counted_intros split: option.splits elim!: ps_forward_counted_ok [OF ok]\<close>)

lemma ps_run_ok: "ps_ok s \<Longrightarrow> ps_run Q es s = Some (s', os) \<Longrightarrow> ps_ok s'"
proof (induction es arbitrary: s os)
  case (Cons x es)
  obtain D e where x: "x = (D, e)" by (cases x)
  then obtain s1 o1 o2 where "ps_step Q D e s = Some (s1, o1)" "ps_run Q es s1 = Some (s', o2)"
    using Cons.prems(2) by (auto split: option.splits)
  then show ?case using Cons.IH ps_step_ok Cons.prems(1) by blast
qed simp

lemma ps_delete_spec:
  assumes ok: "ps_ok s" and i: "map_of (ps_objects s) i = Some l"
  shows "\<exists>b b' s' os. ps_backend l s = Some b \<and> ps_step Q D (PSDelete i) s = Some (s', os) \<and>
    ps_backend l s' = Some b' \<and> (\<forall>k. k \<noteq> l \<longrightarrow> ps_backend k s' = ps_backend k s) \<and>
    map fst (sb_props b') = map fst (sb_props b) \<and>
    (if ps_uses l s = 1 then sb_registered b' = [] \<and> \<not> sb_nameOwned b' \<and>
        (\<forall>e \<in> set (sb_props b'). clientServiceNames (snd e) = [])
     else b' = b\<lparr>sb_refCount := int (ps_uses l s) - 1\<rparr> \<and> os = [])"
proof -
  obtain s' os where s: "ps_step Q D (PSDelete i) s = Some (s', os)"
    using i by (cases "service_delete l (ps_services s)") (auto simp: ps_on_def)
  obtain b b' where b: "ps_backend l s = Some b" "sb_unref b = (b', map snd os)"
      "sb_counted (Suc (ps_uses l s')) b" "ps_services s' = sv_put l b' (ps_services s)" "Suc (ps_uses l s') = ps_uses l s"
    using service_delete_spec [OF ok i s] by blast
  have "ps_backend k s' = (if k = l then Some b' else ps_backend k s)" for k by (simp add: ps_backend_def b(4) sv_put_def)
  then show ?thesis using sb_unref_spec [OF b(3,2)] b(1) s b(5)
    by (intro exI [of _ b] exI [of _ b'] exI [of _ s'] exI [of _ os]) auto
qed

text \<open>C17: the backends count their users. In every run of a provider program (services constructed and
  deleted, started, stopped and moved to another connection, properties added and set, clients
  coming and going) the reference count of a backend is the number of living Service objects that
  point to it, every Service points to a backend of the table, and a bus name is owned only while
  some Service stands for it. Deleting a Service changes no other backend; deleting one that is
  not the last changes nothing but the count, and deleting the last one takes the name, every
  object and every client of the backend off the bus, with the properties kept.\<close>

theorem services_counted:
  assumes "ps_run Q es ps_start = Some (s, os)"
  shows "(\<forall>l b. ps_backend l s = Some b \<longrightarrow>
      sb_refCount b = int (ps_uses l s) \<and> (sb_nameOwned b \<longrightarrow> 0 < ps_uses l s)) \<and>
    (\<forall>e \<in> set (ps_objects s). ps_backend (snd e) s \<noteq> None) \<and>
    (\<forall>i l. map_of (ps_objects s) i = Some l \<longrightarrow> (\<exists>b b' s' os. ps_backend l s = Some b \<and>
      ps_step Q D (PSDelete i) s = Some (s', os) \<and> ps_backend l s' = Some b' \<and>
      (\<forall>k. k \<noteq> l \<longrightarrow> ps_backend k s' = ps_backend k s) \<and> map fst (sb_props b') = map fst (sb_props b) \<and>
      (if ps_uses l s = 1 then sb_registered b' = [] \<and> \<not> sb_nameOwned b' \<and>
          (\<forall>e \<in> set (sb_props b'). clientServiceNames (snd e) = [])
       else b' = b\<lparr>sb_refCount := int (ps_uses l s) - 1\<rparr> \<and> os = [])))"
proof -
  have ok: "ps_ok s" using ps_run_ok [OF ps_ok_start assms] .
  then show ?thesis using ps_delete_spec [OF ok] by (auto simp: ps_ok_def sb_counted_def)
qed

lemma services_counted_witness:
  "\<exists>s os. ps_run qt_ref (map (Pair all_granted) [PSNewBus 1 SessionBus ''org.x'' True, PSNewBus 2 SessionBus ''org.x'' True,
     PSProperty 1 5 ''A.b'', PSDelete 1]) ps_start = Some (s, os) \<and>
   map_option sb_refCount (ps_backend (sv_lookup SessionBus ''org.x'') s) = Some 1"
proof -
  let ?es = "map (Pair all_granted) [PSNewBus 1 SessionBus ''org.x'' True, PSNewBus 2 SessionBus ''org.x'' True,
     PSProperty 1 5 ''A.b'', PSDelete 1]"
  let ?l = "sv_lookup SessionBus ''org.x''"
  have "map_option (\<lambda>(s, os). (ps_uses ?l s, ps_backend ?l s \<noteq> None)) (ps_run qt_ref ?es ps_start) = Some (1, True)"
    by code_simp
  then obtain s os b where r: "ps_run qt_ref ?es ps_start = Some (s, os)" "ps_uses ?l s = 1" "ps_backend ?l s = Some b"
    by auto
  have "sb_refCount b = 1" using services_counted [OF r(1)] r(2,3) by simp
  then show ?thesis using r by (intro exI [of _ s] exI [of _ os]) simp
qed

text \<open>A provider program is ended by its services in two ways only: restarting a service on a
  shared connection, and creating a property for the default service while none is set.\<close>

lemma process_ends_only:
  assumes "ps_ok s"
  shows "ps_step Q D e s = None \<longleftrightarrow>
    (\<exists>i l b. e = PSRestart i \<and> map_of (ps_objects s) i = Some l \<and> ps_backend l s = Some b \<and> sb_sharedConnection b) \<or>
    (\<exists>now k. e = PSDefaultProperty now k \<and> sv_default (ps_services s) = None)"
proof -
  have fw: "ps_backend l s \<noteq> None" if "map_of (ps_objects s) i = Some l" for i l
    using ps_okD [OF assms that] by auto
  have rs: "service_restart D b = None \<longleftrightarrow> sb_sharedConnection b" for b
    by (simp add: service_restart_def split: prod.splits)
  have df: "prop_default D now k (ps_services s) = None \<longleftrightarrow> sv_default (ps_services s) = None" for now k
    using assms by (auto simp: prop_default_def ps_ok_def ps_backend_def split: option.splits)
  show ?thesis
  proof (cases e)
    case (PSRestart i)
    then show ?thesis
    proof (cases "map_of (ps_objects s) i")
      case (Some l)
      obtain b where "ps_backend l s = Some b" using ps_okD [OF assms Some] by blast
      then show ?thesis using PSRestart Some by (simp add: ps_on_def rs)
    qed (simp add: PSRestart ps_on_def)
  qed (auto simp: ps_on_def ps_new_def df ps_forward_def split: option.splits prod.splits dest!: fw)
qed

text \<open>Destroying a backend takes it off the bus and out of the role of the default.\<close>

lemma sv_destroy_off_bus:
  assumes "map_of (sv_instances sv) l = Some b" and "sb_ok b" and "sv_destroy l sv = (sv', os)"
  shows "sv_default sv' \<noteq> Some l \<and> (\<exists>b'. map_of (sv_instances sv') l = Some b' \<and> sb_registered b' = [])"
proof -
  obtain b' o1 where b': "sb_stop b = (b', o1)" by (cases "sb_stop b")
  have "set (sb_registered b') = {}" using sb_stop_spec [OF b'] assms(2) by (auto simp: sb_ok_def)
  then show ?thesis using assms(1,3) b' by (auto simp: sv_destroy_def sv_put_def split: if_splits)
qed

end
