(* ===== verification/System_Wire.thy ===== *)
theory System_Wire
  imports Property_System
begin

text \<open>
  The provider in the system. \<open>Provider\<close> shows what one provider makes of any sequence of
  subscriptions that the upper layer balances; here the upper layer is the handles and properties
  of the application. \<open>sy_wire_run\<close> follows a run of the system for one provider and
  collects what its plugin has been told to be subscribed to: it starts with nothing, loses
  everything when the plugin becomes ready (the contract of the plugin interface), and changes
  with the calls to \<open>subscribe\<close> and \<open>unsubscribe\<close> that the code makes.
\<close>

definition pr_wire_signal :: "plugin_signal \<Rightarrow> provider \<Rightarrow> key set \<Rightarrow> key set" where
  "pr_wire_signal sg p w =
     wire_after (if sg = SigReady \<and> pluginState p \<noteq> READY then {} else w) (snd (pr_on_plugin sg p))"

fun pr_wire_signals :: "plugin_signal list \<Rightarrow> provider \<Rightarrow> key set \<Rightarrow> key set" where
  "pr_wire_signals [] p w = w"
| "pr_wire_signals (sg # sgs) p w = pr_wire_signals sgs (fst (pr_on_plugin sg p)) (pr_wire_signal sg p w)"

definition pr_wire_block :: "plugin_env \<Rightarrow> plugin_signal list \<Rightarrow> provider \<Rightarrow> key set \<Rightarrow> key set" where
  "pr_wire_block E react p w = (case constructPlugin E p of (p1, o1) \<Rightarrow>
     if pr_plugin p1 then pr_wire_signals react p1 (wire_after w o1) else wire_after w o1)"

fun h_wire_block :: "sys_env \<Rightarrow> (provider_info \<Rightarrow> plugin_signal list) \<Rightarrow> key \<Rightarrow> provider_info list \<Rightarrow> sys \<Rightarrow>
    provider_info \<Rightarrow> key set \<Rightarrow> key set" where
  "h_wire_block E react k [] sy j w = w"
| "h_wire_block E react k (i # is) sy j w =
     h_wire_block E react k is (fst (sy_provider_op E i (pr_blockUntilSubscribed (en_plugins E) (react i) k) sy)) j
       (if j = i then pr_wire_block (en_plugins E) (react i) (sy_provider i sy) w else w)"

fun sy_wire :: "sys_env \<Rightarrow> sy_event \<Rightarrow> sys \<Rightarrow> provider_info \<Rightarrow> key set \<Rightarrow> key set" where
  "sy_wire E (SYLoop i) sy j w = (if j = i \<and> map_of (sy_providers sy) i \<noteq> None
     then wire_after w (snd (pr_loop (en_plugins E) (sy_provider i sy))) else w)"
| "sy_wire E (SYPlugin i sg) sy j w = (if j = i \<and> map_of (sy_providers sy) i \<noteq> None \<and> pr_plugin (sy_provider i sy)
     then pr_wire_signal sg (sy_provider i sy) w else w)"
| "sy_wire E (SYWaitBlocking react n) sy j w = (if n < length (sy_props sy) \<and> cp_subscribed (sy_props sy ! n)
     then h_wire_block E react (cp_key (sy_props sy ! n))
       (pendingSubscriptions (sy_handle (cp_key (sy_props sy ! n)) sy)) sy j w else w)"
| "sy_wire E _ sy j w = w"

fun sy_wire_run :: "sys_env \<Rightarrow> sy_event list \<Rightarrow> sys \<Rightarrow> provider_info \<Rightarrow> key set \<Rightarrow> key set" where
  "sy_wire_run E [] sy j w = w"
| "sy_wire_run E (e # es) sy j w = sy_wire_run E es (fst (sy_step E e sy)) j (sy_wire E e sy j w)"

section \<open>Every provider keeps its invariant\<close>

definition wired :: "(provider_info \<Rightarrow> key set) \<Rightarrow> sys \<Rightarrow> bool" where
  "wired W sy = (sys_ok sy \<and> (\<forall>i. pr_ok (sy_provider i sy, W i)) \<and> (\<forall>k. distinct (sy_registry sy k)) \<and>
     (\<forall>k. distinct (myProviders (sy_handle k sy))))"

text \<open>The handles balance their subscriptions.\<close>

lemma unsubscribeAll_wired:
  assumes "\<And>i. pr_ok (sy_provider i sy, W i)" and "distinct is" and "\<And>i. i \<in> set is \<Longrightarrow> k \<in> subs i sy"
  shows "pr_ok (sy_provider i (h_unsubscribeAll k is sy), W i)"
  using assms
proof (induction "is" arbitrary: sy)
  case (Cons j "is")
  have "pr_ok (pr_unsubscribe k (sy_provider j sy), W j)"
    using Cons.prems by (intro pr_unsubscribe_ok) (auto simp: subs_def)
  then show ?case unfolding h_unsubscribeAll.simps
    using Cons.prems by (intro Cons.IH) (auto simp: subs_def)
qed simp

lemma subscribeAll_wired:
  assumes "\<And>i. pr_ok (sy_provider i sy, W i)" and "distinct is" and "\<And>i. i \<in> set is \<Longrightarrow> k \<notin> subs i sy"
  shows "pr_ok (sy_provider i (fst (h_subscribeAll k is pend sy)), W i)"
  using assms
proof (induction "is" arbitrary: pend sy)
  case (Cons j "is")
  obtain b q where q: "pr_subscribe k (sy_provider j sy) = (b, q)" by (cases "pr_subscribe k (sy_provider j sy)")
  have "pr_ok (q, W j)"
    using pr_subscribe_ok [of "sy_provider j sy" "W j" k] Cons.prems q by (simp add: subs_def)
  then have "pr_ok (sy_provider i (fst (h_subscribeAll k is (if b then qset_insert j pend else pend) (sy_put j q sy))), W i)"
    using Cons.prems by (intro Cons.IH) (auto simp: subs_def)
  then show ?case by (simp add: q)
qed simp

lemma onValueChanged_frame:
  "sy_provider i (fst (h_onValueChanged E k sy)) = sy_provider i sy"
  "sy_registry (fst (h_onValueChanged E k sy)) = sy_registry sy"
  by (simp_all add: h_onValueChanged_def Let_def)

lemma onValueChanged_wired: "wired W sy \<Longrightarrow> wired W (fst (h_onValueChanged E k sy))"
  using onValueChanged_ok [of sy E k] onValueChanged_view [of sy E k]
  by (simp add: wired_def onValueChanged_frame ok_from_def same_view_def)

lemma same_providers_wired:
  assumes "wired W sy" and "sys_ok sy'" and "\<And>i. sy_provider i sy' = sy_provider i sy"
    and "\<And>k. myProviders (sy_handle k sy') = myProviders (sy_handle k sy)" and "sy_registry sy' = sy_registry sy"
  shows "wired W sy'"
  using assms by (simp add: wired_def)

lemma updateProvider_wired:
  assumes "wired W sy"
  shows "wired W (fst (updateProvider E k sy))"
proof -
  have ok: "sys_ok sy" using assms by (simp add: wired_def)
  define commanded where "commanded = (commandingEnabled sy \<and> isServicePresent (commanderListener sy) = Present)"
  define new where "new = (if commanded then [commanderInfo] else sy_registry sy k)"
  define sy1 where "sy1 = (if commanded then sy_put commanderInfo (clearValues (sy_provider commanderInfo sy)) sy
      else fold sy_instance new sy)"
  define h where "h = sy_handle k sy"
  define sy2 where "sy2 = h_unsubscribeAll k (myProviders h) sy1"
  obtain sy3 pend where 3: "h_subscribeAll k new [] sy2 = (sy3, pend)" by (cases "h_subscribeAll k new [] sy2")
  define sy4 where "sy4 = sy_put_handle k (h\<lparr>pendingSubscriptions := pend, myProviders := new\<rparr>) sy3"
  have 1: "subs i sy1 = subs i sy" "sy_handle l sy1 = sy_handle l sy" "sy_registry sy1 = sy_registry sy" for i l
    by (simp_all add: sy1_def subs_def)
  have p1: "pr_ok (sy_provider i sy1, W i)" for i
    using assms by (simp add: sy1_def wired_def clearValues_ok)
  have d: "distinct new" "distinct (myProviders h)" using assms by (simp_all add: new_def wired_def h_def)
  have up: "updateProvider E k sy =
     (if subscribeCount h > 0 then (if pend = [] then h_onValueChanged E k sy4 else (sy4, []))
      else (sy_put_handle k (h\<lparr>myProviders := new\<rparr>) sy1, []))"
    unfolding updateProvider_def commanded_def [symmetric] Let_def
    by (simp only: new_def [symmetric] sy1_def [symmetric] 1(2) h_def [symmetric] sy2_def [symmetric] 3 prod.case
        sy4_def [symmetric])
  have fin: "sys_ok (fst (updateProvider E k sy))" using updateProvider_ok [OF ok] by (simp add: ok_from_def)
  show ?thesis
  proof (cases "subscribeCount h > 0")
    case False
    then show ?thesis using fin p1 d assms by (auto simp: up wired_def 1)
  next
    case True
    then have nz: "subscribeCount h \<noteq> 0" by (simp add: word_gt_0)
    have on: "k \<in> subs i sy \<longleftrightarrow> i \<in> set (myProviders h)" for i using ok nz by (simp add: sys_ok_def h_def)
    have p2: "pr_ok (sy_provider i sy2, W i)" for i
      unfolding sy2_def by (rule unsubscribeAll_wired [OF p1 d(2)]) (simp add: 1 on)
    have off: "k \<notin> subs i sy2" for i by (simp add: sy2_def subs_unsubscribeAll 1 on)
    have p4: "pr_ok (sy_provider i sy4, W i)" for i
      using subscribeAll_wired [OF p2 d(1) off, of i "[]"] 3 by (simp add: sy4_def)
    note f = subscribeAll_frame [OF 3]
    have r4: "sy_registry sy4 = sy_registry sy" using f by (simp add: sy4_def sy2_def 1)
    have h4: "myProviders (sy_handle l sy4) = (if l = k then new else myProviders (sy_handle l sy))" for l
      using f by (simp add: sy4_def sy2_def 1)
    have "sy_provider i (fst (updateProvider E k sy)) = sy_provider i sy4"
      "sy_registry (fst (updateProvider E k sy)) = sy_registry sy4"
      "myProviders (sy_handle l (fst (updateProvider E k sy))) = myProviders (sy_handle l sy4)" for i l
      using True onValueChanged_view [of sy4 E k] by (simp_all add: up onValueChanged_frame same_view_def)
    then show ?thesis using fin p4 r4 h4 d(1) assms by (simp add: wired_def)
  qed
qed

lemma wired_chain: "wired W (fst (f sy)) \<Longrightarrow> (\<And>sy1. wired W sy1 \<Longrightarrow> wired W (fst (g sy1))) \<Longrightarrow>
    wired W (fst (case f sy of (sy1, o1) \<Rightarrow> case g sy1 of (sy2, o2) \<Rightarrow> (sy2, o1 @ o2)))"
  by (auto split: prod.splits) (metis fst_conv)

lemma updateAll_wired: "wired W sy \<Longrightarrow> wired W (fst (sy_updateAll E ks sy))"
proof (induction ks arbitrary: sy)
  case (Cons k ks)
  show ?case unfolding sy_updateAll.simps
    by (rule wired_chain) (auto intro: Cons updateProvider_wired)
qed simp

lemma on_listener_wired: "wired W sy \<Longrightarrow> wired W (fst (sy_on_listener E os sy))"
proof (induction os arbitrary: sy)
  case (Cons x xs)
  show ?case unfolding sy_on_listener.simps
    by (rule wired_chain) (auto intro: Cons updateAll_wired split: nl_out.splits)
qed simp

lemma listener_event_wired:
  assumes "wired W sy"
  shows "wired W (fst (sy_listener_event E e sy))"
proof -
  obtain l os where l: "nl_step e (commanderListener sy) = (l, os)" by (cases "nl_step e (commanderListener sy)")
  have "wired W (sy\<lparr>commanderListener := l\<rparr>)"
    using assms by (simp add: wired_def sys_ok_def subs_def sy_provider_def sy_handle_def prop_count_def)
  then show ?thesis using on_listener_wired by (simp add: sy_listener_event_def l)
qed

lemma handle_instance_wired:
  assumes "wired W sy"
  shows "wired W (fst (handle_instance E k sy))"
proof (cases "map_of (sy_handles sy) k")
  case None
  define en where "en = (commandingEnabled sy \<and> en_commanding E)"
  define sy1 where "sy1 = sy_put_handle k (handle_new en) (sy\<lparr>commandingEnabled := en\<rparr>)"
  have none: "sy_handle k sy = handle_new False" using None by (simp add: sy_handle_def)
  have "same_view sy sy1"
    using none by (auto simp: same_view_def sy1_def subs_def sy_provider_def sy_put_handle_def handle_new_def
        sy_handle_def fun_upd_apply)
  moreover have "sy_provider i sy1 = sy_provider i sy" "sy_registry sy1 = sy_registry sy" for i
    by (simp_all add: sy1_def) (simp add: sy_provider_def)
  ultimately have "wired W sy1"
    using assms same_view_ok by (intro same_providers_wired [OF assms]) (auto simp: wired_def same_view_def)
  moreover have "fst (handle_instance E k sy) =
     (if en then let sy2 = fst (sy_listener_event E (NLStart (en_busConnected E) True) sy1)
        in if isServicePresent (commanderListener sy2) \<noteq> Unknown then fst (updateProvider E k sy2) else sy2
      else fst (updateProvider E k sy1))"
    unfolding handle_instance_def handle_construct_def Let_def en_def [symmetric] sy1_def [symmetric]
    using None by (simp add: case_prod_unfold)
  ultimately show ?thesis by (simp add: Let_def updateProvider_wired listener_event_wired)
qed (use assms in \<open>simp add: handle_instance_def\<close>)

lemma setSubscribeFinished_wired:
  assumes "wired W sy"
  shows "wired W (setSubscribeFinished i k sy)"
proof (rule same_providers_wired [OF assms])
  show "sys_ok (setSubscribeFinished i k sy)"
    using assms by (intro same_view_ok [OF setSubscribeFinished_view]) (simp add: wired_def)
qed (simp_all add: setSubscribeFinished_def Let_def)

lemma route_wired: "wired W sy \<Longrightarrow> wired W (fst (sy_route E i os sy))"
proof (induction os arbitrary: sy)
  case (Cons x xs)
  have "wired W (fst (router_onValueChanged E k sy))" for k
    unfolding router_onValueChanged_def
    by (rule wired_chain) (auto intro: handle_instance_wired Cons.prems onValueChanged_wired)
  moreover have "wired W (fst (router_onSubscribeFinished E i k sy))" for k
    using setSubscribeFinished_wired handle_instance_wired [OF Cons.prems, of E k]
    by (simp add: router_onSubscribeFinished_def case_prod_unfold)
  ultimately show ?case unfolding sy_route.simps
    by (intro wired_chain) (use Cons in \<open>auto split: provider_out.splits\<close>)
qed simp

lemma provider_op_wired:
  assumes "wired W sy" and "\<And>p. subscribedKeys (fst (f p)) = subscribedKeys p"
    and "pr_ok (fst (f (sy_provider i sy)), w)"
  shows "wired (W(i := w)) (fst (sy_provider_op E i f sy))"
proof -
  obtain p os where p: "f (sy_provider i sy) = (p, os)" by (cases "f (sy_provider i sy)")
  have "same_view sy (sy_put i p sy)"
    using assms(2) [of "sy_provider i sy"] p by (simp add: same_view_def subs_def)
  then have "sys_ok (sy_put i p sy)" by (rule same_view_ok) (use assms(1) in \<open>simp add: wired_def\<close>)
  moreover have "pr_ok (sy_provider j (sy_put i p sy), (W(i := w)) j)" for j
    using assms(1) assms(3) [unfolded p fst_conv] unfolding wired_def by (cases "j = i") (simp_all add: sy_provider_put)
  moreover have "distinct (sy_registry (sy_put i p sy) k)" "distinct (myProviders (sy_handle k (sy_put i p sy)))" for k
    using assms(1) unfolding wired_def sy_put_frame by blast+
  ultimately have "wired (W(i := w)) (sy_put i p sy)" unfolding wired_def by blast
  then show ?thesis
    using route_wired [of "W(i := w)" "sy_put i p sy" E i os] by (simp add: sy_provider_op_def p del: fun_upd_apply)
qed

text \<open>The signals of a plugin, one at a time and while the code blocks for it.\<close>

lemma on_plugin_keeps_plugin: "pr_plugin (fst (pr_on_plugin sg p)) = pr_plugin p"
proof -
  have "pr_plugin (fst (handleSubscribes q)) = pr_plugin q" for q
    by (simp add: handleSubscribes_def split: plugin_state.splits)
  then show ?thesis by (cases sg) (simp_all add: onPluginReady_def onPluginFailed_def onPluginSubscribeFinished_def
    onPluginSubscribeFinishedValue_def onPluginSubscribeFailed_def onPluginValueChanged_def onPluginVariantChanged_def
    case_prod_unfold)
qed

lemma wire_signal_ok: "pr_ok (p, w) \<Longrightarrow> pr_plugin p \<Longrightarrow> pr_ok (fst (pr_on_plugin sg p), pr_wire_signal sg p w)"
proof -
  assume ok: "pr_ok (p, w)" "pr_plugin p"
  obtain p' os where p': "pr_on_plugin sg p = (p', os)" by (cases "pr_on_plugin sg p")
  show ?thesis
  proof (cases "sg = SigReady")
    case True
    then show ?thesis using onPluginReady_ok [OF ok, of p' os] p' by (simp add: pr_wire_signal_def split: if_splits)
  qed (use pr_signal_ok [OF ok _ p'] p' in \<open>simp add: pr_wire_signal_def\<close>)
qed

lemma wire_signals_ok: "pr_ok (p, w) \<Longrightarrow> pr_plugin p \<Longrightarrow>
    pr_ok (fst (ev_run pr_on_plugin sgs p), pr_wire_signals sgs p w)"
proof (induction sgs arbitrary: p w)
  case (Cons sg sgs)
  have "pr_ok (fst (ev_run pr_on_plugin sgs (fst (pr_on_plugin sg p))),
      pr_wire_signals sgs (fst (pr_on_plugin sg p)) (pr_wire_signal sg p w))"
    by (intro Cons.IH wire_signal_ok Cons.prems) (simp add: on_plugin_keeps_plugin Cons.prems)
  then show ?case by (simp add: case_prod_unfold)
qed simp

lemma wire_block_ok:
  assumes "pr_ok (p, w)"
  shows "pr_ok (fst (pr_blockUntilSubscribed E react k p), pr_wire_block E react p w)"
proof -
  obtain p1 o1 where 1: "constructPlugin E p = (p1, o1)" by (cases "constructPlugin E p")
  have "pr_ok (p1, wire_after w o1)" using constructPlugin_ok [OF assms 1] .
  then show ?thesis using wire_signals_ok [of p1 "wire_after w o1" react]
    by (simp add: pr_blockUntilSubscribed_def pr_wire_block_def 1 case_prod_unfold)
qed

lemma blockAll_wired: "wired W sy \<Longrightarrow>
    wired (\<lambda>j. h_wire_block E react k is sy j (W j)) (fst (h_blockAll E react k is sy))"
proof (induction "is" arbitrary: sy W)
  case (Cons i "is")
  let ?f = "pr_blockUntilSubscribed (en_plugins E) (react i) k"
  let ?w = "pr_wire_block (en_plugins E) (react i) (sy_provider i sy) (W i)"
  have "pr_ok (fst (?f (sy_provider i sy)), ?w)"
    using Cons.prems by (intro wire_block_ok) (simp add: wired_def)
  then have "wired (W(i := ?w)) (fst (sy_provider_op E i ?f sy))"
    by (intro provider_op_wired Cons.prems) (simp_all add: subscribedKeys_block)
  from Cons.IH [OF this] show ?case
    by (simp add: case_prod_unfold fun_upd_apply if_distrib [of "h_wire_block _ _ _ _ _ _"] cong: if_cong)
qed simp

lemma h_subscribe_wired:
  assumes "wired W sy" and "subscribeCount (sy_handle k sy) + 1 \<noteq> 0"
  shows "pr_ok (sy_provider i (h_subscribe k sy), W i) \<and> sy_registry (h_subscribe k sy) = sy_registry sy"
proof -
  have ok: "sys_ok sy" using assms(1) by (simp add: wired_def)
  define h where "h = (sy_handle k sy)\<lparr>subscribeCount := subscribeCount (sy_handle k sy) + 1\<rparr>"
  obtain sy1 pend where 1: "h_subscribeAll k (myProviders h) [] sy = (sy1, pend)"
    by (cases "h_subscribeAll k (myProviders h) [] sy")
  have hs: "h_subscribe k sy = (if subscribeCount h = 1 then sy_put_handle k (h\<lparr>pendingSubscriptions := pend\<rparr>) sy1
      else sy_put_handle k h sy)"
    unfolding h_subscribe_def Let_def h_def [symmetric] by (simp add: 1)
  show ?thesis
  proof (cases "subscribeCount h = 1")
    case True
    then have "subscribeCount (sy_handle k sy) = 0" by (simp add: h_def)
    then have "k \<notin> subs j sy" for j using ok by (simp add: sys_ok_def)
    then have "pr_ok (sy_provider i sy1, W i)"
      using subscribeAll_wired [of sy W "myProviders h" k i "[]"] assms(1) 1 by (simp add: wired_def h_def)
    then show ?thesis using True subscribeAll_frame [OF 1] by (simp add: hs)
  qed (use assms(1) in \<open>simp add: hs wired_def\<close>)
qed

lemma h_unsubscribe_wired:
  assumes "wired W sy" and "subscribeCount (sy_handle k sy) \<noteq> 0"
  shows "pr_ok (sy_provider i (h_unsubscribe k sy), W i) \<and> sy_registry (h_unsubscribe k sy) = sy_registry sy"
  using assms unsubscribeAll_wired [of sy W "myProviders (sy_handle k sy)" k i]
  by (auto simp: h_unsubscribe_def Let_def wired_def sys_ok_def)

lemma count_room:
  assumes "sys_ok sy" and "n < length (sy_props sy)" and "length (sy_props sy) < 2 ^ 32"
    and "\<not> cp_subscribed (sy_props sy ! n)"
  shows "subscribeCount (sy_handle k sy) + 1 \<noteq> 0"
proof -
  have "prop_count k sy < length (sy_props sy)"
    unfolding prop_count_def by (rule length_filter_less [of "sy_props sy ! n"]) (use assms(2,4) in auto)
  then have "Suc (unat (subscribeCount (sy_handle k sy))) < 2 ^ 32" using assms(1,3) by (simp add: sys_ok_def)
  then have "unat (subscribeCount (sy_handle k sy) + 1) = Suc (unat (subscribeCount (sy_handle k sy)))"
    by (simp add: unat_word_ariths)
  then show ?thesis by auto
qed

lemma count_used:
  assumes "sys_ok sy" and "n < length (sy_props sy)" and "cp_subscribed (sy_props sy ! n)"
  shows "subscribeCount (sy_handle (cp_key (sy_props sy ! n)) sy) \<noteq> 0"
proof -
  have "filter (\<lambda>c. cp_subscribed c \<and> cp_key c = cp_key (sy_props sy ! n)) (sy_props sy) \<noteq> []"
    using assms(2,3) by (auto simp: filter_empty_conv)
  then have "unat (subscribeCount (sy_handle (cp_key (sy_props sy ! n)) sy)) \<noteq> 0"
    using assms(1) by (simp add: sys_ok_def prop_count_def)
  then show ?thesis by auto
qed

lemma cp_put_provider [simp]: "sy_provider i (cp_put n c sy) = sy_provider i sy" "sy_registry (cp_put n c sy) = sy_registry sy"
  by (simp_all add: cp_put_def sy_provider_def)

lemma h_subscribe_lists: "myProviders (sy_handle l (h_subscribe k sy)) = myProviders (sy_handle l sy)"
proof -
  obtain sy1 pend where 1: "h_subscribeAll k (myProviders (sy_handle k sy)) [] sy = (sy1, pend)"
    by (cases "h_subscribeAll k (myProviders (sy_handle k sy)) [] sy")
  show ?thesis using subscribeAll_frame [OF 1, of l] by (simp add: h_subscribe_def Let_def 1)
qed

lemma h_unsubscribe_lists: "myProviders (sy_handle l (h_unsubscribe k sy)) = myProviders (sy_handle l sy)"
  by (simp add: h_unsubscribe_def Let_def)

lemma cp_subscribe_wired:
  assumes "wired W sy" and "n < length (sy_props sy)" and "length (sy_props sy) < 2 ^ 32"
  shows "wired W (cp_subscribe n sy)"
proof (cases "cp_subscribed (sy_props sy ! n)")
  case False
  have ok: "sys_ok sy" using assms(1) by (simp add: wired_def)
  have "subscribeCount (sy_handle (cp_key (sy_props sy ! n)) sy) + 1 \<noteq> 0"
    by (rule count_room [OF ok assms(2,3) False])
  note f = h_subscribe_wired [OF assms(1) this]
  have "sys_ok (cp_subscribe n sy)" using cp_subscribe_ok [OF ok assms(2,3)] by simp
  then show ?thesis unfolding wired_def
    using False f assms(1) by (simp add: cp_subscribe_def Let_def h_subscribe_lists wired_def)
qed (use assms(1) in \<open>simp add: cp_subscribe_def Let_def\<close>)

lemma cp_unsubscribe_wired:
  assumes "wired W sy" and "n < length (sy_props sy)"
  shows "wired W (cp_unsubscribe n sy)"
proof (cases "cp_subscribed (sy_props sy ! n)")
  case True
  have ok: "sys_ok sy" using assms(1) by (simp add: wired_def)
  note f = h_unsubscribe_wired [OF assms(1) count_used [OF ok assms(2) True]]
  have "sys_ok (cp_unsubscribe n sy)" using cp_unsubscribe_ok [OF ok assms(2)] by simp
  then show ?thesis unfolding wired_def
    using True f assms(1) by (simp add: cp_unsubscribe_def Let_def h_unsubscribe_lists wired_def)
qed (use assms(1) in \<open>simp add: cp_unsubscribe_def Let_def\<close>)

lemma cp_new_wired:
  assumes "wired W sy" and "Suc (length (sy_props sy)) < 2 ^ 32"
  shows "wired W (fst (cp_new E k sy))"
proof -
  define sy1 where "sy1 = fst (handle_instance E k sy)"
  define sy2 where "sy2 = sy1\<lparr>sy_props := sy_props sy1 @ [\<lparr>cp_key = k, cp_subscribed = False, cp_value = VInvalid\<rparr>]\<rparr>"
  have 1: "wired W sy1" unfolding sy1_def by (rule handle_instance_wired [OF assms(1)])
  have "sys_ok sy" using assms(1) by (simp add: wired_def)
  then have len: "sy_props sy1 = sy_props sy" using handle_instance_ok [of sy E k] by (simp add: sy1_def ok_from_def)
  have "sys_ok sy2"
    using 1 by (simp add: wired_def sys_ok_def sy2_def prop_count_def sy_handle_def subs_def sy_provider_def)
  then have "wired W sy2"
    by (rule same_providers_wired [OF 1]) (simp_all add: sy2_def sy_handle_def sy_provider_def)
  then have "wired W (cp_subscribe (length (sy_props sy1)) sy2)"
    by (rule cp_subscribe_wired) (use assms(2) len in \<open>simp_all add: sy2_def\<close>)
  moreover have "fst (cp_new E k sy) = cp_subscribe (length (sy_props sy1)) sy2"
    by (simp add: cp_new_def case_prod_unfold sy1_def sy2_def)
  ultimately show ?thesis by simp
qed

fun listed_once :: "sy_event \<Rightarrow> bool" where
  "listed_once (SYRegistry k infos) = distinct infos"
| "listed_once _ = True"

lemma registry_wired: "wired W sy \<Longrightarrow> distinct infos \<Longrightarrow> wired W (sy\<lparr>sy_registry := (sy_registry sy)(k := infos)\<rparr>)"
  by (simp add: wired_def sys_ok_def subs_def sy_handle_def sy_provider_def prop_count_def)

lemma step_wired:
  assumes "wired W sy" and "length (sy_props (fst (sy_step E e sy))) < 2 ^ 32" and "listed_once e"
  shows "wired (\<lambda>j. sy_wire E e sy j (W j)) (fst (sy_step E e sy))"
proof (cases e)
  case (SYNew k)
  have "sys_ok sy" using assms(1) by (simp add: wired_def)
  then have "length (sy_props (fst (sy_step E e sy))) = Suc (length (sy_props sy))"
    using sy_step_grow [of sy E e] SYNew by simp
  then show ?thesis using assms(2) cp_new_wired [OF assms(1), of E k] by (simp add: SYNew)
next
  case (SYSubscribe n)
  have "length (sy_props (fst (sy_step E e sy))) = length (sy_props sy)"
    using sy_step_grow [of sy E e] SYSubscribe assms(1) by (simp add: wired_def)
  then show ?thesis using SYSubscribe assms(1,2) cp_subscribe_wired [OF assms(1), of n] by simp
next
  case (SYUnsubscribe n)
  then show ?thesis using assms(1) cp_unsubscribe_wired [OF assms(1), of n] by simp
next
  case (SYNotify n)
  have ok: "sys_ok (fst (sy_step E e sy))" using assms(1,2) by (intro sy_step_ok) (simp_all add: wired_def)
  have "wired W (fst (sy_step E e sy))"
    by (rule same_providers_wired [OF assms(1) ok]) (simp_all add: SYNotify cp_onValueChanged_def Let_def)
  then show ?thesis by (simp add: SYNotify)
next
  case (SYWaitBlocking react n)
  then show ?thesis
    using assms(1) blockAll_wired [OF assms(1), of E react "cp_key (sy_props sy ! n)"]
    by (simp add: cp_waitBlocking_def h_blockUntilSubscribed_def)
next
  case (SYLoop i)
  have "pr_ok (fst (pr_loop (en_plugins E) (sy_provider i sy)), wire_after (W i) (snd (pr_loop (en_plugins E) (sy_provider i sy))))"
    using assms(1) by (intro pr_loop_ok) (auto simp: wired_def)
  from provider_op_wired [OF assms(1) subscribedKeys_loop this]
  have "map_of (sy_providers sy) i \<noteq> None \<Longrightarrow> wired (W(i := wire_after (W i) (snd (pr_loop (en_plugins E) (sy_provider i sy)))))
    (fst (sy_step E e sy))" by (auto simp: SYLoop)
  moreover have "(\<lambda>j. sy_wire E e sy j (W j)) = (if map_of (sy_providers sy) i = None then W
      else W(i := wire_after (W i) (snd (pr_loop (en_plugins E) (sy_provider i sy)))))"
    by (auto simp: SYLoop fun_eq_iff)
  ultimately show ?thesis using assms(1) by (cases "map_of (sy_providers sy) i") (simp_all add: SYLoop)
next
  case (SYPlugin i sg)
  have "pr_plugin (sy_provider i sy) \<Longrightarrow>
      pr_ok (fst (pr_on_plugin sg (sy_provider i sy)), pr_wire_signal sg (sy_provider i sy) (W i))"
    using assms(1) by (intro wire_signal_ok) (simp_all add: wired_def)
  from provider_op_wired [OF assms(1) subscribedKeys_plugin this]
  have "map_of (sy_providers sy) i \<noteq> None \<Longrightarrow> pr_plugin (sy_provider i sy) \<Longrightarrow>
    wired (W(i := pr_wire_signal sg (sy_provider i sy) (W i))) (fst (sy_step E e sy))" by (auto simp: SYPlugin)
  moreover have "(\<lambda>j. sy_wire E e sy j (W j)) =
      (if map_of (sy_providers sy) i \<noteq> None \<and> pr_plugin (sy_provider i sy)
       then W(i := pr_wire_signal sg (sy_provider i sy) (W i)) else W)"
    by (auto simp: SYPlugin fun_eq_iff)
  ultimately show ?thesis using assms(1)
    by (cases "map_of (sy_providers sy) i \<noteq> None \<and> pr_plugin (sy_provider i sy)") (auto simp: SYPlugin)
next
  case (SYName x)
  then show ?thesis using assms(1) listener_event_wired [OF assms(1), of E x] by (cases x) simp_all
next
  case (SYRegistry k infos)
  then show ?thesis
    using registry_wired [OF assms(1), of infos k] updateProvider_wired assms(3)
    by (simp add: Let_def)
next
  case SYIgnoreCommander
  then show ?thesis using assms(1)
    by (simp add: ignoreCommander_def wired_def sys_ok_def subs_def sy_handle_def sy_provider_def prop_count_def)
next
  case (SYTypeCheck b)
  then show ?thesis using assms(1)
    by (simp add: setTypeCheck_def wired_def sys_ok_def subs_def sy_handle_def sy_provider_def prop_count_def)
qed

lemma run_wired:
  "wired W sy \<Longrightarrow> length (sy_props sy) + length (filter is_new es) < 2 ^ 32 \<Longrightarrow> list_all listed_once es \<Longrightarrow>
    wired (\<lambda>j. sy_wire_run E es sy j (W j)) (fst (ev_run (sy_step E) es sy))"
proof (induction es arbitrary: sy W)
  case (Cons e es)
  let ?sy1 = "fst (sy_step E e sy)"
  have ok: "sys_ok sy" using Cons.prems(1) by (simp add: wired_def)
  have len: "length (sy_props ?sy1) + length (filter is_new es) < 2 ^ 32"
    using sy_step_grow [OF ok, of E e] Cons.prems(2) by (cases "is_new e") simp_all
  then have "wired (\<lambda>j. sy_wire E e sy j (W j)) ?sy1"
    by (intro step_wired Cons.prems(1)) (use Cons.prems(3) in simp_all)
  from Cons.IH [OF this len] Cons.prems(3) show ?case by (simp add: case_prod_unfold)
qed simp

lemma sys_new_wired: "(\<And>k. distinct (registry k)) \<Longrightarrow> wired W (sys_new registry)"
  using sys_new_ok [of registry]
  by (simp add: wired_def) (simp add: sys_new_def sy_provider_def provider_instance_def sy_handle_def handle_new_def
    pr_ok_def provider_new_def pr_queueOnce_def posted_queueOnce)

lemma run_from_start_wired:
  assumes "length (filter is_new es) < 2 ^ 32" and "\<And>k. distinct (registry k)" and "list_all listed_once es"
  shows "wired (\<lambda>j. sy_wire_run E es (sys_new registry) j {}) (fst (ev_run (sy_step E) es (sys_new registry)))"
  using run_wired [OF sys_new_wired [where W = "\<lambda>_. {}", OF assms(2)], where es = es and E = E] assms(1,3) by (simp add: sys_new_def)

text \<open>C2: the plugins follow the application. Take any run of the whole subscriber library, over any
  interleaving of properties constructed, subscribed, unsubscribed and waited for, plugin signals,
  commander signals, registry changes that list no provider twice for a key, and turns of the
  event loop, with fewer than 2^32 properties. Whenever a provider is ready and the event loop has
  nothing left for it, the keys its plugin has been told to be subscribed to are exactly the keys
  that a subscribed property of the application has and whose handle uses this provider. While
  calls are still scheduled, the plugin lacks exactly the scheduled subscriptions and still has
  exactly the scheduled unsubscriptions.\<close>

theorem plugins_follow_application:
  assumes "length (filter is_new es) < 2 ^ 32" and "\<forall>k. distinct (registry k)" and "list_all listed_once es"
    and "sy = fst (ev_run (sy_step E) es (sys_new registry))"
    and "w = sy_wire_run E es (sys_new registry) i {}"
    and "wanted = {k. (\<exists>c \<in> set (sy_props sy). cp_subscribed c \<and> cp_key c = k) \<and> i \<in> set (myProviders (sy_handle k sy))}"
  shows "(pluginState (sy_provider i sy) = READY \<longrightarrow>
      w = wanted - set (toSubscribe (sy_provider i sy)) \<union> set (toUnsubscribe (sy_provider i sy)) \<and>
      (qi_posted (pr_queue (sy_provider i sy)) = [] \<longrightarrow> w = wanted)) \<and>
    set (toSubscribe (sy_provider i sy)) \<subseteq> wanted \<and> set (toUnsubscribe (sy_provider i sy)) \<inter> wanted = {}"
proof -
  have v: "wired (\<lambda>j. sy_wire_run E es (sys_new registry) j {}) sy"
    unfolding assms(4) by (rule run_from_start_wired) (use assms(1-3) in auto)
  then have ok: "sys_ok sy" and p: "pr_ok (sy_provider i sy, w)" by (simp_all add: wired_def assms(5))
  have u: "unat (subscribeCount (sy_handle k sy)) = prop_count k sy" for k using ok by (simp add: sys_ok_def)
  have z: "subscribeCount (sy_handle k sy) = 0 \<longleftrightarrow> \<not> (\<exists>c \<in> set (sy_props sy). cp_subscribed c \<and> cp_key c = k)" for k
    unfolding unat_eq_zero [symmetric] u prop_count_def by (auto simp: filter_empty_conv)
  have "set (subscribedKeys (sy_provider i sy)) = wanted"
    using ok z unfolding assms(6) sys_ok_def subs_def by auto
  then show ?thesis using p by (auto simp: pr_ok_def)
qed

lemma plugins_follow_application_witness:
  "sy_wire_run sample_env (sample_events @ [SYLoop lib_info]) (sys_new sample_registry) lib_info {} = {''A.b''}"
proof -
  let ?es = "sample_events @ [SYLoop lib_info]"
  let ?sy = "fst (ev_run (sy_step sample_env) ?es (sys_new sample_registry))"
  have "?sy = fst (sy_step sample_env (SYLoop lib_info) sample_sys)"
    by (simp add: ev_run_append sample_sys_def case_prod_unfold)
  also have "\<dots> = sample_sys"
    by (simp add: sample_access sy_provider_op_def pr_loop_def onQueuedCall_def sy_put_def)
  finally have s: "?sy = sample_sys" .
  have w: "{k. (\<exists>c \<in> set (sy_props sample_sys). cp_subscribed c \<and> cp_key c = k) \<and>
      lib_info \<in> set (myProviders (sy_handle k sample_sys))} = {''A.b''}"
    using sample_sys_facts by auto
  have 1: "length (filter is_new ?es) < 2 ^ 32" "\<forall>k. distinct (sample_registry k)" "list_all listed_once ?es"
    by (simp_all add: sample_events_def sample_registry_def)
  have 2: "pluginState (sy_provider lib_info sample_sys) = READY" "qi_posted (pr_queue (sy_provider lib_info sample_sys)) = []"
    by (simp_all add: sample_access)
  have "sy_wire_run sample_env ?es (sys_new sample_registry) lib_info {} =
      {k. (\<exists>c \<in> set (sy_props sample_sys). cp_subscribed c \<and> cp_key c = k) \<and>
        lib_info \<in> set (myProviders (sy_handle k sample_sys))}"
    using conjunct1 [OF plugins_follow_application [OF 1 s [symmetric] refl refl, of lib_info]] 2 by blast
  then show ?thesis unfolding w .
qed

end
