(* ===== verification/Subscription_Wait.thy ===== *)
theory Subscription_Wait
  imports System_Wire
begin

text \<open>
  \<open>ContextProperty::waitForSubscription\<close> without blocking (contextproperty.cpp): the
  application asks \<open>isSubscribePending\<close> and lets the event loop run until it is false. This
  theory follows the providers a handle still waits for through the events of such a wait and
  shows that the wait ends once the plugins have answered.
\<close>

fun answers :: "key \<Rightarrow> plugin_signal \<Rightarrow> bool" where
  "answers k (SigSubscribeFinished l) = (l = k)"
| "answers k (SigSubscribeFinishedValue l _) = (l = k)"
| "answers k (SigSubscribeFailed l _) = (l = k)"
| "answers k _ = False"

text \<open>The events that neither give up the subscription of property \<open>n\<close> nor start it anew with other
  providers.\<close>

fun steady :: "nat \<Rightarrow> key \<Rightarrow> sy_event \<Rightarrow> bool" where
  "steady n k (SYUnsubscribe m) = (m \<noteq> n)"
| "steady n k (SYRegistry l infos) = (l \<noteq> k \<and> distinct infos)"
| "steady n k (SYName _) = False"
| "steady n k _ = True"

definition settled :: "key \<Rightarrow> sys \<Rightarrow> bool" where
  "settled k sy = (map_of (sy_handles sy) k \<noteq> None \<and> (commandingEnabled sy \<longrightarrow>
     isServicePresent (commanderListener sy) \<noteq> Unknown \<and> listeningStarted (commanderListener sy)))"

definition waits_for :: "key \<Rightarrow> sys \<Rightarrow> provider_info set" where
  "waits_for k sy = set (pendingSubscriptions (sy_handle k sy))"

definition calmer :: "key \<Rightarrow> sys \<Rightarrow> sys \<Rightarrow> bool" where
  "calmer k sy sy' = (settled k sy \<longrightarrow> settled k sy' \<and> waits_for k sy' \<subseteq> waits_for k sy)"

lemma calmer_refl [simp]: "calmer k sy sy"
  by (simp add: calmer_def)

lemma calmer_trans [trans]: "calmer k a b \<Longrightarrow> calmer k b c \<Longrightarrow> calmer k a c"
  by (auto simp: calmer_def)

lemma calmer_chain: "calmer k sy (fst (f sy)) \<Longrightarrow> (\<And>sy1. calmer k sy1 (fst (g sy1))) \<Longrightarrow>
    calmer k sy (fst (case f sy of (sy1, o1) \<Rightarrow> case g sy1 of (sy2, o2) \<Rightarrow> (sy2, o1 @ o2)))"
  by (auto simp: case_prod_unfold intro: calmer_trans)

lemma calmer_frame: "sy_handles sy' = sy_handles sy \<Longrightarrow> commanderListener sy' = commanderListener sy \<Longrightarrow>
    (commandingEnabled sy' \<Longrightarrow> commandingEnabled sy) \<Longrightarrow> calmer k sy sy'"
  by (auto simp: calmer_def settled_def waits_for_def sy_handle_def)

lemma calmer_put_handle:
  assumes "l = k \<Longrightarrow> set (pendingSubscriptions h) \<subseteq> waits_for k sy"
  shows "calmer k sy (sy_put_handle l h sy)"
  using assms by (auto simp: calmer_def settled_def waits_for_def)
    (simp_all add: sy_put_handle_def)

lemma calmer_onValueChanged: "calmer k sy (fst (h_onValueChanged E l sy))"
  by (auto simp: h_onValueChanged_def Let_def waits_for_def intro!: calmer_put_handle)

lemma calmer_subscribeAll: "h_subscribeAll l is pend sy = (sy', pend') \<Longrightarrow> calmer k sy sy'"
  by (rule calmer_frame) (auto dest: subscribeAll_frame)

lemma calmer_updateProvider: "l \<noteq> k \<Longrightarrow> calmer k sy (fst (updateProvider E l sy))"
proof -
  assume l: "l \<noteq> k"
  define new where "new = wanted_providers sy l"
  define sy1 where "sy1 = (if commandingEnabled sy \<and> isServicePresent (commanderListener sy) = Present
      then sy_put commanderInfo (clearValues (sy_provider commanderInfo sy)) sy else fold sy_instance new sy)"
  define h where "h = sy_handle l sy"
  define sy2 where "sy2 = h_unsubscribeAll l (myProviders h) sy1"
  obtain sy3 pend where 3: "h_subscribeAll l new [] sy2 = (sy3, pend)" by (cases "h_subscribeAll l new [] sy2")
  define sy4 where "sy4 = sy_put_handle l (h\<lparr>pendingSubscriptions := pend, myProviders := new\<rparr>) sy3"
  have new: "(if commandingEnabled sy \<and> isServicePresent (commanderListener sy) = Present then [commanderInfo]
      else sy_registry sy l) = new"
    by (simp add: new_def wanted_providers_def isServicePresent_def)
  have 1: "sy_handle l sy1 = sy_handle l sy" "calmer k sy sy1"
    by (auto simp: sy1_def intro!: calmer_frame)
  have "calmer k sy1 sy2" by (auto simp: sy2_def intro!: calmer_frame)
  also have "calmer k sy2 sy3" by (rule calmer_subscribeAll [OF 3])
  also have "calmer k sy3 sy4" using l by (auto simp: sy4_def intro!: calmer_put_handle)
  finally have c: "calmer k sy1 sy4" .
  have up: "updateProvider E l sy =
     (if subscribeCount h > 0 then (if pend = [] then h_onValueChanged E l sy4 else (sy4, []))
      else (sy_put_handle l (h\<lparr>myProviders := new\<rparr>) sy1, []))"
    unfolding updateProvider_def Let_def
    by (simp only: new sy1_def [symmetric] 1(1) h_def [symmetric] sy2_def [symmetric] 3 prod.case sy4_def [symmetric])
  have "calmer k sy1 (sy_put_handle l (h\<lparr>myProviders := new\<rparr>) sy1)" using l by (auto intro!: calmer_put_handle)
  moreover have "calmer k sy1 (fst (h_onValueChanged E l sy4))" by (rule calmer_trans [OF c calmer_onValueChanged])
  ultimately show ?thesis using c calmer_trans [OF 1(2)] by (auto simp: up)
qed

lemma calmer_instance: "calmer k sy (fst (handle_instance E l sy))"
proof (cases "map_of (sy_handles sy) l")
  case None
  define en where "en = (commandingEnabled sy \<and> en_commanding E)"
  define sy1 where "sy1 = sy_put_handle l (handle_new en) (sy\<lparr>commandingEnabled := en\<rparr>)"
  define sy2 where "sy2 = fst (sy_listener_event E (NLStart (en_busConnected E) True) sy1)"
  have eq: "fst (handle_instance E l sy) = (if en then
        (if isServicePresent (commanderListener sy2) \<noteq> Unknown then fst (updateProvider E l sy2) else sy2)
      else fst (updateProvider E l sy1))"
    unfolding handle_instance_def handle_construct_def Let_def en_def [symmetric] sy1_def [symmetric] sy2_def
    using None by (simp add: case_prod_unfold)
  show ?thesis unfolding calmer_def
  proof
    assume s: "settled k sy"
    then have l: "l \<noteq> k" using None by (auto simp: settled_def)
    have "calmer k sy (sy\<lparr>commandingEnabled := en\<rparr>)" by (rule calmer_frame) (simp_all add: en_def)
    also have "calmer k (sy\<lparr>commandingEnabled := en\<rparr>) sy1"
      using l by (auto simp: sy1_def intro!: calmer_put_handle)
    finally have 1: "calmer k sy sy1" .
    have "sy2 = sy1" if "en"
    proof -
      have "listeningStarted (commanderListener sy1)" using s that by (simp add: settled_def sy1_def en_def)
      then have "nl_step (NLStart (en_busConnected E) True) (commanderListener sy1) = (commanderListener sy1, [])"
        by (simp add: startListening_def)
      then show ?thesis by (simp add: sy2_def sy_listener_event_def)
    qed
    then have "calmer k sy (fst (handle_instance E l sy))"
      using 1 calmer_trans [OF 1 calmer_updateProvider [OF l]] by (simp add: eq)
    then show "settled k (fst (handle_instance E l sy)) \<and> waits_for k (fst (handle_instance E l sy)) \<subseteq> waits_for k sy"
      using s by (simp add: calmer_def)
  qed
qed (simp add: handle_instance_def)

lemma calmer_finished:
  "calmer k sy (setSubscribeFinished i l sy)"
  "waits_for k (setSubscribeFinished i k sy) = waits_for k sy - {i}"
  by (auto simp: setSubscribeFinished_def Let_def waits_for_def intro!: calmer_put_handle)

lemma calmer_route_step: "calmer k sy (fst (case x of SubscribeFinished l \<Rightarrow> router_onSubscribeFinished E i l sy
    | ValueChanged l \<Rightarrow> router_onValueChanged E l sy | call \<Rightarrow> (sy, [PluginCall i call])))"
proof (cases x)
  case (SubscribeFinished l)
  have "calmer k sy (setSubscribeFinished i l (fst (handle_instance E l sy)))"
    by (rule calmer_trans [OF calmer_instance calmer_finished(1)])
  then show ?thesis by (simp add: SubscribeFinished router_onSubscribeFinished_def case_prod_unfold)
next
  case (ValueChanged l)
  show ?thesis unfolding ValueChanged provider_out.case router_onValueChanged_def
    by (rule calmer_chain [OF calmer_instance calmer_onValueChanged])
qed simp_all

lemma calmer_route: "calmer k sy (fst (sy_route E i os sy))"
proof (induction os arbitrary: sy)
  case (Cons x xs)
  show ?case unfolding sy_route.simps by (rule calmer_chain [OF calmer_route_step Cons.IH])
qed simp

lemma route_finished:
  "settled k sy \<Longrightarrow> SubscribeFinished k \<in> set os \<Longrightarrow> i \<notin> waits_for k (fst (sy_route E i os sy))"
proof (induction os arbitrary: sy)
  case (Cons x xs)
  define sy1 where "sy1 = fst (case x of SubscribeFinished l \<Rightarrow> router_onSubscribeFinished E i l sy
    | ValueChanged l \<Rightarrow> router_onValueChanged E l sy | call \<Rightarrow> (sy, [PluginCall i call]))"
  have eq: "fst (sy_route E i (x # xs) sy) = fst (sy_route E i xs sy1)"
    by (simp add: sy1_def case_prod_unfold)
  have 1: "settled k sy1" using Cons.prems(1) calmer_route_step [where k = k and sy = sy and x = x and E = E and i = i] by (simp add: sy1_def calmer_def)
  show ?case
  proof (cases "x = SubscribeFinished k")
    case True
    then have "sy1 = setSubscribeFinished i k (fst (handle_instance E k sy))"
      by (simp add: sy1_def router_onSubscribeFinished_def case_prod_unfold)
    then have "i \<notin> waits_for k sy1" by (simp add: calmer_finished(2))
    then show ?thesis unfolding eq using 1 calmer_route [of k sy1 E i xs] by (auto simp: calmer_def)
  next
    case False
    then show ?thesis unfolding eq using Cons.IH [OF 1] Cons.prems(2) by simp
  qed
qed simp

lemma calmer_provider_op: "calmer k sy (fst (sy_provider_op E i f sy))"
proof -
  obtain p os where p: "f (sy_provider i sy) = (p, os)" by (cases "f (sy_provider i sy)")
  have "calmer k sy (sy_put i p sy)" by (rule calmer_frame) simp_all
  then show ?thesis using calmer_trans [OF _ calmer_route] by (simp add: sy_provider_op_def p)
qed

lemma calmer_blockAll: "calmer k sy (fst (h_blockAll E react l is sy))"
proof (induction "is" arbitrary: sy)
  case (Cons i "is")
  show ?case unfolding h_blockAll.simps by (rule calmer_chain [OF calmer_provider_op Cons.IH])
qed simp

lemma calmer_h_subscribe:
  assumes "subscribeCount (sy_handle k sy) \<noteq> 0"
  shows "calmer k sy (h_subscribe l sy)"
proof -
  obtain sy1 pend where 1: "h_subscribeAll l (myProviders (sy_handle l sy)) [] sy = (sy1, pend)"
    by (cases "h_subscribeAll l (myProviders (sy_handle l sy)) [] sy")
  show ?thesis
  proof (cases "l = k")
    case True
    then have "subscribeCount (sy_handle l sy) + 1 \<noteq> 1" using assms by simp
    then show ?thesis by (auto simp: h_subscribe_def Let_def waits_for_def True intro!: calmer_put_handle)
  next
    case False
    have "calmer k sy (sy_put_handle l h sy1)" for h
      by (rule calmer_trans [OF calmer_subscribeAll [OF 1] calmer_put_handle]) (use False in simp)
    moreover have "calmer k sy (sy_put_handle l h sy)" for h by (rule calmer_put_handle) (use False in simp)
    ultimately show ?thesis by (simp add: h_subscribe_def Let_def 1)
  qed
qed

lemma calmer_h_unsubscribe: "calmer k sy (h_unsubscribe l sy)"
proof -
  have 1: "calmer k sy (h_unsubscribeAll l is sy)" for "is" by (rule calmer_frame) simp_all
  show ?thesis unfolding h_unsubscribe_def Let_def
    by (auto simp: waits_for_def intro!: calmer_put_handle calmer_trans [OF 1 calmer_put_handle])
qed

lemma calmer_cp_put: "calmer k sy (cp_put n c sy)"
  by (rule calmer_frame) (simp_all add: cp_put_def)

section \<open>A steady step\<close>

definition holds :: "nat \<Rightarrow> key \<Rightarrow> sys \<Rightarrow> bool" where
  "holds n k sy = (n < length (sy_props sy) \<and> cp_subscribed (sy_props sy ! n) \<and> cp_key (sy_props sy ! n) = k)"

lemma nth_update_any: "n < length xs \<Longrightarrow> xs[m := v] ! n = (if m = n then v else xs ! n)"
  by (cases "m < length xs") (simp_all add: nth_list_update)

lemma holds_count: "sys_ok sy \<Longrightarrow> holds n k sy \<Longrightarrow> subscribeCount (sy_handle k sy) \<noteq> 0"
  using count_used by (auto simp: holds_def)

lemma holds_props: "holds n k sy \<Longrightarrow> sy_props sy' = sy_props sy \<Longrightarrow> holds n k sy'"
  by (simp add: holds_def)

lemma calmer_cp_subscribe: "sys_ok sy \<Longrightarrow> holds n k sy \<Longrightarrow> calmer k sy (cp_subscribe m sy) \<and> holds n k (cp_subscribe m sy)"
  using calmer_trans [OF calmer_h_subscribe calmer_cp_put] holds_count [of sy n k]
  by (auto simp: cp_subscribe_def Let_def holds_def cp_put_def h_subscribe_frame nth_update_any)

lemma calmer_cp_unsubscribe:
  "m \<noteq> n \<Longrightarrow> holds n k sy \<Longrightarrow> calmer k sy (cp_unsubscribe m sy) \<and> holds n k (cp_unsubscribe m sy)"
  using calmer_trans [OF calmer_h_unsubscribe calmer_cp_put]
  by (auto simp: cp_unsubscribe_def Let_def holds_def cp_put_def h_unsubscribe_frame nth_update_any)

lemma calmer_cp_new:
  assumes "sys_ok sy" and "holds n k sy"
  shows "calmer k sy (fst (cp_new E l sy)) \<and> holds n k (fst (cp_new E l sy))"
proof -
  define sy1 where "sy1 = fst (handle_instance E l sy)"
  define sy2 where "sy2 = sy1\<lparr>sy_props := sy_props sy1 @ [\<lparr>cp_key = l, cp_subscribed = False, cp_value = VInvalid\<rparr>]\<rparr>"
  have 1: "sys_ok sy1" "sy_props sy1 = sy_props sy"
    using handle_instance_ok [OF assms(1), of E l] by (simp_all add: sy1_def ok_from_def)
  have "sys_ok sy2" using 1(1)
    by (simp add: sys_ok_def sy2_def prop_count_def sy_handle_def subs_def sy_provider_def)
  moreover have "holds n k sy2" using assms(2) 1(2) by (simp add: holds_def sy2_def nth_append)
  moreover have "calmer k sy sy2"
    unfolding sy1_def sy2_def by (rule calmer_trans [OF calmer_instance calmer_frame]) simp_all
  moreover have "fst (cp_new E l sy) = cp_subscribe (length (sy_props sy1)) sy2"
    by (simp add: cp_new_def case_prod_unfold sy1_def sy2_def)
  ultimately show ?thesis using calmer_cp_subscribe [of sy2 n k "length (sy_props sy1)"] calmer_trans by metis
qed

lemma steady_step:
  assumes ok: "sys_ok sy" and h: "holds n k sy" and e: "steady n k e"
  shows "calmer k sy (fst (sy_step E e sy)) \<and> holds n k (fst (sy_step E e sy))"
proof (cases e)
  case (SYNotify m)
  have "holds n k (cp_put m ((sy_props sy ! m)\<lparr>cp_value := v\<rparr>) sy)" for v
    using h by (auto simp: holds_def cp_put_def nth_update_any)
  then show ?thesis using SYNotify h by (auto simp: cp_onValueChanged_def Let_def intro: calmer_cp_put)
next
  case (SYWaitBlocking react m)
  then show ?thesis using h blockAll_ok [OF ok] calmer_blockAll
    by (auto simp: cp_waitBlocking_def h_blockUntilSubscribed_def ok_from_def intro: holds_props)
next
  case (SYLoop i)
  then show ?thesis using h provider_op_ok [OF ok subscribedKeys_loop] calmer_provider_op
    by (auto simp: ok_from_def intro: holds_props)
next
  case (SYPlugin i sg)
  then show ?thesis using h provider_op_ok [OF ok subscribedKeys_plugin] calmer_provider_op
    by (auto simp: ok_from_def intro: holds_props)
next
  case (SYRegistry l infos)
  define sy1 where "sy1 = sy\<lparr>sy_registry := (sy_registry sy)(l := infos)\<rparr>"
  have "sys_ok sy1" using ok by (simp add: sy1_def sys_ok_def subs_def sy_handle_def sy_provider_def prop_count_def)
  then have "holds n k (fst (updateProvider E l sy1))" "holds n k sy1"
    using h updateProvider_ok [of sy1 E l] by (auto simp: ok_from_def sy1_def holds_def)
  moreover have "calmer k sy sy1" by (rule calmer_frame) (simp_all add: sy1_def)
  ultimately show ?thesis using SYRegistry e calmer_trans [OF _ calmer_updateProvider, of k sy sy1 l E]
    by (auto simp: Let_def sy1_def)
next
  case SYIgnoreCommander
  have "calmer k sy (ignoreCommander sy)" by (rule calmer_frame) (simp_all add: ignoreCommander_def)
  then show ?thesis using h by (simp add: SYIgnoreCommander holds_def ignoreCommander_def)
next
  case (SYTypeCheck b)
  have "calmer k sy (setTypeCheck b sy)" by (rule calmer_frame) (simp_all add: setTypeCheck_def)
  then show ?thesis using h by (simp add: SYTypeCheck holds_def setTypeCheck_def)
qed (use h e ok calmer_cp_new calmer_cp_subscribe calmer_cp_unsubscribe in auto)

section \<open>The wait ends\<close>

text \<open>The plugin of provider \<open>i\<close>, which is loaded, answers the subscription of \<open>k\<close> in the run.\<close>

fun answered :: "sys_env \<Rightarrow> key \<Rightarrow> provider_info \<Rightarrow> sy_event list \<Rightarrow> sys \<Rightarrow> bool" where
  "answered E k i [] sy = False"
| "answered E k i (e # es) sy = ((case e of SYPlugin j sg \<Rightarrow>
       j = i \<and> answers k sg \<and> map_of (sy_providers sy) i \<noteq> None \<and> pr_plugin (sy_provider i sy)
     | _ \<Rightarrow> False) \<or> answered E k i es (fst (sy_step E e sy)))"

lemma answers_finished:
  "answers k sg \<Longrightarrow> k \<in> set (subscribedKeys p) \<Longrightarrow> SubscribeFinished k \<in> set (snd (pr_on_plugin sg p))"
  by (cases sg) (auto simp: provider_defs split: prod.splits)

lemma plugin_answer:
  assumes ok: "sys_ok sy" and h: "holds n k sy" and s: "settled k sy" and a: "answers k sg"
    and i: "map_of (sy_providers sy) i \<noteq> None" "pr_plugin (sy_provider i sy)"
  shows "i \<notin> waits_for k (fst (sy_step E (SYPlugin i sg) sy))"
proof -
  obtain p os where p: "pr_on_plugin sg (sy_provider i sy) = (p, os)" by (cases "pr_on_plugin sg (sy_provider i sy)")
  have eq: "fst (sy_step E (SYPlugin i sg) sy) = fst (sy_route E i os (sy_put i p sy))"
    using i by (auto simp: sy_provider_op_def p)
  have put: "settled k (sy_put i p sy)" "waits_for k (sy_put i p sy) = waits_for k sy"
    using s by (simp_all add: settled_def waits_for_def)
  show ?thesis
  proof (cases "k \<in> set (subscribedKeys (sy_provider i sy))")
    case True
    then have "SubscribeFinished k \<in> set os" using answers_finished [OF a] p by fastforce
    then show ?thesis unfolding eq by (rule route_finished [OF put(1)])
  next
    case False
    then have "i \<notin> waits_for k sy"
      using ok holds_count [OF ok h] by (auto simp: sys_ok_def waits_for_def subs_def)
    then show ?thesis unfolding eq using put calmer_route [of k "sy_put i p sy" E i os] by (auto simp: calmer_def)
  qed
qed

lemma wait_shrinks:
  assumes "sys_ok sy" and "holds n k sy" and "settled k sy" and "list_all (steady n k) es"
    and "length (sy_props sy) + length (filter is_new es) < 2 ^ 32"
  shows "settled k (fst (ev_run (sy_step E) es sy)) \<and> holds n k (fst (ev_run (sy_step E) es sy)) \<and>
    waits_for k (fst (ev_run (sy_step E) es sy)) \<subseteq> {i \<in> waits_for k sy. \<not> answered E k i es sy}"
  using assms
proof (induction es arbitrary: sy)
  case (Cons e es)
  let ?sy1 = "fst (sy_step E e sy)"
  have st: "calmer k sy ?sy1" "holds n k ?sy1" using steady_step [OF Cons.prems(1,2), of e E] Cons.prems(4) by simp_all
  have len: "length (sy_props ?sy1) + length (filter is_new es) < 2 ^ 32"
    using sy_step_grow [OF Cons.prems(1), of E e] Cons.prems(5) by (cases "is_new e") simp_all
  then have ok: "sys_ok ?sy1" by (intro sy_step_ok Cons.prems(1)) linarith
  have s: "settled k ?sy1" "waits_for k ?sy1 \<subseteq> waits_for k sy" using st(1) Cons.prems(3) by (simp_all add: calmer_def)
  have ans: "i \<notin> waits_for k ?sy1" if "answered E k i (e # es) sy" "\<not> answered E k i es ?sy1" for i
    using that plugin_answer [OF Cons.prems(1-3)] by (auto split: sy_event.splits simp del: sy_step.simps)
  have "settled k (fst (ev_run (sy_step E) es ?sy1)) \<and> holds n k (fst (ev_run (sy_step E) es ?sy1)) \<and>
    waits_for k (fst (ev_run (sy_step E) es ?sy1)) \<subseteq> {i \<in> waits_for k ?sy1. \<not> answered E k i es ?sy1}"
    by (rule Cons.IH [OF ok st(2) s(1) _ len]) (use Cons.prems(4) in simp)
  then show ?case using s(2) ans by (auto simp: case_prod_unfold simp del: sy_step.simps answered.simps)
qed simp

text \<open>C9: waiting for a subscription ends. In every state the library can reach in which the
  commander's presence is known, take a subscribed property and let the event loop go on with any
  steady events: anything but giving up this property, changing the providers of its key, or the
  commander coming or going. The handle then waits only for providers it waited for before and
  whose plugins have not answered, whatever happens to other keys; so once the plugin of each of
  them has answered, with a value, without one or with a failure, the wait is over.\<close>

theorem wait_ends:
  assumes "length (filter is_new (es0 @ es)) < 2 ^ 32"
    and "sy = fst (ev_run (sy_step E) es0 (sys_new registry))"
    and "n < length (sy_props sy)" and "cp_subscribed (sy_props sy ! n)" and "k = cp_key (sy_props sy ! n)"
    and "commandingEnabled sy \<Longrightarrow> isServicePresent (commanderListener sy) \<noteq> Unknown \<and> listeningStarted (commanderListener sy)"
    and "list_all (steady n k) es"
    and "sy' = fst (ev_run (sy_step E) es sy)"
  shows "waits_for k sy' \<subseteq> {i \<in> waits_for k sy. \<not> answered E k i es sy} \<and>
    ((\<forall>i \<in> waits_for k sy. answered E k i es sy) \<longrightarrow> \<not> cp_waits n sy')"
proof -
  have len0: "length (sy_props (sys_new registry)) = 0" by (simp add: sys_new_def)
  have ok: "sys_ok sy" unfolding assms(2)
    by (rule sys_run_ok [OF sys_new_ok]) (use assms(1) len0 in simp)
  have grow: "length (sy_props (fst (ev_run (sy_step E) xs s))) = length (sy_props s) + length (filter is_new xs)"
    if "sys_ok s" "length (sy_props s) + length (filter is_new xs) < 2 ^ 32" for xs s
    using that
  proof (induction xs arbitrary: s)
    case (Cons x xs)
    have g: "length (sy_props (fst (sy_step E x s))) = length (sy_props s) + (if is_new x then 1 else 0)"
      by (rule sy_step_grow [OF Cons.prems(1)])
    then have "length (sy_props (fst (sy_step E x s))) + length (filter is_new xs) < 2 ^ 32"
      using Cons.prems(2) by (cases "is_new x") simp_all
    moreover from this have "sys_ok (fst (sy_step E x s))" by (intro sy_step_ok Cons.prems(1)) linarith
    ultimately show ?case using Cons.IH [of "fst (sy_step E x s)"] g by (auto simp: case_prod_unfold simp del: sy_step.simps)
  qed simp
  have "length (sy_props sy) = length (filter is_new es0)"
    unfolding assms(2) using grow [OF sys_new_ok, of registry es0] assms(1) len0 by simp
  then have len: "length (sy_props sy) + length (filter is_new es) < 2 ^ 32" using assms(1) by simp
  have h: "holds n k sy" using assms(3-5) by (simp add: holds_def)
  have "map_of (sy_handles sy) k \<noteq> None"
    using holds_count [OF ok h] by (auto simp: sy_handle_def handle_new_def split: option.splits)
  then have s: "settled k sy" using assms(6) by (simp add: settled_def)
  note w = wait_shrinks [OF ok h s assms(7) len, of E, folded assms(8)]
  have "\<not> cp_waits n sy'" if "\<forall>i \<in> waits_for k sy. answered E k i es sy"
  proof -
    have "waits_for k sy' = {}" using w that by blast
    then have "pendingSubscriptions (sy_handle k sy') = []" by (simp add: waits_for_def)
    then show ?thesis using w by (auto simp: cp_waits_def h_isSubscribePending_def holds_def settled_def)
  qed
  then show ?thesis using w by blast
qed

lemma wait_ends_witness:
  "cp_waits 0 sample_sys \<and>
   \<not> cp_waits 0 (fst (ev_run (sy_step sample_env) [SYLoop lib_info, SYPlugin lib_info (SigSubscribeFinished ''A.b'')] sample_sys))"
proof
  show "cp_waits 0 sample_sys"
    by (simp add: sample_access cp_waits_def h_isSubscribePending_def)
  let ?es = "[SYLoop lib_info, SYPlugin lib_info (SigSubscribeFinished ''A.b'')]"
  have loop: "fst (sy_step sample_env (SYLoop lib_info) sample_sys) = sample_sys"
    by (simp add: sample_access sy_provider_op_def pr_loop_def onQueuedCall_def sy_put_def)
  have "answered sample_env ''A.b'' lib_info ?es sample_sys"
    unfolding answered.simps loop by (simp add: sample_access)
  moreover have "waits_for ''A.b'' sample_sys = {lib_info}" by (simp add: waits_for_def sample_access)
  moreover have "length (filter is_new (sample_events @ ?es)) < 2 ^ 32" by (simp add: sample_events_def)
  moreover have "\<not> commandingEnabled sample_sys" by (simp add: sample_access)
  ultimately show "\<not> cp_waits 0 (fst (ev_run (sy_step sample_env) ?es sample_sys))"
    using wait_ends [where es = ?es and n = 0, OF _ sample_sys_def _ _ refl _ _ refl] sample_sys_facts by simp
qed

end
