(* ===== verification/Plugin_Bus.thy ===== *)
theory Plugin_Bus
  imports Dbus_Plugin
begin

text \<open>
  The last link of a subscription (contextkitplugin.cpp): the provider tells the plugin to
  subscribe and unsubscribe keys, and the plugin calls \<open>Subscribe\<close> and \<open>Unsubscribe\<close> on
  D-Bus objects, the former from a queued call. \<open>bus_of\<close> follows what the process behind the
  bus name has been asked for, which is lost when that process leaves the bus; \<open>told_of\<close>
  follows the requests of the provider.
\<close>

fun bus_out :: "string set \<Rightarrow> plugin_out \<Rightarrow> string set" where
  "bus_out B (WSubscribe path) = insert path B"
| "bus_out B (WUnsubscribe path) = B - {path}"
| "bus_out B _ = B"

fun leaves_bus :: "dp_event \<Rightarrow> bool" where
  "leaves_bus (DPName NLUnregistered _) = True"
| "leaves_bus _ = False"

fun told_of :: "dp_event \<Rightarrow> key set \<Rightarrow> key set" where
  "told_of (DPSubscribe _ ks) T = T \<union> set ks"
| "told_of (DPUnsubscribe _ ks) T = T - set ks"
| "told_of e T = (if leaves_bus e then {} else T)"

definition bus_of :: "unhooker \<Rightarrow> dp_event \<Rightarrow> dbus_plugin \<Rightarrow> string set \<Rightarrow> string set" where
  "bus_of U e p B = foldl bus_out (if leaves_bus e then {} else B) (snd (dp_step U e p))"

text \<open>A run of the plugin with what it was told and what it has asked for on the bus.\<close>

fun pb_run :: "unhooker \<Rightarrow> dp_event list \<Rightarrow> dbus_plugin \<times> key set \<times> string set \<Rightarrow> dbus_plugin \<times> key set \<times> string set" where
  "pb_run U [] s = s"
| "pb_run U (e # es) (p, T, B) = pb_run U es (fst (dp_step U e p), told_of e T, bus_of U e p B)"

text \<open>The provider does not take back a request while the plugin still has it queued, and no request
  is queued when the process leaves.\<close>

fun orderly :: "unhooker \<Rightarrow> dp_event list \<Rightarrow> dbus_plugin \<Rightarrow> bool" where
  "orderly U [] p = True"
| "orderly U (e # es) p = ((case e of DPUnsubscribe _ ks \<Rightarrow> set ks \<inter> set (pendingKeys p) = {}
      | _ \<Rightarrow> leaves_bus e \<longrightarrow> pendingKeys p = []) \<and> orderly U es (fst (dp_step U e p)))"

fun event_keys :: "dp_event \<Rightarrow> key set" where
  "event_keys (DPSubscribe _ ks) = set ks"
| "event_keys (DPUnsubscribe _ ks) = set ks"
| "event_keys _ = {}"

section \<open>The invariant\<close>

definition queued_ok :: "dbus_plugin \<Rightarrow> bool" where
  "queued_ok p = (newProtocol p \<and> defaultNewProtocol p \<and>
     (\<forall>k \<in> set (pendingKeys p). PostNewSubscribe k \<in> set (dp_posted p)))"

definition pb_ok :: "dbus_plugin \<times> key set \<times> string set \<Rightarrow> bool" where
  "pb_ok s = (case s of (p, T, B) \<Rightarrow> queued_ok p \<and> set (pendingKeys p) \<subseteq> T \<and>
     keyToPath ` (T - set (pendingKeys p)) \<subseteq> B \<and> B \<subseteq> keyToPath ` T)"

text \<open>Steps that leave the queued keys and the bus alone.\<close>

definition silent :: "dbus_plugin \<Rightarrow> dp_result \<Rightarrow> bool" where
  "silent p r = (pendingKeys (fst r) = pendingKeys p \<and>
     (\<forall>k. PostNewSubscribe k \<in> set (dp_posted p) \<longrightarrow> PostNewSubscribe k \<in> set (dp_posted (fst r))) \<and>
     (\<forall>B. foldl bus_out B (snd r) = B))"

lemmas silent_defs = silent_def onDBusGetSubscriberFailed_def useNewProtocol_def dp_reset_def Let_def

lemma silent_failed: "silent p (onDBusGetSubscriberFailed U b p)"
  by (simp add: silent_defs)

lemma silent_appeared: "silent p (onProviderAppeared U c p)"
  by (cases c) (simp_all add: onProviderAppeared_def silent_defs)

lemma silent_on_name: "silent p (dp_on_name U c os p)"
proof (induction U c os p rule: dp_on_name.induct)
  case (3 U c os p)
  then show ?case by (simp add: onProviderDisappeared_def silent_defs)
qed (simp_all add: silent_appeared, simp add: silent_def)

lemma bus_out_id: "(\<And>x B. x \<in> set os \<Longrightarrow> bus_out B x = B) \<Longrightarrow> foldl bus_out B os = B"
  by (induction os) simp_all

lemma bus_from_si: "foldl bus_out B (concat (map dp_from_si os)) = B"
proof (rule bus_out_id)
  fix x B assume "x \<in> set (concat (map dp_from_si os))"
  then obtain y where "x \<in> set (dp_from_si y)" by auto
  then show "bus_out B x = B"
    by (cases y) (auto simp: onDBusSubscribeFinished_def onDBusSubscribeFailed_def onDBusValuesChanged_def)
qed

lemma silent_ok: "pb_ok (p, T, B) \<Longrightarrow> silent p (dp_step U e p) \<Longrightarrow> \<not> leaves_bus e \<Longrightarrow> told_of e T = T \<Longrightarrow>
    pb_ok (fst (dp_step U e p), told_of e T, bus_of U e p B)"
  using new_only_step [of p U e] by (auto simp: pb_ok_def queued_ok_def silent_def bus_of_def new_only_def)

lemma newSubscribe_bus:
  assumes "pb_ok (p, T, B)" and "k \<in> set (pendingKeys p)"
  shows "pb_ok (fst (newSubscribe k p), T, foldl bus_out B (snd (newSubscribe k p)))"
  using assms by (auto simp: pb_ok_def queued_ok_def newSubscribe_def Let_def)

lemma forcePending_bus: "pb_ok (p, T, B) \<Longrightarrow>
    pb_ok (fst (dp_forcePending p), T, foldl bus_out B (snd (dp_forcePending p)))"
proof (induction p arbitrary: B rule: dp_forcePending.induct)
  case (1 p)
  show ?case
  proof (cases "newProtocol p \<and> length (pendingKeys p) > 0")
    case True
    let ?r = "newSubscribe (hd (pendingKeys p)) p"
    have "pb_ok (fst ?r, T, foldl bus_out B (snd ?r))" using "1.prems" True by (intro newSubscribe_bus) auto
    from "1.IH" [OF True prod.collapse this] True show ?thesis
      by (simp add: dp_forcePending.simps [of p] case_prod_unfold)
  next
    case False
    show ?thesis
      using "1.prems" by (subst (1 2) dp_forcePending.simps, subst (1 2) if_not_P [OF False]) simp
  qed
qed

lemma subscribe_fold:
  "foldl (\<lambda>q key. q\<lparr>pendingKeys := qset_insert key (pendingKeys q), dp_posted := dp_posted q @ [PostNewSubscribe key]\<rparr>) p ks = q \<Longrightarrow>
    set (pendingKeys q) = set (pendingKeys p) \<union> set ks \<and> set (dp_posted q) = set (dp_posted p) \<union> PostNewSubscribe ` set ks \<and>
    newProtocol q = newProtocol p \<and> defaultNewProtocol q = defaultNewProtocol p"
  by (induction ks arbitrary: p) auto

lemma unsubscribe_bus: "foldl bus_out B (snd (dp_unsubscribe_new ks p)) = B - keyToPath ` set ks \<and>
    pendingKeys (fst (dp_unsubscribe_new ks p)) = pendingKeys p \<and> dp_posted (fst (dp_unsubscribe_new ks p)) = dp_posted p"
  by (induction ks arbitrary: p B) (auto simp: Let_def case_prod_unfold)

lemma pb_step:
  assumes ok: "pb_ok (p, T, B)" and K: "T \<union> event_keys e \<subseteq> K" and inj: "inj_on keyToPath K"
    and ord: "orderly U (e # es) p"
  shows "pb_ok (fst (dp_step U e p), told_of e T, bus_of U e p B) \<and> told_of e T \<subseteq> K"
proof -
  have q: "newProtocol p" "defaultNewProtocol p" "\<And>k. k \<in> set (pendingKeys p) \<Longrightarrow> PostNewSubscribe k \<in> set (dp_posted p)"
    using ok by (simp_all add: pb_ok_def queued_ok_def)
  have "pb_ok (fst (dp_step U e p), told_of e T, bus_of U e p B)"
  proof (cases e)
    case (DPPosted c)
    show ?thesis
    proof (cases "dp_posted p")
      case Nil
      then show ?thesis using ok by (simp add: DPPosted bus_of_def)
    next
      case (Cons x r)
      show ?thesis
      proof (cases x)
        case PostProviderAppeared
        have "silent p (dp_step U e p)"
          using silent_appeared [of "p\<lparr>dp_posted := r\<rparr>" U c] Cons PostProviderAppeared
          by (simp add: DPPosted silent_def)
        then show ?thesis by (rule silent_ok [OF ok]) (simp_all add: DPPosted)
      next
        case (PostNewSubscribe k)
        then show ?thesis using ok Cons
          by (cases "k \<in> set (pendingKeys p)")
            (auto simp: DPPosted bus_of_def newSubscribe_def Let_def pb_ok_def queued_ok_def)
      qed
    qed
  next
    case (DPName n c)
    obtain l os where l: "nl_step n (providerListener p) = (l, os)" by (cases "nl_step n (providerListener p)")
    have s: "silent p (dp_step U e p)"
      using silent_on_name [of "p\<lparr>providerListener := l\<rparr>" U c os] by (simp add: DPName l silent_def)
    show ?thesis
    proof (cases "leaves_bus e")
      case True
      then have "pendingKeys p = []" using ord by (simp add: DPName)
      then show ?thesis using True s new_only_step [OF q(2,1), of U e]
        by (auto simp: DPName pb_ok_def queued_ok_def silent_def bus_of_def new_only_def)
    qed (use silent_ok [OF ok s] in \<open>simp add: DPName\<close>)
  next
    case (DPSubscribe v ks)
    then show ?thesis using ok q(1) subscribe_fold [OF refl, of p ks]
      by (auto simp: bus_of_def dp_subscribe_def pb_ok_def queued_ok_def)
  next
    case (DPUnsubscribe v ks)
    have dis: "set ks \<inter> set (pendingKeys p) = {}" using ord by (simp add: DPUnsubscribe)
    have im: "keyToPath ` (T - set ks - set (pendingKeys p)) = keyToPath ` (T - set (pendingKeys p)) - keyToPath ` set ks"
    proof -
      have "T - set ks - set (pendingKeys p) = (T - set (pendingKeys p)) - set ks" by blast
      moreover have "keyToPath ` ((T - set (pendingKeys p)) - set ks) = keyToPath ` (T - set (pendingKeys p)) - keyToPath ` set ks"
        using K DPUnsubscribe by (intro inj_on_image_set_diff [OF inj]) auto
      ultimately show ?thesis by simp
    qed
    have r: "dp_step U e p = dp_unsubscribe_new ks p" using q(1) by (simp add: DPUnsubscribe dp_unsubscribe_def)
    have "new_only (dp_unsubscribe_new ks p)" by (rule new_only_unsubscribe [OF q(2,1)])
    moreover have "x \<in> keyToPath ` (T - set ks)" if "x \<in> keyToPath ` T" "x \<notin> keyToPath ` set ks" for x
      using that by blast
    ultimately show ?thesis using ok unsubscribe_bus [of B ks p] im dis
      unfolding r bus_of_def pb_ok_def by (auto simp: DPUnsubscribe queued_ok_def new_only_def)
  next
    case (DPReply k x)
    have "silent p (dp_step U e p)"
      by (cases x) (auto simp: DPReply psw_onFinished_def silent_def removePendingWatcher_def)
    then show ?thesis by (rule silent_ok [OF ok]) (simp_all add: DPReply)
  next
    case (DPValue v t path)
    have "silent p (dp_step U e p)"
      by (auto simp: DPValue onNewValueChanged_def silent_def split: option.splits)
    then show ?thesis by (rule silent_ok [OF ok]) (simp_all add: DPValue)
  next
    case (DPBlockSubscribed k)
    then show ?thesis using forcePending_bus [OF ok]
      by (auto simp: bus_of_def dp_blockUntilSubscribed_def case_prod_unfold)
  next
    case (DPGotSubscriber path)
    have "silent p (dp_step U e p)" by (simp add: DPGotSubscriber onDBusGetSubscriberFinished_def silent_def)
    then show ?thesis by (rule silent_ok [OF ok]) (simp_all add: DPGotSubscriber)
  next
    case (DPNoSubscriber b)
    have "silent p (dp_step U e p)" by (simp add: DPNoSubscriber silent_failed)
    then show ?thesis by (rule silent_ok [OF ok]) (simp_all add: DPNoSubscriber)
  next
    case (DPBlockReady c)
    have "silent p (dp_step U e p)" by (simp add: DPBlockReady dp_blockUntilReady_def silent_appeared)
    then show ?thesis by (rule silent_ok [OF ok]) (simp_all add: DPBlockReady)
  next
    case (DPOldReply req x)
    have "silent p (dp_step U e p)" by (simp add: DPOldReply silent_def bus_from_si)
    then show ?thesis by (rule silent_ok [OF ok]) (simp_all add: DPOldReply)
  next
    case (DPChanged vs ns)
    have "silent p (dp_step U e p)" by (simp add: DPChanged silent_def bus_from_si)
    then show ?thesis by (rule silent_ok [OF ok]) (simp_all add: DPChanged)
  qed
  moreover have "told_of e T \<subseteq> K" using K by (cases e) auto
  ultimately show ?thesis ..
qed

lemma pb_run_ok:
  "pb_ok (p, T, B) \<Longrightarrow> T \<union> \<Union> (event_keys ` set es) \<subseteq> K \<Longrightarrow> inj_on keyToPath K \<Longrightarrow> orderly U es p \<Longrightarrow>
    pb_ok (pb_run U es (p, T, B))"
proof (induction es arbitrary: p T B)
  case (Cons e es)
  have "T \<union> event_keys e \<subseteq> K" using Cons.prems(2) by auto
  note st = pb_step [OF Cons.prems(1) this Cons.prems(3,4)]
  have "pb_ok (pb_run U es (fst (dp_step U e p), told_of e T, bus_of U e p B))"
    by (rule Cons.IH) (use st Cons.prems(2-4) in auto)
  then show ?case by simp
qed simp

text \<open>C8: the bus follows the plugin. Take any run of a new D-Bus plugin that was not told to start
  with the old protocol: its name appears and leaves, keys are subscribed and unsubscribed, replies,
  values and errors arrive, queued calls run and waits force them early. If no two of the keys have
  one object path and no request is taken back while it is queued, the process behind the bus name
  has been asked for no object but those of the keys the provider wants, lacks only the queued ones,
  and has been asked for exactly those once nothing is queued.\<close>

theorem bus_follows_plugin:
  assumes "inj_on keyToPath (\<Union> (event_keys ` set es))" and "orderly U es (dp_new U bus busName)"
    and "(p, T, B) = pb_run U es (dp_new U bus busName, {}, {})"
  shows "keyToPath ` (T - set (pendingKeys p)) \<subseteq> B \<and> B \<subseteq> keyToPath ` T \<and> set (pendingKeys p) \<subseteq> T \<and>
    (dp_posted p = [] \<longrightarrow> B = keyToPath ` T)"
proof -
  have "pb_ok (dp_new U bus busName, {}, {})"
    by (simp add: pb_ok_def queued_ok_def dp_new_def dp_reset_def Let_def)
  then have "pb_ok (p, T, B)" unfolding assms(3) by (rule pb_run_ok [OF _ _ assms(1,2)]) simp
  then show ?thesis by (auto simp: pb_ok_def queued_ok_def)
qed

definition bus_events :: "dp_event list" where
  "bus_events = [DPPosted None, DPSubscribe True [''A.b'', ''C.d''], DPPosted None, DPPosted None,
     DPUnsubscribe True [''A.b'']]"

lemma bus_follows_plugin_witness:
  "snd (snd (pb_run id bus_events (dp_new id SessionBus ''org.x'', {}, {}))) = {keyToPath ''C.d''}"
proof -
  have i: "inj_on keyToPath (\<Union> (event_keys ` set bus_events))"
  proof -
    have "keyToPath ''A.b'' \<noteq> keyToPath ''C.d''" by code_simp
    then show ?thesis by (simp add: bus_events_def inj_on_def)
  qed
  have o: "orderly id bus_events (dp_new id SessionBus ''org.x'')" by code_simp
  obtain p T B where r: "(p, T, B) = pb_run id bus_events (dp_new id SessionBus ''org.x'', {}, {})"
    by (metis prod.exhaust)
  have "dp_posted (fst (pb_run id bus_events (dp_new id SessionBus ''org.x'', {}, {}))) = []" by code_simp
  then have "dp_posted p = []" using r by (metis fst_conv)
  moreover have "T = {''C.d''}"
  proof -
    have "fst (snd (pb_run id bus_events (dp_new id SessionBus ''org.x'', {}, {}))) = {''C.d''}"
      by (simp add: bus_events_def)
    then show ?thesis using r by (metis fst_conv snd_conv)
  qed
  ultimately show ?thesis using bus_follows_plugin [OF i o r] r by (metis image_insert image_empty snd_conv)
qed

text \<open>Unsubscribing does not withdraw a request that is still queued: the plugin asks the provider to
  end the subscription first and to begin it afterwards, so that it stays.\<close>

lemma unsubscribe_overtaken:
  "snd (ev_run (dp_step id) [DPPosted None, DPSubscribe True [k], DPUnsubscribe True [k], DPPosted None]
     (dp_new id SessionBus busName)) = [Ready, WUnsubscribe (keyToPath k), WSubscribe (keyToPath k)]"
  by (simp add: dp_new_def dp_reset_def Let_def onProviderAppeared_def useNewProtocol_def isServicePresent_def
      nl_of_connection_def startListening_def dp_subscribe_def dp_unsubscribe_def newSubscribe_def)

end
