(* ===== verification/Commander.thy ===== *)
theory Commander
  imports Property_Group Nano_Xml Property_Info Command_Reader
begin

text \<open>
  The \<open>context-provide\<close> tool (context-provide/commandwatcher.cpp, propertyproxy.cpp,
  context-provide.cpp): provides the keys the user adds, and as the commander also a proxy for
  every provided key of the registry, through which a client sees the real value unless the user
  has overridden it. \<open>Property\<close> objects of one key share the property of the backend.
  \<open>cm_env\<close> holds what is outside: D-Bus, the clock, the JSON and XML parsers, the type registry,
  the property registry and how \<open>QDebug\<close> prints a variant. Messages on the debug stream are
  left out.
\<close>

record proxy =
  px_enabled :: bool
  px_value :: qvariant
  px_subscribed :: bool

record commander =
  cm_busName :: string
  cm_busType :: bus_type
  cm_started :: bool
  cm_backend :: backend
  cm_types :: "(key \<times> type_info) list"
  cm_props :: "key list"
  cm_proxies :: "(key \<times> proxy) list"

record cm_env =
  ce_qt :: qt_lib
  ce_dbus :: dbus_answers
  ce_now :: "64 word"
  ce_json :: "string \<Rightarrow> qvariant option"
  ce_xml :: "string \<Rightarrow> sax_event list \<times> bool"
  ce_debug :: "qvariant \<Rightarrow> string"
  ce_core :: assoc_tree
  ce_registry :: info_ops

datatype cm_out =
    COut string
  | CBus key pp_out
  | CSubscribe key
  | CUnsubscribe key
  | CSleep int
  | CFile string string

datatype cm_end = Running | Exited int | Crashed

type_synonym cm_result = "commander \<times> cm_out list \<times> cm_end"

definition cm_then :: "cm_result \<Rightarrow> (commander \<Rightarrow> cm_result) \<Rightarrow> cm_result" where
  "cm_then r f = (case r of (s, os, e) \<Rightarrow>
     if e = Running then (case f s of (s1, os1, e1) \<Rightarrow> (s1, os @ os1, e1)) else r)"

definition commanderBusName :: string where
  "commanderBusName = ''org.freedesktop.ContextKit.Commander''"

definition cm_isCommander :: "commander \<Rightarrow> bool" where
  "cm_isCommander s = (cm_busName s = commanderBusName)"

section \<open>PropertyProxy\<close>

text \<open>\<open>Property::setValue\<close> through the backend.\<close>

definition cm_setValue :: "cm_env \<Rightarrow> key \<Rightarrow> qvariant \<Rightarrow> commander \<Rightarrow> cm_result" where
  "cm_setValue E key v s = (case sb_setValue (ce_qt E) (ce_now E) key v (cm_backend s) of
     (b, os) \<Rightarrow> (s\<lparr>cm_backend := b\<rparr>, map (\<lambda>(k, x). CBus k x) os, Running))"

definition px_enable :: "cm_env \<Rightarrow> key \<Rightarrow> bool \<Rightarrow> commander \<Rightarrow> cm_result" where
  "px_enable E key enable s = (case map_of (cm_proxies s) key of
      None \<Rightarrow> (s, [], Running)
    | Some p \<Rightarrow>
        let s1 = s\<lparr>cm_proxies := smap_insert key (p\<lparr>px_enabled := enable\<rparr>) (cm_proxies s)\<rparr>
        in if enable then cm_setValue E key (px_value p) s1 else (s1, [], Running))"

definition px_new :: "cm_env \<Rightarrow> key \<Rightarrow> bool \<Rightarrow> commander \<Rightarrow> cm_result" where
  "px_new E key enabled s =
     (let s1 = s\<lparr>cm_backend := prop_init (ce_dbus E) (ce_now E) key (cm_backend s),
                cm_proxies := smap_insert key \<lparr>px_enabled = enabled, px_value = VInvalid, px_subscribed = False\<rparr> (cm_proxies s)\<rparr>
      in px_enable E key enabled s1)"

definition px_type :: "cm_env \<Rightarrow> key \<Rightarrow> string" where
  "px_type E key = ci_type (ce_qt E) (ci_new (ce_registry E) key)"

definition px_onFirstSubscriber :: "key \<Rightarrow> commander \<Rightarrow> cm_result" where
  "px_onFirstSubscriber key s = (case map_of (cm_proxies s) key of
      None \<Rightarrow> (s, [], Running)
    | Some p \<Rightarrow> (s\<lparr>cm_proxies := smap_insert key (p\<lparr>px_subscribed := True\<rparr>) (cm_proxies s)\<rparr>, [CSubscribe key], Running))"

definition px_onLastSubscriber :: "key \<Rightarrow> commander \<Rightarrow> cm_result" where
  "px_onLastSubscriber key s = (case map_of (cm_proxies s) key of
      None \<Rightarrow> (s, [], Running)
    | Some p \<Rightarrow> (s\<lparr>cm_proxies := smap_insert key (p\<lparr>px_subscribed := False\<rparr>) (cm_proxies s)\<rparr>, [CUnsubscribe key], Running))"

definition value_line :: "cm_env \<Rightarrow> string \<Rightarrow> key \<Rightarrow> qvariant \<Rightarrow> string" where
  "value_line E type key v = type @ '' '' @ key @
     (if qv_isNull v then '' is Unknown'' else '' = '' @ qv_toString (ce_qt E) v)"

text \<open>\<open>real\<close> is the value the subscriber side has now.\<close>

definition px_onValueChanged :: "cm_env \<Rightarrow> key \<Rightarrow> qvariant \<Rightarrow> commander \<Rightarrow> cm_result" where
  "px_onValueChanged E key real s = (case map_of (cm_proxies s) key of
      None \<Rightarrow> (s, [], Running)
    | Some p \<Rightarrow>
        cm_then (let s1 = s\<lparr>cm_proxies := smap_insert key (p\<lparr>px_value := real\<rparr>) (cm_proxies s)\<rparr>
                 in if px_enabled p then cm_setValue E key real s1 else (s1, [], Running))
          (\<lambda>s2. (s2, [COut (''real: '' @ value_line E (px_type E key) key real)], Running)))"

text \<open>The signals a change of the backend raises, delivered to the proxies.\<close>

fun px_signals :: "(key \<times> pp_out) list \<Rightarrow> commander \<Rightarrow> cm_result" where
  "px_signals [] s = (s, [], Running)"
| "px_signals ((k, FirstSubscriberAppeared _) # r) s = cm_then (px_onFirstSubscriber k s) (px_signals r)"
| "px_signals ((k, LastSubscriberDisappeared _) # r) s = cm_then (px_onLastSubscriber k s) (px_signals r)"
| "px_signals ((k, PPValueChanged vs t) # r) s =
     cm_then (s, [CBus k (PPValueChanged vs t)], Running) (px_signals r)"

section \<open>The commands\<close>

definition join_sp :: "string list \<Rightarrow> string" where
  "join_sp ws = (case ws of [] \<Rightarrow> [] | w # r \<Rightarrow> w @ concat (map (\<lambda>x. '' '' @ x) r))"

definition cm_type :: "key \<Rightarrow> commander \<Rightarrow> type_info" where
  "cm_type key s = (case map_of (cm_types s) key of None \<Rightarrow> VInvalid | Some t \<Rightarrow> t)"

definition restartCommand :: "cm_env \<Rightarrow> commander \<Rightarrow> cm_result" where
  "restartCommand E s =
     (let b0 = sb_ref (cm_backend s);
          (b1, o1) = (if cm_started s then sb_stop b0 else (b0, []))
      in case sb_start (ce_dbus E) b1 of (ok, b2, o2) \<Rightarrow>
         cm_then (px_signals (o1 @ o2) (s\<lparr>cm_backend := b2\<rparr>))
           (\<lambda>s1. if \<not> ok then (s1, [], Exited 2)
             else (case sb_unref (cm_backend s1) of (b3, o3) \<Rightarrow>
               cm_then (px_signals o3 (s1\<lparr>cm_backend := b3, cm_started := True\<rparr>))
                 (\<lambda>s2. (s2, [COut ''Service started''], Running)))))"

definition unsetCommand :: "cm_env \<Rightarrow> string list \<Rightarrow> commander \<Rightarrow> cm_result" where
  "unsetCommand E args s =
     (if length args < 1 then (s, [], Running)
      else let keyName = qs_trimmed (args ! 0) in
        if keyName \<notin> set (cm_props s) then (s, [], Running)
        else cm_then (s, [COut (''Setting key: '' @ keyName @ '' to unknown'')], Running)
          (cm_setValue E keyName VInvalid))"

text \<open>The text at and after the first equals sign; without one the index is -1 and both are everything.\<close>

definition set_split :: "string \<Rightarrow> string \<times> string" where
  "set_split command =
     (if CHR ''='' \<in> set command
      then (takeWhile (\<lambda>c. c \<noteq> CHR ''='') command, tl (dropWhile (\<lambda>c. c \<noteq> CHR ''='') command))
      else (command, command))"

text \<open>Unquoted strings and the ways of writing a truth value.\<close>

definition fix_value :: "string \<Rightarrow> string \<Rightarrow> string" where
  "fix_value keyType value0 =
     (let value = (if keyType = ''string'' \<and> \<not> qs_startsWith value0 [CHR 0x22]
                   then [CHR 0x22] @ value0 @ [CHR 0x22] else value0)
      in if keyType = ''bool'' then (if qs_toLower value = ''true'' \<or> value = ''1'' then ''true'' else ''false'')
         else value)"

definition setCommand :: "cm_env \<Rightarrow> string \<Rightarrow> commander \<Rightarrow> cm_result" where
  "setCommand E command s =
     (let keyName = qs_trimmed (fst (set_split command)); value0 = qs_trimmed (snd (set_split command)) in
      if keyName \<notin> set (cm_props s) then (s, [], Running)
      else let value = fix_value (tree_name (ce_qt E) (cm_type keyName s)) value0 in
        (case ce_json E value of
           None \<Rightarrow> (s, [], Running)
         | Some v \<Rightarrow>
             cm_then (s, [COut (''Setting key: '' @ keyName @ '' to value: '' @ ce_debug E v)], Running)
               (cm_setValue E keyName v)))"

definition new_type_name :: "string \<Rightarrow> string" where
  "new_type_name t = (if t = ''truth'' then ''bool'' else if t = ''int'' then ''integer''
     else if t = ''double'' then ''number'' else t)"

definition addCommand :: "cm_env \<Rightarrow> string list \<Rightarrow> commander \<Rightarrow> cm_result" where
  "addCommand E args s =
     (if length args < 2 then (s, [], Running)
      else let keyType0 = qs_toLower (args ! 0); keyName = args ! 1;
               legacy = (keyType0 = ''int'' \<or> keyType0 = ''double'' \<or> keyType0 = ''truth'');
               keyType = new_type_name keyType0
        in if \<not> legacy \<and> qv_isNull (type_def (ce_qt E) (ce_core E) keyType) then (s, [], Running)
        else let s1 = s\<lparr>cm_types := smap_insert keyName (VString keyType) (cm_types s)\<rparr> in
          cm_then
            (if keyName \<in> set (cm_props s1) then (s1, [], Running)
             else cm_then
               (let s2 = s1\<lparr>cm_props := insort keyName (cm_props s1),
                            cm_backend := prop_init (ce_dbus E) (ce_now E) keyName (cm_backend s1)\<rparr>
                in if cm_isCommander s2 \<and> map_of (cm_proxies s2) keyName \<noteq> None
                   then px_enable E keyName False s2 else (s2, [], Running))
               (\<lambda>s3. (s3, [COut (''Added key: '' @ keyName @ '' with type: '' @ keyType)], Running)))
            (\<lambda>s4. cm_then
              (if length args > 2 then setCommand E (keyName @ ''='' @ join_sp (drop 2 args)) s4
               else unsetCommand E [keyName] s4)
              (\<lambda>s5. if cm_started s5 \<and> (\<not> cm_isCommander s5 \<or> map_of (cm_proxies s5) keyName = None)
                then restartCommand E s5 else (s5, [], Running))))"

definition setTypeCommand :: "cm_env \<Rightarrow> string list \<Rightarrow> commander \<Rightarrow> cm_result" where
  "setTypeCommand E args s =
     (if length args < 2 then (s, [], Running)
      else let key = hd args in
        if key \<notin> set (cm_props s) then (s, [], Running)
        else let tba0 = qs_trimmed (join_sp (tl args));
                 tba = (if \<not> qs_startsWith tba0 ''<'' then ''<'' @ tba0 @ ''/>'' else tba0)
          in (case nx_initAndParse (ce_xml E tba) of
                None \<Rightarrow> (s, [], Crashed)
              | Some r \<Rightarrow>
                  if qv_isNull (ti_definition (ce_qt E) (ce_core E) (nr_result r)) then (s, [], Running)
                  else (s\<lparr>cm_types := smap_insert key (nr_result r) (cm_types s)\<rparr>, [], Running)))"

definition delCommand :: "cm_env \<Rightarrow> string list \<Rightarrow> commander \<Rightarrow> cm_result" where
  "delCommand E args s =
     (if length args < 1 then (s, [], Running)
      else let keyName = args ! 0;
               s1 = s\<lparr>cm_types := amap_remove keyName (cm_types s), cm_props := remove1 keyName (cm_props s)\<rparr>
        in cm_then (if cm_isCommander s1 \<and> map_of (cm_proxies s1) keyName \<noteq> None
                    then px_enable E keyName True s1 else (s1, [], Running))
             (\<lambda>s2. (s2, [COut (''Deleted key: '' @ keyName)], Running)))"

definition infoCommand :: "cm_env \<Rightarrow> string list \<Rightarrow> commander \<Rightarrow> cm_result" where
  "infoCommand E args s =
     (if length args < 1 then (s, [], Running)
      else let keyName = args ! 0 in
        (s,
         (if keyName \<in> set (cm_props s)
          then [COut (value_line E (tree_name (ce_qt E) (cm_type keyName s)) keyName (prop_value keyName (cm_backend s)))]
          else []) @
         (if cm_isCommander s then
            (case map_of (cm_proxies s) keyName of
               None \<Rightarrow> []
             | Some p \<Rightarrow> [COut (''real: '' @ value_line E (px_type E keyName) keyName (px_value p))])
          else []), Running))"

definition listCommand :: "cm_env \<Rightarrow> commander \<Rightarrow> cm_result" where
  "listCommand E s =
     fold (\<lambda>key r. cm_then r (infoCommand E [key])) (qset_union (cm_props s) (map fst (cm_proxies s))) (s, [], Running)"

definition sleepCommand :: "cm_env \<Rightarrow> string list \<Rightarrow> commander \<Rightarrow> cm_result" where
  "sleepCommand E args s =
     (if length args < 1 then (s, [], Running)
      else let interval = sint (qStrInt (ce_qt E) (args ! 0))
        in (s, [COut (''Sleeping '' @ int_str interval @ '' seconds''), CSleep interval], Running))"

definition dump_file :: "cm_env \<Rightarrow> commander \<Rightarrow> string" where
  "dump_file E s =
     ''<?xml version=\"1.0\"?>\<newline>'' @
     ''<provider bus=\"'' @ (if cm_busType s = SystemBus then ''system'' else ''session'') @
       ''\" service=\"'' @ cm_busName s @ ''\">\<newline>'' @
     concat (map (\<lambda>key. ''  <key name=\"'' @ key @ ''\">\<newline>    <type>\<newline>'' @
         tree_dumpXML (ce_qt E) 3 (cm_type key s) @
         ''    </type>\<newline>    <doc>A phony but very flexible property.</doc>\<newline>  </key>\<newline>'') (cm_props s)) @
     ''</provider>\<newline>''"

definition dumpCommand :: "cm_env \<Rightarrow> string list \<Rightarrow> commander \<Rightarrow> cm_result" where
  "dumpCommand E args s =
     (let fileName0 = (if length args > 0 then args ! 0 else ''context-provide.context'');
          fileName = (if \<not> qs_startsWith fileName0 ''/'' then ''./'' @ fileName0 else fileName0)
      in (s, [CFile fileName (dump_file E s), COut (''Wrote '' @ fileName)], Running))"

definition cm_interpret :: "cm_env \<Rightarrow> string \<Rightarrow> commander \<Rightarrow> cm_result" where
  "cm_interpret E command s =
     (if command = [] then (s, [], Running)
      else if CHR ''='' \<in> set command then setCommand E command s
      else let words = qs_split (CHR '' '') command; commandName = hd words; args = tl words in
        if qs_startsWith ''add'' commandName then addCommand E args s
        else if qs_startsWith ''settype'' commandName then setTypeCommand E args s
        else if qs_startsWith ''del'' commandName then delCommand E args s
        else if qs_startsWith ''info'' commandName then infoCommand E args s
        else if qs_startsWith ''list'' commandName then listCommand E s
        else if qs_startsWith ''sleep'' commandName then sleepCommand E args s
        else if qs_startsWith ''exit'' commandName then (s, [], Exited 0)
        else if qs_startsWith ''dump'' commandName then dumpCommand E args s
        else if qs_startsWith ''restart'' commandName then restartCommand E s
        else if qs_startsWith ''unset'' commandName then unsetCommand E args s
        else (s, [], Running))"

section \<open>Start-up and events\<close>

fun cm_proxies_for :: "cm_env \<Rightarrow> key list \<Rightarrow> commander \<Rightarrow> cm_result" where
  "cm_proxies_for E [] s = (s, [], Running)"
| "cm_proxies_for E (key # keys) s =
     cm_then (if ci_provided (ci_new (ce_registry E) key) then px_new E key (key \<notin> set (cm_props s)) s
              else (s, [], Running))
       (cm_proxies_for E keys)"

text \<open>Deleting a proxy unsubscribes its subscriber.\<close>

definition cm_unsubscribes :: "commander \<Rightarrow> cm_out list" where
  "cm_unsubscribes s = map (\<lambda>e. CUnsubscribe (fst e)) (filter (\<lambda>e. px_subscribed (snd e)) (cm_proxies s))"

text \<open>The destructor.\<close>

definition cm_destroy :: "commander \<Rightarrow> cm_out list" where
  "cm_destroy s = cm_unsubscribes s"

definition cm_onRegistryChanged :: "cm_env \<Rightarrow> commander \<Rightarrow> cm_result" where
  "cm_onRegistryChanged E s =
     cm_then (s\<lparr>cm_proxies := []\<rparr>, cm_unsubscribes s, Running)
       (cm_proxies_for E (io_listKeys (ce_registry E)))"

definition cm_new :: "cm_env \<Rightarrow> string \<Rightarrow> bus_type \<Rightarrow> backend \<Rightarrow> cm_result" where
  "cm_new E busName busType b =
     (let s = \<lparr>cm_busName = busName, cm_busType = busType, cm_started = False, cm_backend = b,
               cm_types = [], cm_props = [], cm_proxies = []\<rparr>
      in if cm_isCommander s then cm_onRegistryChanged E s else (s, [], Running))"

record provide_args =
  pa_help :: bool
  pa_busType :: bus_type
  pa_readInput :: bool
  pa_args :: "string list"

definition provide_options :: "string list \<Rightarrow> provide_args" where
  "provide_options args0 =
     (let args1 = removeAll ''--v2'' args0;
          session = (''--session'' \<in> set args1); args2 = removeAll ''--session'' args1;
          system = (''--system'' \<in> set args2); args3 = removeAll ''--system'' args2;
          noinput = (''--no-input'' \<in> set args3); args4 = removeAll ''--no-input'' args3;
          args5 = (if length args4 < 2 then args4 @ [commanderBusName] else args4)
      in \<lparr>pa_help = (''--help'' \<in> set args0 \<or> ''-h'' \<in> set args0),
          pa_busType = (if system then SystemBus else SessionBus),
          pa_readInput = \<not> noinput, pa_args = args5\<rparr>)"

fun add_all :: "cm_env \<Rightarrow> string list \<Rightarrow> commander \<Rightarrow> cm_result" where
  "add_all E (t # k # v # r) s = cm_then (addCommand E [t, k, v] s) (add_all E r)"
| "add_all E _ s = (s, [], Running)"

text \<open>\<open>Inl\<close> is how a run ends that never serves; without a program name the arguments are
  indexed out of range.\<close>

definition provide_main :: "cm_env \<Rightarrow> string list \<Rightarrow> cm_end + cm_result" where
  "provide_main E args =
     (let opts = provide_options args in
      if pa_help opts then Inl (Exited 0)
      else if length (pa_args opts) < 2 then Inl Crashed
      else if length (pa_args opts) mod 3 \<noteq> 2 then Inl (Exited 1)
      else Inr (cm_then (cm_new E (pa_args opts ! 1) (pa_busType opts) (sb_ref (sb_new (pa_args opts ! 1))))
        (\<lambda>s. cm_then (add_all E (drop 2 (pa_args opts)) s) (restartCommand E))))"

datatype cm_event =
    CmCommand string
  | CmRegistryChanged
  | CmReal key qvariant
  | CmSubscribe key string
  | CmUnsubscribe key string
  | CmExited key string
  | CmOverheard key "qvariant list" "64 word"

definition cm_client :: "cm_env \<Rightarrow> key \<Rightarrow> pa_event \<Rightarrow> commander \<Rightarrow> cm_result" where
  "cm_client E key e s = (case sb_step (ce_qt E) (ce_dbus E) (SBClient key e) (cm_backend s) of
     (b, os) \<Rightarrow> px_signals os (s\<lparr>cm_backend := b\<rparr>))"

fun cm_step :: "cm_env \<Rightarrow> cm_event \<Rightarrow> commander \<Rightarrow> cm_result" where
  "cm_step E (CmCommand c) s = cm_interpret E c s"
| "cm_step E CmRegistryChanged s = (if cm_isCommander s then cm_onRegistryChanged E s else (s, [], Running))"
| "cm_step E (CmReal k v) s = px_onValueChanged E k v s"
| "cm_step E (CmSubscribe k c) s = cm_client E k (PASubscribe c) s"
| "cm_step E (CmUnsubscribe k c) s = cm_client E k (PAUnsubscribe c) s"
| "cm_step E (CmExited k c) s = cm_client E k (PAExited c) s"
| "cm_step E (CmOverheard k vs t) s = cm_client E k (PAOverheard vs t) s"

fun cm_run :: "(cm_env \<times> cm_event) list \<Rightarrow> commander \<Rightarrow> cm_result" where
  "cm_run [] s = (s, [], Running)"
| "cm_run ((E, e) # es) s = cm_then (cm_step E e s) (cm_run es)"

section \<open>Proxies and overrides\<close>

text \<open>The properties of a backend and their values, as far as the tool can tell them apart.\<close>

definition sb_has :: "key \<Rightarrow> backend \<Rightarrow> bool" where
  "sb_has k b = (map_of (sb_props b) k \<noteq> None)"

definition sb_same :: "backend \<Rightarrow> backend \<Rightarrow> bool" where
  "sb_same b b' = (\<forall>k. (sb_has k b \<longrightarrow> sb_has k b') \<and> prop_value k b' = prop_value k b)"

lemma sb_same_refl [simp]: "sb_same b b"
  by (simp add: sb_same_def)

lemma sb_same_trans: "sb_same a b \<Longrightarrow> sb_same b c \<Longrightarrow> sb_same a c"
  by (simp add: sb_same_def)

lemma pp_setValue_value: "pp_value (fst (pp_setValue Q now v p)) = v"
  by (simp add: pp_defs)

lemma sb_setValue_has: "sb_has k (fst (sb_setValue Q now key v b)) = sb_has k b"
  by (simp add: sb_has_def sb_setValue_def case_prod_unfold split: option.split)

lemma sb_setValue_value: "prop_value k (fst (sb_setValue Q now key v b)) =
    (if k = key \<and> sb_has key b then v else prop_value k b)"
  using pp_setValue_value
  by (simp add: prop_value_def sb_has_def sb_setValue_def case_prod_unfold pa_lift_def split: option.split)

lemma sb_stop_same: "sb_same b (fst (sb_stop b))"
proof -
  obtain b' os where s: "sb_stop b = (b', os)" by fastforce
  have m: "map fst (sb_props b') = map fst (sb_props b)"
    "map (\<lambda>e. pp_value (pa_property (snd e))) (sb_props b') = map (\<lambda>e. pp_value (pa_property (snd e))) (sb_props b)"
    using sb_stop_spec [OF s] by simp_all
  have "map_option (\<lambda>a. pp_value (pa_property a)) (map_of ps k) = map_option (\<lambda>a. pp_value (pa_property a)) (map_of qs k)"
    if "map fst ps = map fst qs"
      "map (\<lambda>e. pp_value (pa_property (snd e))) ps = map (\<lambda>e. pp_value (pa_property (snd e))) qs" for ps qs k
    using that
  proof (induction ps arbitrary: qs)
    case (Cons p ps)
    then show ?case by (cases qs) auto
  qed simp
  from this [OF m] show ?thesis
    by (auto simp: sb_same_def sb_has_def prop_value_def s split: option.splits) (metis map_option_is_None option.distinct(1) option.map_sel option.sel)+
qed

lemma sb_props_same: "sb_props b' = sb_props b \<Longrightarrow> sb_same b b'"
  by (simp add: sb_same_def sb_has_def prop_value_def)

lemma sb_start_same: "sb_same b (fst (snd (sb_start D b)))"
proof -
  obtain r b1 where 1: "sb_registerAll D (amap_keys (sb_props b)) b = (r, b1)" by fastforce
  have "sb_same b b1" using registerAll_frame [OF 1] by (simp add: sb_props_same)
  moreover have "sb_same b1 (b1\<lparr>sb_nameOwned := True\<rparr>)" by (simp add: sb_props_same)
  ultimately show ?thesis
    using sb_stop_same [of b1] by (auto simp: sb_start_def 1 intro: sb_same_trans split: prod.splits)
qed

lemma sb_ref_same: "sb_same b (sb_ref b)"
  by (simp add: sb_ref_def sb_props_same)

lemma sb_unref_same: "sb_same b (fst (sb_unref b))"
  using sb_stop_same [of "b\<lparr>sb_refCount := sb_refCount b - 1\<rparr>"] sb_props_same [of "b\<lparr>sb_refCount := sb_refCount b - 1\<rparr>" b]
  by (auto simp: sb_unref_def Let_def intro: sb_same_trans)

lemma prop_init_same: "sb_same b (prop_init D now k b)" and prop_init_has: "sb_has k (prop_init D now k b)"
proof -
  obtain r b2 where 2: "sb_registerProperty D k (b\<lparr>sb_props := amap_insert k (pa_new (pp_new now k)) (sb_props b)\<rparr>) = (r, b2)"
    by fastforce
  then show "sb_same b (prop_init D now k b)" "sb_has k (prop_init D now k b)"
    using registerProperty_frame [OF 2]
    by (auto simp: prop_init_def sb_addProperty_def sb_same_def sb_has_def prop_value_def pa_new_def pp_new_def)
qed

lemma pa_client_value:
  "(\<And>now v. e \<noteq> PASet now v) \<Longrightarrow> pp_value (pa_property (fst (pa_step Q e a))) = pp_value (pa_property a)"
  by (cases e) (auto simp: pa_defs pp_defs)

lemma sb_client_same:
  "(\<And>now v. e \<noteq> PASet now v) \<Longrightarrow> sb_same b (fst (sb_step Q D (SBClient k e) b))"
  using pa_client_value [of e Q]
  by (auto simp: sb_same_def sb_has_def prop_value_def case_prod_unfold split: option.splits)

text \<open>
  The invariant: every added or proxied key has its property, a proxy is enabled exactly while
  the user has not overridden its key, and an enabled proxy's property shows the real value.
\<close>

definition cm_ok :: "commander \<Rightarrow> bool" where
  "cm_ok s = ((\<forall>k \<in> set (cm_props s). sb_has k (cm_backend s)) \<and> distinct (cm_props s) \<and>
     (\<forall>k p. map_of (cm_proxies s) k = Some p \<longrightarrow> sb_has k (cm_backend s) \<and> cm_isCommander s \<and>
        (px_enabled p \<longleftrightarrow> k \<notin> set (cm_props s)) \<and>
        (px_enabled p \<longrightarrow> prop_value k (cm_backend s) = px_value p)))"

text \<open>Steps that change neither what is added nor what the proxies hold nor any value.\<close>

definition cm_frame :: "commander \<Rightarrow> commander \<Rightarrow> bool" where
  "cm_frame s s' = (cm_props s' = cm_props s \<and> cm_busName s' = cm_busName s \<and>
     sb_same (cm_backend s) (cm_backend s') \<and>
     (\<forall>k. map_option (\<lambda>p. (px_enabled p, px_value p)) (map_of (cm_proxies s') k) =
        map_option (\<lambda>p. (px_enabled p, px_value p)) (map_of (cm_proxies s) k)))"

lemma cm_frame_refl [simp]: "cm_frame s s"
  by (simp add: cm_frame_def)

lemma cm_frame_trans: "cm_frame s t \<Longrightarrow> cm_frame t u \<Longrightarrow> cm_frame s u"
  by (auto simp: cm_frame_def intro: sb_same_trans)

lemma cm_frame_ok:
  assumes "cm_ok s" and "cm_frame s s'"
  shows "cm_ok s'"
proof -
  have "\<exists>q. map_of (cm_proxies s) k = Some q \<and> px_enabled q = px_enabled p \<and> px_value q = px_value p"
    if "map_of (cm_proxies s') k = Some p" for k p
  proof -
    have "map_option (\<lambda>p. (px_enabled p, px_value p)) (map_of (cm_proxies s') k) =
        map_option (\<lambda>p. (px_enabled p, px_value p)) (map_of (cm_proxies s) k)"
      using assms(2) by (simp add: cm_frame_def)
    then show ?thesis using that by (cases "map_of (cm_proxies s) k") auto
  qed
  note same = this
  have f: "cm_props s' = cm_props s" "cm_busName s' = cm_busName s" "sb_same (cm_backend s) (cm_backend s')"
    using assms(2) by (simp_all add: cm_frame_def)
  show ?thesis unfolding cm_ok_def
  proof (intro conjI ballI allI impI)
    show "sb_has k (cm_backend s')" if "k \<in> set (cm_props s')" for k
      using assms(1) that f by (simp add: cm_ok_def sb_same_def)
    show "distinct (cm_props s')" using assms(1) f by (simp add: cm_ok_def)
    fix k p assume "map_of (cm_proxies s') k = Some p"
    then obtain q where q: "map_of (cm_proxies s) k = Some q" "px_enabled q = px_enabled p" "px_value q = px_value p"
      using same by blast
    then have "sb_has k (cm_backend s) \<and> cm_isCommander s \<and> (px_enabled p \<longleftrightarrow> k \<notin> set (cm_props s)) \<and>
        (px_enabled p \<longrightarrow> prop_value k (cm_backend s) = px_value p)"
      using assms(1) unfolding cm_ok_def by metis
    then show "sb_has k (cm_backend s')" "cm_isCommander s'" "px_enabled p \<longleftrightarrow> k \<notin> set (cm_props s')"
      "px_enabled p \<Longrightarrow> prop_value k (cm_backend s') = px_value p"
      using f by (simp_all add: sb_same_def cm_isCommander_def)
  qed
qed

lemma cm_then_frame:
  "cm_frame s (fst r) \<Longrightarrow> (\<And>t. cm_frame t (fst (f t))) \<Longrightarrow> cm_frame s (fst (cm_then r f))"
  by (cases r) (auto simp: cm_then_def case_prod_unfold intro: cm_frame_trans)

lemma cm_then_ok:
  "cm_ok (fst r) \<Longrightarrow> (\<And>s. cm_ok s \<Longrightarrow> cm_ok (fst (f s))) \<Longrightarrow> cm_ok (fst (cm_then r f))"
  by (cases r) (auto simp: cm_then_def case_prod_unfold)

lemma cm_backend_frame: "sb_same (cm_backend s) b \<Longrightarrow> cm_frame s (s\<lparr>cm_backend := b\<rparr>)"
  by (simp add: cm_frame_def)

lemma px_subscriber_frame:
  "cm_frame s (fst (px_onFirstSubscriber k s))" "cm_frame s (fst (px_onLastSubscriber k s))"
  by (auto simp: px_onFirstSubscriber_def px_onLastSubscriber_def cm_frame_def split: option.split)

lemma px_signals_frame: "cm_frame s (fst (px_signals os s))"
proof (induction os arbitrary: s)
  case (Cons o1 os)
  obtain k x where o: "o1 = (k, x)" by fastforce
  show ?case unfolding o by (cases x) (simp_all add: cm_then_frame px_subscriber_frame Cons.IH)
qed simp

lemma out_frame [simp]: "cm_frame s (fst (s, os, e))"
  by simp

lemma restart_frame: "cm_frame s (fst (restartCommand E s))"
proof -
  define b1o where "b1o = (if cm_started s then sb_stop (sb_ref (cm_backend s)) else (sb_ref (cm_backend s), []))"
  obtain ok b2 o2 where 2: "sb_start (ce_dbus E) (fst b1o) = (ok, b2, o2)" by (metis prod_cases3)
  have "sb_same (cm_backend s) (fst b1o)"
    using sb_ref_same sb_stop_same sb_same_trans by (simp add: b1o_def) blast
  then have b2: "sb_same (cm_backend s) b2"
    using sb_start_same [of "fst b1o" "ce_dbus E"] 2 sb_same_trans by fastforce
  have step: "cm_frame t (fst (if \<not> ok then (t, [], Exited 2)
      else case sb_unref (cm_backend t) of (b3, o3) \<Rightarrow>
        cm_then (px_signals o3 (t\<lparr>cm_backend := b3, cm_started := True\<rparr>)) (\<lambda>s2. (s2, [COut ''Service started''], Running))))" for t
  proof (cases ok)
    case True
    have "cm_frame t (t\<lparr>cm_backend := fst (sb_unref (cm_backend t)), cm_started := True\<rparr>)"
      using sb_unref_same by (simp add: cm_frame_def)
    then show ?thesis
      using True by (auto simp: case_prod_unfold intro!: cm_then_frame cm_frame_trans [OF _ px_signals_frame])
  qed simp
  have "restartCommand E s = cm_then (px_signals (snd b1o @ o2) (s\<lparr>cm_backend := b2\<rparr>))
      (\<lambda>t. if \<not> ok then (t, [], Exited 2)
      else case sb_unref (cm_backend t) of (b3, o3) \<Rightarrow>
        cm_then (px_signals o3 (t\<lparr>cm_backend := b3, cm_started := True\<rparr>)) (\<lambda>s2. (s2, [COut ''Service started''], Running)))"
    using 2 by (simp add: restartCommand_def Let_def b1o_def [symmetric] case_prod_unfold)
  then show ?thesis
    using step cm_frame_trans [OF cm_backend_frame [OF b2] px_signals_frame] by (simp add: cm_then_frame)
qed

lemma quiet_frames:
  "cm_frame s (fst (infoCommand E args s))" "cm_frame s (fst (sleepCommand E args s))"
  "cm_frame s (fst (dumpCommand E args s))" "cm_frame s (fst (setTypeCommand E args s))"
  by (auto simp: infoCommand_def sleepCommand_def dumpCommand_def setTypeCommand_def Let_def cm_frame_def
      split: option.split)

lemma list_frame: "cm_frame s (fst (listCommand E s))"
proof -
  have "cm_frame s (fst (fold (\<lambda>key r. cm_then r (infoCommand E [key])) ks r))" if "cm_frame s (fst r)" for ks r
    using that by (induction ks arbitrary: r) (simp_all add: cm_then_frame quiet_frames)
  then show ?thesis by (simp add: listCommand_def)
qed

lemma client_frame:
  "(\<And>now v. e \<noteq> PASet now v) \<Longrightarrow> cm_frame s (fst (cm_client E k e s))"
  using cm_frame_trans [OF cm_backend_frame [OF sb_client_same] px_signals_frame]
  by (simp add: cm_client_def case_prod_unfold del: sb_step.simps)

section \<open>The steps that set values\<close>

lemma cm_setValue_simps [simp]:
  "cm_props (fst (cm_setValue E k v s)) = cm_props s" "cm_proxies (fst (cm_setValue E k v s)) = cm_proxies s"
  "cm_busName (fst (cm_setValue E k v s)) = cm_busName s"
  by (simp_all add: cm_setValue_def case_prod_unfold)

lemma cm_setValue_backend:
  "sb_has j (cm_backend (fst (cm_setValue E k v s))) = sb_has j (cm_backend s)"
  "prop_value j (cm_backend (fst (cm_setValue E k v s))) =
     (if j = k \<and> sb_has k (cm_backend s) then v else prop_value j (cm_backend s))"
  by (simp_all add: cm_setValue_def case_prod_unfold sb_setValue_has sb_setValue_value)

lemma user_set_ok: "cm_ok s \<Longrightarrow> k \<in> set (cm_props s) \<Longrightarrow> cm_ok (fst (cm_setValue E k v s))"
  by (auto simp: cm_ok_def cm_setValue_backend cm_isCommander_def)

lemma setCommand_ok: "cm_ok s \<Longrightarrow> cm_ok (fst (setCommand E c s))"
  by (auto simp: setCommand_def Let_def cm_then_def case_prod_unfold user_set_ok split: option.split)

lemma unsetCommand_ok: "cm_ok s \<Longrightarrow> cm_ok (fst (unsetCommand E args s))"
  by (auto simp: unsetCommand_def Let_def cm_then_def case_prod_unfold user_set_ok)

text \<open>Enabling and disabling one proxy, when the other proxies are as they should be.\<close>

definition cm_ok_but :: "key \<Rightarrow> commander \<Rightarrow> bool" where
  "cm_ok_but k s = ((\<forall>j \<in> set (cm_props s). sb_has j (cm_backend s)) \<and> distinct (cm_props s) \<and>
     (\<forall>j p. map_of (cm_proxies s) j = Some p \<longrightarrow> sb_has j (cm_backend s) \<and> cm_isCommander s \<and>
        (j \<noteq> k \<longrightarrow> (px_enabled p \<longleftrightarrow> j \<notin> set (cm_props s)) \<and>
          (px_enabled p \<longrightarrow> prop_value j (cm_backend s) = px_value p))))"

lemma cm_ok_but_none: "cm_ok_but k s \<Longrightarrow> map_of (cm_proxies s) k = None \<Longrightarrow> cm_ok s"
  unfolding cm_ok_def cm_ok_but_def by force

lemma px_enable_ok:
  assumes "cm_ok_but k s" and "e = (k \<notin> set (cm_props s))"
  shows "cm_ok (fst (px_enable E k e s))"
proof (cases "map_of (cm_proxies s) k")
  case None
  then show ?thesis using cm_ok_but_none [OF assms(1)] by (simp add: px_enable_def)
next
  case (Some p)
  let ?s = "s\<lparr>cm_proxies := smap_insert k (p\<lparr>px_enabled := e\<rparr>) (cm_proxies s)\<rparr>"
  have "sb_has k (cm_backend s)" using assms(1) Some by (simp add: cm_ok_but_def)
  then have "cm_ok (fst (if e then cm_setValue E k (px_value p) ?s else (?s, [], Running)))"
    using assms Some by (auto simp: cm_ok_def cm_ok_but_def cm_setValue_backend cm_isCommander_def)
  then show ?thesis by (simp add: px_enable_def Some Let_def)
qed

lemma px_onValueChanged_ok: "cm_ok s \<Longrightarrow> cm_ok (fst (px_onValueChanged E k v s))"
proof (cases "map_of (cm_proxies s) k")
  case (Some p)
  assume ok: "cm_ok s"
  let ?s = "s\<lparr>cm_proxies := smap_insert k (p\<lparr>px_value := v\<rparr>) (cm_proxies s)\<rparr>"
  have "cm_ok (fst (if px_enabled p then cm_setValue E k v ?s else (?s, [], Running)))"
    using ok Some by (auto simp: cm_ok_def cm_setValue_backend cm_isCommander_def)
  then show ?thesis
    by (auto simp: px_onValueChanged_def Some Let_def intro!: cm_then_ok)
qed (simp add: px_onValueChanged_def)

lemma delCommand_ok: "cm_ok s \<Longrightarrow> cm_ok (fst (delCommand E args s))"
proof -
  assume ok: "cm_ok s"
  let ?k = "args ! 0"
  let ?s = "s\<lparr>cm_types := amap_remove ?k (cm_types s), cm_props := remove1 ?k (cm_props s)\<rparr>"
  have but: "cm_ok_but ?k ?s"
    using ok by (auto simp: cm_ok_def cm_ok_but_def cm_isCommander_def)
  have "cm_ok (fst (if cm_isCommander ?s \<and> map_of (cm_proxies ?s) ?k \<noteq> None then px_enable E ?k True ?s else (?s, [], Running)))"
  proof (cases "map_of (cm_proxies ?s) ?k")
    case None
    then show ?thesis using cm_ok_but_none [OF but] by simp
  next
    case (Some p)
    then have "cm_isCommander ?s" using ok by (auto simp: cm_ok_def cm_isCommander_def)
    then show ?thesis using Some px_enable_ok [OF but, of True] ok by (simp add: cm_ok_def)
  qed
  then show ?thesis
    by (auto simp: delCommand_def Let_def ok intro!: cm_then_ok)
qed

lemma addCommand_ok: "cm_ok s \<Longrightarrow> cm_ok (fst (addCommand E args s))"
proof -
  assume ok: "cm_ok s"
  let ?k = "args ! 1"
  let ?t = "new_type_name (qs_toLower (args ! 0))"
  let ?s1 = "s\<lparr>cm_types := smap_insert ?k (VString ?t) (cm_types s)\<rparr>"
  let ?s2 = "?s1\<lparr>cm_props := insort ?k (cm_props ?s1),
    cm_backend := prop_init (ce_dbus E) (ce_now E) ?k (cm_backend ?s1)\<rparr>"
  have ok1: "cm_ok ?s1" using ok by (simp add: cm_ok_def cm_isCommander_def)
  have "cm_ok (fst (if cm_isCommander ?s2 \<and> map_of (cm_proxies ?s2) ?k \<noteq> None
      then px_enable E ?k False ?s2 else (?s2, [], Running)))" if new: "?k \<notin> set (cm_props ?s1)"
  proof -
    have same: "sb_same (cm_backend s) (cm_backend ?s2)" "sb_has ?k (cm_backend ?s2)"
      using prop_init_same prop_init_has by simp_all
    then have but: "cm_ok_but ?k ?s2"
      using ok new by (auto simp: cm_ok_def cm_ok_but_def cm_isCommander_def sb_same_def set_insort_key distinct_insort)
    show ?thesis
    proof (cases "map_of (cm_proxies ?s2) ?k")
      case None
      then show ?thesis using cm_ok_but_none [OF but] by simp
    next
      case (Some p)
      then have "cm_isCommander ?s2" using ok by (auto simp: cm_ok_def cm_isCommander_def)
      then show ?thesis using Some px_enable_ok [OF but, of False] by (simp add: set_insort_key)
    qed
  qed
  then have added: "cm_ok (fst (if ?k \<in> set (cm_props ?s1) then (?s1, [], Running)
      else cm_then (if cm_isCommander ?s2 \<and> map_of (cm_proxies ?s2) ?k \<noteq> None
         then px_enable E ?k False ?s2 else (?s2, [], Running))
        (\<lambda>s3. (s3, [COut (''Added key: '' @ ?k @ '' with type: '' @ ?t)], Running))))"
    using ok1 by (auto intro!: cm_then_ok)
  have rest: "cm_ok t \<Longrightarrow> cm_ok (fst (cm_then
      (if length args > 2 then setCommand E (?k @ ''='' @ join_sp (drop 2 args)) t else unsetCommand E [?k] t)
      (\<lambda>s5. if cm_started s5 \<and> (\<not> cm_isCommander s5 \<or> map_of (cm_proxies s5) ?k = None)
         then restartCommand E s5 else (s5, [], Running))))" for t
    by (rule cm_then_ok) (auto simp: setCommand_ok unsetCommand_ok intro: cm_frame_ok restart_frame)
  show ?thesis
  proof (cases "length args < 2 \<or> (\<not> (qs_toLower (args ! 0) = ''int'' \<or> qs_toLower (args ! 0) = ''double'' \<or>
      qs_toLower (args ! 0) = ''truth'') \<and> qv_isNull (type_def (ce_qt E) (ce_core E) ?t))")
    case True
    then show ?thesis using ok by (auto simp: addCommand_def Let_def)
  next
    case False
    then have "\<not> length args < 2" and "\<not> (\<not> (qs_toLower (args ! 0) = ''int'' \<or> qs_toLower (args ! 0) = ''double'' \<or>
      qs_toLower (args ! 0) = ''truth'') \<and> qv_isNull (type_def (ce_qt E) (ce_core E) ?t))" by blast+
    then show ?thesis unfolding addCommand_def Let_def
      by (simp only: if_False) (rule cm_then_ok [OF added rest])
  qed
qed

section \<open>Registry changes and runs\<close>

text \<open>What is added and the values the user gave are left alone.\<close>

definition cm_keeps :: "commander \<Rightarrow> commander \<Rightarrow> bool" where
  "cm_keeps s s' = (cm_props s' = cm_props s \<and>
     (\<forall>k \<in> set (cm_props s). prop_value k (cm_backend s') = prop_value k (cm_backend s)))"

lemma cm_frame_keeps: "cm_frame s s' \<Longrightarrow> cm_keeps s s'"
  by (simp add: cm_frame_def cm_keeps_def sb_same_def)

lemma cm_keeps_trans: "cm_keeps s t \<Longrightarrow> cm_keeps t u \<Longrightarrow> cm_keeps s u"
  by (simp add: cm_keeps_def)

definition px_stale :: "commander \<Rightarrow> bool" where
  "px_stale s = (\<forall>k p. map_of (cm_proxies s) k = Some p \<longrightarrow> \<not> px_subscribed p \<and> px_value p = VInvalid)"

lemma px_new_spec:
  assumes "cm_ok s" and "cm_isCommander s" and "e = (k \<notin> set (cm_props s))"
  shows "cm_ok (fst (px_new E k e s))" "cm_isCommander (fst (px_new E k e s))" "cm_keeps s (fst (px_new E k e s))"
    "px_stale s \<Longrightarrow> px_stale (fst (px_new E k e s))"
proof -
  let ?s1 = "s\<lparr>cm_backend := prop_init (ce_dbus E) (ce_now E) k (cm_backend s),
    cm_proxies := smap_insert k \<lparr>px_enabled = e, px_value = VInvalid, px_subscribed = False\<rparr> (cm_proxies s)\<rparr>"
  have same: "sb_same (cm_backend s) (cm_backend ?s1)" "sb_has k (cm_backend ?s1)"
    using prop_init_same prop_init_has by simp_all
  then have "cm_ok_but k ?s1"
    using assms(1,2) by (auto simp: cm_ok_def cm_ok_but_def cm_isCommander_def sb_same_def)
  then show "cm_ok (fst (px_new E k e s))"
    using px_enable_ok [of k ?s1 e E] assms(3) by (simp add: px_new_def Let_def)
  show "cm_isCommander (fst (px_new E k e s))"
    using assms(2) by (simp add: px_new_def px_enable_def Let_def cm_isCommander_def)
  show "cm_keeps s (fst (px_new E k e s))"
    using same assms(3) by (auto simp: px_new_def px_enable_def Let_def cm_keeps_def cm_setValue_backend sb_same_def)
  show "px_stale s \<Longrightarrow> px_stale (fst (px_new E k e s))"
    by (auto simp: px_new_def px_enable_def Let_def px_stale_def)
qed

lemma proxies_for_spec:
  assumes "cm_ok s" and "cm_isCommander s" and "px_stale s"
  shows "cm_ok (fst (cm_proxies_for E ks s)) \<and> cm_keeps s (fst (cm_proxies_for E ks s)) \<and>
    px_stale (fst (cm_proxies_for E ks s))"
  using assms
proof (induction ks arbitrary: s)
  case Nil
  then show ?case by (simp add: cm_frame_keeps)
next
  case (Cons k ks)
  define r where "r = (if ci_provided (ci_new (ce_registry E) k) then px_new E k (k \<notin> set (cm_props s)) s else (s, [], Running))"
  have r: "cm_ok (fst r)" "cm_isCommander (fst r)" "cm_keeps s (fst r)" "px_stale (fst r)"
    using px_new_spec [OF Cons.prems(1,2) refl, of E k] Cons.prems by (simp_all add: r_def cm_frame_keeps)
  have "fst (cm_then r (cm_proxies_for E ks)) \<in> {fst r, fst (cm_proxies_for E ks (fst r))}"
    by (cases r) (simp add: cm_then_def case_prod_unfold)
  then show ?case
    using Cons.IH [OF r(1,2,4)] r cm_keeps_trans by (auto simp: r_def [symmetric])
qed

lemma registryChanged_spec:
  assumes "cm_ok s" and "cm_isCommander s"
  shows "cm_ok (fst (cm_onRegistryChanged E s))" "cm_keeps s (fst (cm_onRegistryChanged E s))"
    "px_stale (fst (cm_onRegistryChanged E s))"
proof -
  let ?s = "s\<lparr>cm_proxies := []\<rparr>"
  have "cm_ok ?s" "cm_isCommander ?s" "px_stale ?s" "cm_keeps s ?s"
    using assms by (simp_all add: cm_ok_def cm_isCommander_def px_stale_def cm_keeps_def)
  then show "cm_ok (fst (cm_onRegistryChanged E s))" "cm_keeps s (fst (cm_onRegistryChanged E s))"
    "px_stale (fst (cm_onRegistryChanged E s))"
    using proxies_for_spec [of ?s E "io_listKeys (ce_registry E)"] cm_keeps_trans
    by (auto simp: cm_onRegistryChanged_def cm_unsubscribes_def cm_then_def case_prod_unfold)
qed

lemma interpret_ok: "cm_ok s \<Longrightarrow> cm_ok (fst (cm_interpret E c s))"
  by (simp add: cm_interpret_def Let_def setCommand_ok addCommand_ok delCommand_ok unsetCommand_ok
      cm_frame_ok [OF _ restart_frame] cm_frame_ok [OF _ list_frame] cm_frame_ok [OF _ quiet_frames(1)]
      cm_frame_ok [OF _ quiet_frames(2)] cm_frame_ok [OF _ quiet_frames(3)] cm_frame_ok [OF _ quiet_frames(4)])

lemma cm_step_ok: "cm_ok s \<Longrightarrow> cm_ok (fst (cm_step E e s))"
  by (cases e) (auto simp: interpret_ok px_onValueChanged_ok registryChanged_spec intro!: cm_frame_ok [OF _ client_frame])

lemma cm_run_ok: "cm_ok s \<Longrightarrow> cm_ok (fst (cm_run es s))"
proof (induction es arbitrary: s)
  case (Cons x es)
  obtain E e where "x = (E, e)" by fastforce
  with Cons show ?case by (simp add: cm_then_ok cm_step_ok)
qed simp

lemma onValueChanged_keeps:
  assumes "cm_ok s"
  shows "cm_keeps s (fst (px_onValueChanged E k v s))"
proof (cases "map_of (cm_proxies s) k")
  case (Some p)
  let ?s = "s\<lparr>cm_proxies := smap_insert k (p\<lparr>px_value := v\<rparr>) (cm_proxies s)\<rparr>"
  let ?r = "if px_enabled p then cm_setValue E k v ?s else (?s, [], Running)"
  have "cm_keeps s (fst ?r)"
    using assms Some by (auto simp: cm_ok_def cm_keeps_def cm_setValue_backend)
  moreover have "fst (cm_then ?r (\<lambda>t. (t, os, Running))) = fst ?r" for os
    by (simp add: cm_then_def case_prod_unfold)
  ultimately show ?thesis by (simp add: px_onValueChanged_def Some Let_def)
qed (simp add: px_onValueChanged_def cm_frame_keeps)

lemma cm_step_keeps: "cm_ok s \<Longrightarrow> (\<And>c. e \<noteq> CmCommand c) \<Longrightarrow> cm_keeps s (fst (cm_step E e s))"
  by (cases e) (auto simp: registryChanged_spec onValueChanged_keeps intro!: cm_frame_keeps client_frame)

lemma cm_new_ok: "cm_ok (fst (cm_new E busName busType b))"
proof -
  let ?s = "\<lparr>cm_busName = busName, cm_busType = busType, cm_started = False, cm_backend = b,
    cm_types = [], cm_props = [], cm_proxies = []\<rparr>"
  have "cm_ok ?s" by (simp add: cm_ok_def)
  then show ?thesis using registryChanged_spec(1) [of ?s E] by (simp add: cm_new_def Let_def)
qed

text \<open>C15: the commander overrides exactly what the user added. In every run, over commands, changes
  of the registry, clients and values of the real providers, a proxied key shows the real value
  the proxy last received, unless the user has added the key and not deleted it; and while it is
  added, nothing but a command changes the value the user gave it.\<close>

theorem commander_proxies_and_overrides:
  assumes "cm_then (cm_new E busName busType b) (cm_run es) = (s, os, end')"
  shows "(\<forall>k p. map_of (cm_proxies s) k = Some p \<longrightarrow>
      (px_enabled p \<longleftrightarrow> k \<notin> set (cm_props s)) \<and>
      (k \<notin> set (cm_props s) \<longrightarrow> prop_value k (cm_backend s) = px_value p)) \<and>
    (\<forall>E' e k. (\<forall>c. e \<noteq> CmCommand c) \<and> k \<in> set (cm_props s) \<longrightarrow>
      k \<in> set (cm_props (fst (cm_step E' e s))) \<and>
      prop_value k (cm_backend (fst (cm_step E' e s))) = prop_value k (cm_backend s))"
proof -
  have "cm_ok (fst (cm_then (cm_new E busName busType b) (cm_run es)))"
    by (rule cm_then_ok [OF cm_new_ok cm_run_ok])
  then have "cm_ok s" using assms by simp
  then show ?thesis
    using cm_step_keeps unfolding cm_keeps_def by (auto simp: cm_ok_def) 
qed

text \<open>
  But a change of the registry makes every proxy forget: the new proxies are not subscribed and
  have no value, and a client that was already subscribed does not make them subscribe again,
  because its property has announced its first subscriber before.
\<close>

lemma registry_change_forgets_subscribers:
  assumes "cm_ok s" and "cm_isCommander s"
    and "map_of (cm_proxies (fst (cm_onRegistryChanged E s))) k = Some p"
  shows "\<not> px_subscribed p \<and> px_value p = VInvalid"
  using registryChanged_spec(3) [OF assms(1,2)] assms(3) by (simp add: px_stale_def)

definition provide_env :: cm_env where
  "provide_env = \<lparr>ce_qt = qt_ref, ce_dbus = all_granted, ce_now = 5,
     ce_json = (\<lambda>t. if t = ''42'' then Some (VLongLong 42) else None),
     ce_xml = (\<lambda>_. ([], False)), ce_debug = (\<lambda>_. ''v''), ce_core = VInvalid,
     ce_registry = \<lparr>io_name = ''xml'', io_listKeys = [''A.b''], io_typeInfoForKey = (\<lambda>_. VString ''integer''),
       io_docForKey = (\<lambda>_. []), io_keyDeclared = (\<lambda>k. k = ''A.b''), io_keyDeprecated = (\<lambda>_. False),
       io_providersForKey = (\<lambda>k. if k = ''A.b'' then [\<lparr>pi_plugin = ''p'', pi_construction = ''c''\<rparr>] else [])\<rparr>\<rparr>"

definition provide_run :: cm_result where
  "provide_run = cm_then (cm_new provide_env commanderBusName SessionBus (sb_ref (sb_new commanderBusName)))
     (cm_run [(provide_env, CmReal ''A.b'' (VInt 1)), (provide_env, CmCommand ''add int A.b 42''),
       (provide_env, CmReal ''A.b'' (VInt 2)), (provide_env, CmCommand ''del A.b'')])"

lemma commander_proxies_and_overrides_witness:
  "prop_value ''A.b'' (cm_backend (fst provide_run)) = VInt 2"
proof -
  have p: "map_of (cm_proxies (fst provide_run)) ''A.b'' = Some \<lparr>px_enabled = True, px_value = VInt 2, px_subscribed = False\<rparr>"
    and k: "''A.b'' \<notin> set (cm_props (fst provide_run))" by code_simp+
  have "cm_then (cm_new provide_env commanderBusName SessionBus (sb_ref (sb_new commanderBusName)))
      (cm_run [(provide_env, CmReal ''A.b'' (VInt 1)), (provide_env, CmCommand ''add int A.b 42''),
        (provide_env, CmReal ''A.b'' (VInt 2)), (provide_env, CmCommand ''del A.b'')]) =
      (fst provide_run, fst (snd provide_run), snd (snd provide_run))"
    by (simp add: provide_run_def)
  from commander_proxies_and_overrides [OF this] show ?thesis using p k by simp
qed

end
