(* ===== verification/Xml_Text.thy ===== *)
theory Xml_Text
  imports Nano_Xml
begin

text \<open>
  XML as text. The parser is Qt's and is not part of the repository; what the program relies on
  is the XML specification: a well-formed document without entities, comments and name spaces is
  reported to the handler element by element, with the character data between two tags in one
  piece. \<open>conforming\<close> states this for the canonical text \<open>xml_print\<close> of a document,
  and \<open>ref_sax\<close> is a parser that has the property.
\<close>

definition xml_prolog :: string where
  "xml_prolog = ''<?xml version=\"1.0\"?>\<newline>''"

definition attr_print :: "string \<times> string \<Rightarrow> string" where
  "attr_print a = '' '' @ fst a @ ''=\"'' @ snd a @ ''\"''"

definition tag_print :: "string \<Rightarrow> (string \<times> string) list \<Rightarrow> string" where
  "tag_print n as = n @ concat (map attr_print as)"

fun xml_print :: "xml \<Rightarrow> string" where
  "xml_print (Text t) = t"
| "xml_print (Element n as cs) =
     (if cs = [] then ''<'' @ tag_print n as @ ''/>''
      else ''<'' @ tag_print n as @ ''>'' @ concat (map xml_print cs) @ ''</'' @ n @ ''>'')"

section \<open>Well-formed documents\<close>

definition is_name_char :: "char \<Rightarrow> bool" where
  "is_name_char c = (is_path_char c \<or> c = CHR ''-'' \<or> c = CHR ''.'')"

definition xml_name :: "string \<Rightarrow> bool" where
  "xml_name n = (n \<noteq> [] \<and> list_all is_name_char n \<and>
     \<not> is_digit (hd n) \<and> hd n \<noteq> CHR ''-'' \<and> hd n \<noteq> CHR ''.'')"

definition is_text_char :: "char \<Rightarrow> bool" where
  "is_text_char c = (let n = (of_char c :: nat) in
     (n = 10 \<or> (32 \<le> n \<and> n < 127)) \<and> c \<noteq> CHR ''<'' \<and> c \<noteq> CHR ''>'' \<and> c \<noteq> CHR ''&'')"

definition is_attr_char :: "char \<Rightarrow> bool" where
  "is_attr_char c = (is_text_char c \<and> c \<noteq> CHR 0x0A \<and> c \<noteq> CHR 0x22)"

fun is_text :: "xml \<Rightarrow> bool" where
  "is_text (Text _) = True"
| "is_text (Element _ _ _) = False"

fun no_two_texts :: "xml list \<Rightarrow> bool" where
  "no_two_texts (a # b # r) = (\<not> (is_text a \<and> is_text b) \<and> no_two_texts (b # r))"
| "no_two_texts _ = True"

fun xml_wf :: "xml \<Rightarrow> bool" where
  "xml_wf (Text t) = (t \<noteq> [] \<and> list_all is_text_char t)"
| "xml_wf (Element n as cs) = (xml_name n \<and> list_all (\<lambda>a. xml_name (fst a) \<and> list_all is_attr_char (snd a)) as \<and>
     distinct (map fst as) \<and> no_two_texts cs \<and> list_all xml_wf cs)"

definition conforming :: "(string \<Rightarrow> sax_event list \<times> bool) \<Rightarrow> bool" where
  "conforming sax = (\<forall>e. xml_wf e \<and> \<not> is_text e \<longrightarrow>
     sax (xml_prolog @ xml_print e @ ''\<newline>'') = (sax_events e, True))"

section \<open>A reference parser\<close>

function lex_attrs :: "string \<Rightarrow> (string \<times> string) list" where
  "lex_attrs [] = []"
| "lex_attrs (c # s) =
     (let r = drop 2 (dropWhile (\<lambda>x. x \<noteq> CHR ''='') s)
      in (takeWhile (\<lambda>x. x \<noteq> CHR ''='') s, takeWhile (\<lambda>x. x \<noteq> CHR 0x22) r) #
         lex_attrs (tl (dropWhile (\<lambda>x. x \<noteq> CHR 0x22) r)))"
  by pat_completeness auto
termination
proof (relation "measure length")
  fix c :: char and s r
  assume "r = drop 2 (dropWhile (\<lambda>x. x \<noteq> CHR ''='') s)"
  then have "length r \<le> length s" using length_dropWhile_le [of "\<lambda>x. x \<noteq> CHR ''=''" s] by simp
  then show "(tl (dropWhile (\<lambda>x. x \<noteq> CHR 0x22) r), c # s) \<in> measure length"
    using length_dropWhile_le [of "\<lambda>x. x \<noteq> CHR 0x22" r] by simp
qed simp

definition lex_tag :: "string \<Rightarrow> sax_event list" where
  "lex_tag t =
     (let empty_tag = (t \<noteq> [] \<and> last t = CHR ''/''); u = (if empty_tag then butlast t else t);
          n = takeWhile (\<lambda>x. x \<noteq> CHR '' '') u
      in if t \<noteq> [] \<and> hd t = CHR ''/'' then [EndElement (tl t)]
         else StartElement n (lex_attrs (dropWhile (\<lambda>x. x \<noteq> CHR '' '') u)) # (if empty_tag then [EndElement n] else []))"

function lex_xml :: "string \<Rightarrow> sax_event list" where
  "lex_xml [] = []"
| "lex_xml (c # s) =
     (if c = CHR ''<'' then lex_tag (takeWhile (\<lambda>x. x \<noteq> CHR ''>'') s) @ lex_xml (tl (dropWhile (\<lambda>x. x \<noteq> CHR ''>'') s))
      else Characters (takeWhile (\<lambda>x. x \<noteq> CHR ''<'') (c # s)) # lex_xml (dropWhile (\<lambda>x. x \<noteq> CHR ''<'') s))"
  by pat_completeness auto
termination
proof (relation "measure length")
  fix c :: char and s
  show "(tl (dropWhile (\<lambda>x. x \<noteq> CHR ''>'') s), c # s) \<in> measure length"
    using length_dropWhile_le [of "\<lambda>x. x \<noteq> CHR ''>''" s] by simp
  show "(dropWhile (\<lambda>x. x \<noteq> CHR ''<'') s, c # s) \<in> measure length"
    using length_dropWhile_le [of "\<lambda>x. x \<noteq> CHR ''<''" s] by simp
qed simp

definition ref_sax :: "string \<Rightarrow> sax_event list \<times> bool" where
  "ref_sax s = (if qs_startsWith s xml_prolog then (lex_xml (butlast (drop (length xml_prolog) s)), True) else ([], False))"

lemma lex_attr:
  assumes "CHR ''='' \<notin> set n" and "CHR 0x22 \<notin> set v"
  shows "lex_attrs (attr_print (n, v) @ s) = (n, v) # lex_attrs s"
proof -
  have "attr_print (n, v) @ s = CHR '' '' # n @ CHR ''='' # CHR 0x22 # v @ CHR 0x22 # s"
    by (simp add: attr_print_def)
  moreover have "\<forall>c \<in> set n. c \<noteq> CHR ''=''" "\<forall>c \<in> set v. c \<noteq> CHR 0x22" using assms by auto
  ultimately show ?thesis by (simp add: takeWhile_append2 dropWhile_append2 Let_def)
qed

lemma name_chars:
  assumes "xml_name n"
  shows "set n \<inter> {CHR ''='', CHR '' '', CHR ''>'', CHR ''/'', CHR ''<''} = {}"
proof -
  have "\<not> is_name_char c" if "c \<in> {CHR ''='', CHR '' '', CHR ''>'', CHR ''/'', CHR ''<''}" for c
    using that by (auto simp: is_name_char_def is_path_char_def)
  then show ?thesis using assms by (auto simp: xml_name_def list_all_iff)
qed

lemma attr_chars: "list_all is_attr_char v \<Longrightarrow> set v \<inter> {CHR 0x22, CHR ''>'', CHR ''<''} = {}"
  by (auto simp: list_all_iff is_attr_char_def is_text_char_def Let_def)

lemma lex_attrs_print:
  assumes "list_all (\<lambda>a. xml_name (fst a) \<and> list_all is_attr_char (snd a)) as"
  shows "lex_attrs (concat (map attr_print as)) = as"
  using assms
proof (induction as)
  case (Cons a as)
  obtain n v where a: "a = (n, v)" by (cases a)
  have "lex_attrs (attr_print (n, v) @ concat (map attr_print as)) = (n, v) # lex_attrs (concat (map attr_print as))"
    using Cons.prems name_chars [of n] attr_chars [of v] by (intro lex_attr) (auto simp: a)
  then show ?case using Cons by (simp add: a)
qed simp

lemma tag_chars:
  assumes "xml_name n" and "list_all (\<lambda>a. xml_name (fst a) \<and> list_all is_attr_char (snd a)) as"
  shows "CHR ''>'' \<notin> set (tag_print n as)"
proof -
  have "CHR ''>'' \<notin> set (attr_print a)" if "a \<in> set as" for a
    using that assms(2) name_chars [of "fst a"] attr_chars [of "snd a"]
    by (auto simp: attr_print_def list_all_iff)
  then show ?thesis using name_chars [OF assms(1)] by (auto simp: tag_print_def)
qed

lemma until_sep:
  assumes "c \<notin> set xs"
  shows "takeWhile (\<lambda>x. x \<noteq> c) (xs @ c # s) = xs" and "dropWhile (\<lambda>x. x \<noteq> c) (xs @ c # s) = c # s"
    and "takeWhile (\<lambda>x. x \<noteq> c) xs = xs" and "dropWhile (\<lambda>x. x \<noteq> c) xs = []"
  using assms by (induction xs) auto

lemma tag_parts:
  assumes "xml_name n" and "list_all (\<lambda>a. xml_name (fst a) \<and> list_all is_attr_char (snd a)) as"
  shows "takeWhile (\<lambda>x. x \<noteq> CHR '' '') (tag_print n as) = n"
    and "lex_attrs (dropWhile (\<lambda>x. x \<noteq> CHR '' '') (tag_print n as)) = as"
proof -
  have n: "CHR '' '' \<notin> set n" using name_chars [OF assms(1)] by auto
  have "takeWhile (\<lambda>x. x \<noteq> CHR '' '') (tag_print n as) = n \<and>
      dropWhile (\<lambda>x. x \<noteq> CHR '' '') (tag_print n as) = concat (map attr_print as)"
    by (cases as) (simp_all add: tag_print_def attr_print_def until_sep [OF n])
  then show "takeWhile (\<lambda>x. x \<noteq> CHR '' '') (tag_print n as) = n"
    "lex_attrs (dropWhile (\<lambda>x. x \<noteq> CHR '' '') (tag_print n as)) = as"
    using lex_attrs_print [OF assms(2)] by simp_all
qed

lemma tag_start:
  assumes "xml_name n"
  shows "tag_print n as \<noteq> []" and "hd (tag_print n as) \<noteq> CHR ''/''"
proof -
  obtain c r where n: "n = c # r" using assms by (cases n) (auto simp: xml_name_def)
  then have "c \<noteq> CHR ''/''" using name_chars [OF assms] by auto
  then show "tag_print n as \<noteq> []" "hd (tag_print n as) \<noteq> CHR ''/''" by (simp_all add: n tag_print_def)
qed

lemma tag_end:
  assumes "xml_name n"
  shows "last (tag_print n as) \<noteq> CHR ''/''"
proof (cases as rule: rev_cases)
  case Nil
  have "last n \<in> set n" using assms by (simp add: xml_name_def)
  then show ?thesis using name_chars [OF assms] by (auto simp: tag_print_def Nil)
next
  case (snoc bs b)
  then show ?thesis by (simp add: tag_print_def attr_print_def)
qed

lemma lex_open:
  assumes "xml_name n" and "list_all (\<lambda>a. xml_name (fst a) \<and> list_all is_attr_char (snd a)) as"
  shows "lex_xml (''<'' @ tag_print n as @ ''>'' @ s) = StartElement n as # lex_xml s"
proof -
  have "\<forall>c \<in> set (tag_print n as). c \<noteq> CHR ''>''" using tag_chars [OF assms] by auto
  then show ?thesis using tag_parts [OF assms] tag_start [OF assms(1)] tag_end [OF assms(1)]
    by (simp add: takeWhile_append2 dropWhile_append2 lex_tag_def)
qed

lemma lex_empty:
  assumes "xml_name n" and "list_all (\<lambda>a. xml_name (fst a) \<and> list_all is_attr_char (snd a)) as"
  shows "lex_xml (''<'' @ tag_print n as @ ''/>'' @ s) = StartElement n as # EndElement n # lex_xml s"
proof -
  have "CHR ''>'' \<notin> set (tag_print n as @ ''/'')" using tag_chars [OF assms] by auto
  from until_sep(1,2) [OF this]
  have "takeWhile (\<lambda>x. x \<noteq> CHR ''>'') (tag_print n as @ CHR ''/'' # CHR ''>'' # s) = tag_print n as @ ''/''"
    "dropWhile (\<lambda>x. x \<noteq> CHR ''>'') (tag_print n as @ CHR ''/'' # CHR ''>'' # s) = CHR ''>'' # s" by simp_all
  then show ?thesis using tag_parts [OF assms] tag_start [OF assms(1)] by (simp add: lex_tag_def)
qed

lemma lex_close:
  assumes "xml_name n"
  shows "lex_xml (''</'' @ n @ ''>'' @ s) = EndElement n # lex_xml s"
proof -
  have "\<forall>c \<in> set n. c \<noteq> CHR ''>''" using name_chars [OF assms] by auto
  then show ?thesis by (simp add: takeWhile_append2 dropWhile_append2 lex_tag_def)
qed

lemma lex_text:
  assumes "xml_wf (Text t)"
  shows "lex_xml (t @ CHR ''<'' # s) = Characters t # lex_xml (CHR ''<'' # s)"
proof -
  have t: "\<forall>c \<in> set t. c \<noteq> CHR ''<''" using assms by (auto simp: list_all_iff is_text_char_def Let_def)
  obtain c r where cr: "t = c # r" using assms by (cases t) auto
  have "takeWhile (\<lambda>x. x \<noteq> CHR ''<'') (t @ CHR ''<'' # s) = t"
    "dropWhile (\<lambda>x. x \<noteq> CHR ''<'') (r @ CHR ''<'' # s) = CHR ''<'' # s"
    using t by (simp_all add: takeWhile_append2 dropWhile_append2 cr)
  then show ?thesis using t by (simp add: cr del: takeWhile.simps)
qed

lemma print_start: "\<not> is_text e \<Longrightarrow> \<exists>r. xml_print e = CHR ''<'' # r"
  by (cases e) auto

lemma lex_contents:
  assumes "\<And>c s. c \<in> set cs \<Longrightarrow> xml_wf c \<Longrightarrow> \<not> is_text c \<Longrightarrow> lex_xml (xml_print c @ s) = sax_events c @ lex_xml s"
    and "list_all xml_wf cs" and "no_two_texts cs"
  shows "lex_xml (concat (map xml_print cs) @ CHR ''<'' # s) = concat (map sax_events cs) @ lex_xml (CHR ''<'' # s)"
  using assms
proof (induction cs)
  case (Cons c cs)
  have rest: "\<exists>r. concat (map xml_print cs) @ CHR ''<'' # s = CHR ''<'' # r" if "is_text c"
    using that Cons.prems(3) print_start by (cases cs) fastforce+
  have IH: "lex_xml (concat (map xml_print cs) @ CHR ''<'' # s) = concat (map sax_events cs) @ lex_xml (CHR ''<'' # s)"
    using Cons.prems by (intro Cons.IH) (auto elim: no_two_texts.elims)
  show ?case
  proof (cases c)
    case (Text t)
    then obtain r where r: "concat (map xml_print cs) @ CHR ''<'' # s = CHR ''<'' # r" using rest by auto
    then show ?thesis using lex_text [of t r] Cons.prems(2) IH by (simp add: Text del: lex_xml.simps)
  next
    case (Element n as ds)
    then have "\<not> is_text c" by simp
    then have "lex_xml (xml_print c @ concat (map xml_print cs) @ CHR ''<'' # s) =
        sax_events c @ lex_xml (concat (map xml_print cs) @ CHR ''<'' # s)"
      using Cons.prems(1) [of c "concat (map xml_print cs) @ CHR ''<'' # s"] Cons.prems(2) by simp
    then show ?thesis using IH by simp
  qed
qed simp

lemma lex_element: "xml_wf e \<Longrightarrow> \<not> is_text e \<Longrightarrow> lex_xml (xml_print e @ s) = sax_events e @ lex_xml s"
proof (induction e arbitrary: s)
  case (Element n as cs)
  have w: "xml_name n" "list_all (\<lambda>a. xml_name (fst a) \<and> list_all is_attr_char (snd a)) as"
      "list_all xml_wf cs" "no_two_texts cs"
    using Element.prems by simp_all
  show ?case
  proof (cases "cs = []")
    case True
    then show ?thesis using lex_empty [OF w(1,2), of s] by simp
  next
    case False
    have "lex_xml (concat (map xml_print cs) @ CHR ''<'' # (''/'' @ n @ ''>'' @ s)) =
        concat (map sax_events cs) @ lex_xml (CHR ''<'' # (''/'' @ n @ ''>'' @ s))"
      by (rule lex_contents [OF _ w(3,4)]) (use Element.IH in auto)
    then show ?thesis
      using False lex_open [OF w(1,2), of "concat (map xml_print cs) @ ''</'' @ n @ ''>'' @ s"] lex_close [OF w(1), of s]
      by simp
  qed
qed simp

lemma ref_sax_conforming: "conforming ref_sax"
  unfolding conforming_def ref_sax_def using lex_element [where s = "[]"] by (simp add: butlast_append)

end
