(* ===== verification/Registry_Dump.thy ===== *)
theory Registry_Dump
  imports Commander Info_Xml Xml_Text
begin

text \<open>
  The \<open>dump\<close> command of \<open>context-provide\<close> (commandwatcher.cpp, \<open>AssocTree::dumpXML\<close>)
  writes the properties of the tool as a registry file; the registry reader of the subscriber
  library (infoxmlbackend.cpp, nanoxml.cpp) reads such files. This theory gives the document the
  command prints and shows that reading it back gives the properties with their types.
\<close>

section \<open>The document of a type\<close>

definition plain_text :: "string \<Rightarrow> bool" where
  "plain_text s = (s \<noteq> [] \<and> list_all is_text_char s \<and> qs_trimmed s = s)"

definition is_string :: "qvariant \<Rightarrow> bool" where
  "is_string v = (qv_type v = TString)"

fun no_two_strings :: "qvariant list \<Rightarrow> bool" where
  "no_two_strings (a # b # r) = (\<not> (is_string a \<and> is_string b) \<and> no_two_strings (b # r))"
| "no_two_strings _ = True"

text \<open>The trees that can be written without escaping: names are XML names and strings are plain
  trimmed text, of which no two are neighbours.\<close>

fun dumpable :: "qvariant \<Rightarrow> bool" where
  "dumpable (VString s) = plain_text s"
| "dumpable (VList (VString n # cs)) = (xml_name n \<and> no_two_strings cs \<and> list_all dumpable cs)"
| "dumpable _ = False"

text \<open>The content \<open>dumpXML\<close> prints at a level; \<open>acc\<close> is the character data since the last tag.\<close>

fun tree_items :: "nat \<Rightarrow> string \<Rightarrow> qvariant list \<Rightarrow> xml list" where
  "tree_items l acc [] = [Text (acc @ indent (l - 1))]"
| "tree_items l acc (VString s # cs) = tree_items l (acc @ indent l @ s @ ''\<newline>'') cs"
| "tree_items l acc (VList (VString n # ds) # cs) =
     Text (acc @ indent l) # Element n [] (if ds = [] then [] else tree_items (Suc l) ''\<newline>'' ds) #
     tree_items l ''\<newline>'' cs"
| "tree_items l acc (_ # cs) = tree_items l acc cs"

lemma tree_name_tag: "tree_name Q (VList (VString n # cs)) = n"
  by (simp add: tree_name_def tree_nameq_def qs_str_def)

lemma tree_items_not_Nil [simp]: "tree_items l acc cs \<noteq> []"
  by (induction l acc cs rule: tree_items.induct) auto

lemma tree_items_print:
  "list_all dumpable cs \<Longrightarrow>
     concat (map xml_print (tree_items l acc cs)) = acc @ concat (map (tree_dumpXML Q l) cs) @ indent (l - 1)"
proof (induction l acc cs rule: tree_items.induct)
  case (3 l acc n ds cs)
  then show ?case by (simp add: tree_name_tag tag_print_def)
qed (simp_all del: qv_toQString.simps)

lemma trimmed_Nil: "qs_trimmed s = [] \<longleftrightarrow> list_all is_space s"
  by (auto simp: qs_trimmed_def dropWhile_eq_Nil_conv list_all_iff dest: set_dropWhileD)
    (metis dropWhile_eq_Nil_conv dropWhile_idem list_all_iff set_rev)

lemma trimmed_left: "list_all is_space w \<Longrightarrow> qs_trimmed (w @ s) = qs_trimmed s"
  by (simp add: qs_trimmed_def list_all_iff dropWhile_append2)

lemma trimmed_right: "list_all is_space w \<Longrightarrow> qs_trimmed (s @ w) = qs_trimmed s"
proof (cases "list_all is_space s")
  case True
  then show "list_all is_space w \<Longrightarrow> qs_trimmed (s @ w) = qs_trimmed s"
    using trimmed_Nil [of s] trimmed_Nil [of "s @ w"] by simp
next
  case False
  then obtain c where c: "c \<in> set s" "\<not> is_space c" by (auto simp: list_all_iff)
  assume w: "list_all is_space w"
  have "dropWhile is_space (rev w @ t) = dropWhile is_space t" for t
    by (rule dropWhile_append2) (use w in \<open>simp add: list_all_iff\<close>)
  then show "qs_trimmed (s @ w) = qs_trimmed s" using c by (simp add: qs_trimmed_def dropWhile_append1)
qed

lemma indent_space: "list_all is_space (indent l)" "list_all is_text_char (indent l)"
  by (induction l) (auto simp: indent_def is_space_def is_text_char_def)

lemma newline_char: "is_space CHR 0x0A" "is_text_char CHR 0x0A"
  by (simp_all add: is_space_def is_text_char_def)

text \<open>Reading the content back gives the trees, however the line breaks and indents fall.\<close>

lemma tree_items_encode:
  "list_all dumpable cs \<Longrightarrow> no_two_strings cs \<Longrightarrow> qs_trimmed acc = [] \<or> cs = [] \<or> \<not> is_string (hd cs) \<Longrightarrow>
     concat (map nano_encode (tree_items l acc cs)) =
       (if qs_trimmed acc = [] then [] else [VString (qs_trimmed acc)]) @ cs"
proof (induction l acc cs rule: tree_items.induct)
  case (1 l acc)
  then show ?case by (simp add: trimmed_right indent_space)
next
  case (2 l acc s cs)
  have s: "plain_text s" using 2 by simp
  have acc: "list_all is_space acc" using 2(4) by (simp add: is_string_def trimmed_Nil [symmetric])
  have "qs_trimmed (acc @ indent l @ s @ ''\<newline>'') = qs_trimmed ((acc @ indent l) @ s @ ''\<newline>'')" by simp
  also have "\<dots> = qs_trimmed (s @ ''\<newline>'')"
    using acc by (simp only: list_all_append indent_space trimmed_left)
  also have "\<dots> = s" using s trimmed_right [of "''\<newline>''" s] by (simp add: plain_text_def newline_char)
  finally have t: "qs_trimmed (acc @ indent l @ s @ ''\<newline>'') = s" .
  have "cs = [] \<or> \<not> is_string (hd cs)" "no_two_strings cs" using 2(3) by (cases cs; simp add: is_string_def)+
  then have "concat (map nano_encode (tree_items l (acc @ indent l @ s @ ''\<newline>'') cs)) = VString s # cs"
    using 2(1,2) s t by (simp add: plain_text_def)
  then show ?case using acc by (simp add: trimmed_Nil)
next
  case (3 l acc n ds cs)
  have nl: "qs_trimmed ''\<newline>'' = []" by (simp add: trimmed_Nil newline_char)
  have "no_two_strings cs" using 3(4) by (cases cs) simp_all
  then have "concat (map nano_encode (tree_items l ''\<newline>'' cs)) = cs" using 3(2,3) nl by simp
  moreover have "concat (map nano_encode (if ds = [] then [] else tree_items (Suc l) ''\<newline>'' ds)) = ds"
    using 3(1,3) nl by simp
  ultimately show ?case by (simp add: trimmed_right indent_space)
qed simp_all

lemma tree_items_wf:
  "list_all dumpable cs \<Longrightarrow> list_all is_text_char acc \<Longrightarrow> acc \<noteq> [] \<Longrightarrow>
     list_all xml_wf (tree_items l acc cs) \<and> no_two_texts (tree_items l acc cs)"
proof (induction l acc cs rule: tree_items.induct)
  case (2 l acc s cs)
  then show ?case by (simp add: plain_text_def indent_space newline_char)
next
  case (3 l acc n ds cs)
  then show ?case
    by (cases "tree_items l ''\<newline>'' cs") (auto simp: indent_space newline_char)
qed (simp_all add: indent_space)

section \<open>The dumped document\<close>

definition dump_doc_text :: string where
  "dump_doc_text = ''A phony but very flexible property.''"

definition key_doc :: "key \<Rightarrow> type_info \<Rightarrow> xml" where
  "key_doc k t = Element ''key'' [(''name'', k)]
     [Text ''\<newline>    '', Element ''type'' [] (tree_items 3 ''\<newline>'' [t]), Text ''\<newline>    '',
      Element ''doc'' [] [Text dump_doc_text], Text ''\<newline>  '']"

definition bus_text :: "commander \<Rightarrow> string" where
  "bus_text s = (if cm_busType s = SystemBus then ''system'' else ''session'')"

definition dump_doc :: "commander \<Rightarrow> xml" where
  "dump_doc s = Element ''provider'' [(''bus'', bus_text s), (''service'', cm_busName s)]
     (concat (map (\<lambda>k. [Text ''\<newline>  '', key_doc k (cm_type k s)]) (cm_props s)) @ [Text ''\<newline>''])"

definition dump_safe :: "commander \<Rightarrow> bool" where
  "dump_safe s = (cm_busName s \<noteq> [] \<and> list_all is_attr_char (cm_busName s) \<and> distinct (cm_props s) \<and>
     list_all (\<lambda>k. list_all is_attr_char k \<and> dumpable (cm_type k s)) (cm_props s))"

lemma key_doc_print:
  assumes "dumpable t"
  shows "xml_print (key_doc k t) = ''<key name=\"'' @ k @ ''\">\<newline>    <type>\<newline>'' @ tree_dumpXML Q 3 t @
    ''    </type>\<newline>    <doc>A phony but very flexible property.</doc>\<newline>  </key>''"
proof -
  have "concat (map xml_print (tree_items 3 ''\<newline>'' [t])) = ''\<newline>'' @ tree_dumpXML Q 3 t @ ''    ''"
    using tree_items_print [of "[t]" 3 "''\<newline>''" Q] assms by (simp add: indent_def eval_nat_numeral)
  then show ?thesis by (simp add: key_doc_def tag_print_def attr_print_def dump_doc_text_def del: tree_dumpXML.simps)
qed

lemma dump_file_print:
  assumes "dump_safe s"
  shows "dump_file E s = xml_prolog @ xml_print (dump_doc s) @ ''\<newline>''"
proof -
  have "concat (map xml_print (concat (map (\<lambda>k. [Text ''\<newline>  '', key_doc k (cm_type k s)]) ks) @ [Text ''\<newline>''])) @ x =
     ''\<newline>'' @ concat (map (\<lambda>k. ''  <key name=\"'' @ k @ ''\">\<newline>    <type>\<newline>'' @
         tree_dumpXML (ce_qt E) 3 (cm_type k s) @
         ''    </type>\<newline>    <doc>A phony but very flexible property.</doc>\<newline>  </key>\<newline>'') ks) @ x"
    if "set ks \<subseteq> set (cm_props s)" for ks x
    using that assms
  proof (induction ks)
    case (Cons k ks)
    then have "dumpable (cm_type k s)" by (auto simp: dump_safe_def list_all_iff)
    from key_doc_print [OF this, of k "ce_qt E"] Cons show ?case by simp
  qed simp
  from this [of "cm_props s" "''</provider>''"] show ?thesis
    by (simp add: dump_file_def dump_doc_def xml_prolog_def tag_print_def attr_print_def bus_text_def del: append_assoc)
qed

lemma no_two_texts_keys:
  "no_two_texts (concat (map (\<lambda>k. [Text a, Element n (as k) (cs k)]) ks) @ [Text b])"
proof (induction ks)
  case (Cons k ks)
  then show ?case by (cases ks) simp_all
qed simp

lemma dump_doc_wf: "dump_safe s \<Longrightarrow> xml_wf (dump_doc s)"
proof -
  assume s: "dump_safe s"
  have names: "xml_name ''key''" "xml_name ''name''" "xml_name ''type''" "xml_name ''doc''" "xml_name ''provider''"
      "xml_name ''bus''" "xml_name ''service''" by code_simp+
  have texts: "list_all is_text_char ''\<newline>    ''" "list_all is_text_char ''\<newline>  ''" "list_all is_text_char ''\<newline>''"
      "list_all is_text_char dump_doc_text" "dump_doc_text \<noteq> []" "list_all is_attr_char (bus_text s)"
    by (code_simp, code_simp, code_simp, code_simp, code_simp) (simp add: bus_text_def; code_simp)
  have "xml_wf (key_doc k (cm_type k s))" if "k \<in> set (cm_props s)" for k
  proof -
    have "dumpable (cm_type k s)" "list_all is_attr_char k" using that s by (simp_all add: dump_safe_def list_all_iff)
    then show ?thesis using names texts tree_items_wf [of "[cm_type k s]" "''\<newline>''" 3]
      by (simp add: key_doc_def)
  qed
  moreover have "no_two_texts (concat (map (\<lambda>k. [Text ''\<newline>  '', key_doc k (cm_type k s)]) (cm_props s)) @ [Text ''\<newline>''])"
    unfolding key_doc_def by (rule no_two_texts_keys)
  ultimately show ?thesis using s names texts
    by (auto simp: dump_doc_def dump_safe_def list_all_iff)
qed

definition key_tree :: "key \<Rightarrow> type_info \<Rightarrow> assoc_tree" where
  "key_tree k t = VList [VString ''key'', VList [VString ''name'', VString k], VList [VString ''type'', t],
     VList [VString ''doc'', VString dump_doc_text]]"

definition dump_tree :: "commander \<Rightarrow> assoc_tree" where
  "dump_tree s = VList (VString ''provider'' # VList [VString ''bus'', VString (bus_text s)] #
     VList [VString ''service'', VString (cm_busName s)] # map (\<lambda>k. key_tree k (cm_type k s)) (cm_props s))"

lemma key_doc_encode: "dumpable t \<Longrightarrow> nano_encode (key_doc k t) = [key_tree k t]"
proof -
  assume t: "dumpable t"
  have ws: "qs_trimmed ''\<newline>'' = []" "qs_trimmed ''\<newline>    '' = []" "qs_trimmed ''\<newline>  '' = []"
      "qs_trimmed dump_doc_text = dump_doc_text" "dump_doc_text \<noteq> []" by code_simp+
  have "concat (map nano_encode (tree_items 3 ''\<newline>'' [t])) = [t]"
    using tree_items_encode [of "[t]" "''\<newline>''" 3] t ws by simp
  then show ?thesis using ws by (simp add: key_doc_def key_tree_def attr_tree_def)
qed

lemma dump_doc_encode: "dump_safe s \<Longrightarrow> nano_encode (dump_doc s) = [dump_tree s]"
proof -
  assume s: "dump_safe s"
  have ws: "qs_trimmed ''\<newline>'' = []" "qs_trimmed ''\<newline>  '' = []" by code_simp+
  have "concat (map nano_encode (concat (map (\<lambda>k. [Text ''\<newline>  '', key_doc k (cm_type k s)]) ks) @ [Text ''\<newline>''])) =
      map (\<lambda>k. key_tree k (cm_type k s)) ks" if "set ks \<subseteq> set (cm_props s)" for ks
    using that
  proof (induction ks)
    case (Cons k ks)
    then have "dumpable (cm_type k s)" using s by (simp add: dump_safe_def list_all_iff)
    then show ?case using Cons ws by (simp add: key_doc_encode)
  qed (simp add: ws)
  then show ?thesis by (simp add: dump_doc_def dump_tree_def attr_tree_def)
qed

section \<open>Reading it back\<close>

lemma tree_value_child:
  "tree_value Q (VList (h # xs)) [n] = (case List.find (tagged Q n) xs of None \<Rightarrow> VInvalid | Some c \<Rightarrow> tree_value0 c)"
  by (simp add: tree_value_def tree_node_path_def tree_node_VList tree_value0_def split: option.splits)

lemma key_tree_data:
  "tree_name Q (key_tree k t) = ''key''"
  "xb_keyDataOf Q (key_tree k t) = \<lparr>ik_name = k, ik_typeInfo = ti_ensureNewTypes Q t, ik_doc = dump_doc_text, ik_deprecated = False\<rparr>"
  by (simp_all add: key_tree_def tree_name_tag xb_keyDataOf_def tree_value_child tree_node_VList tagged_string
      tree_value0_def qv_isValid_def del: qv_toQString.simps)

lemma dump_tree_provider:
  "cm_busName s \<noteq> [] \<Longrightarrow> xb_providerOf Q (dump_tree s) =
     Some \<lparr>pi_plugin = ''contextkit-dbus'', pi_construction = bus_text s @ '':'' @ cm_busName s\<rparr>"
proof -
  assume b: "cm_busName s \<noteq> []"
  have "List.find (tagged Q n) (map (\<lambda>k. key_tree k (cm_type k s)) ks) = None" if "n \<noteq> ''key''" for n ks
    using that by (auto simp: find_None_iff key_tree_def tagged_string)
  then show ?thesis using b
    by (simp add: xb_providerOf_def dump_tree_def tree_value_child tagged_string tree_value0_def bus_text_def Let_def
        qv_toString_def [of Q VInvalid] qs_str_def)
qed

lemma dump_decls:
  assumes "conforming sax" and "dump_safe s" and "fs_xml F path = sax (dump_file E s)"
  shows "nx_initAndParse (fs_xml F path) = Some \<lparr>nr_failed = False, nr_nspace = [], nr_result = dump_tree s\<rparr>"
    and "xml_decls Q F path = map (\<lambda>k. (key_tree k (cm_type k s), dump_tree s)) (cm_props s)"
proof -
  have "\<not> is_text (dump_doc s)" by (simp add: dump_doc_def)
  then have x: "fs_xml F path = (sax_events (dump_doc s), True)"
    using assms(1) dump_doc_wf [OF assms(2)] unfolding assms(3) dump_file_print [OF assms(2)] conforming_def by blast
  have "nx_run (sax_events (dump_doc s)) nx_init = Some (nx_init\<lparr>nx_root := hd (nano_encode (dump_doc s))\<rparr>)"
    unfolding dump_doc_def by (rule nx_run_document)
  then show p: "nx_initAndParse (fs_xml F path) = Some \<lparr>nr_failed = False, nr_nspace = [], nr_result = dump_tree s\<rparr>"
    by (simp add: x nx_initAndParse_def dump_doc_encode [OF assms(2)] nx_init_def)
  have "filter (\<lambda>k. tree_name Q k = ''key'') (tree_nodes (dump_tree s)) = map (\<lambda>k. key_tree k (cm_type k s)) (cm_props s)"
    by (simp add: dump_tree_def tree_nodes_def tree_name_tag filter_map comp_def key_tree_data)
  then show "xml_decls Q F path = map (\<lambda>k. (key_tree k (cm_type k s), dump_tree s)) (cm_props s)"
    by (simp add: xml_decls_def p file_decls_def keys_of_def comp_def) (simp add: dump_tree_def)
qed

text \<open>C16: what the provider tool dumps, the registry reads. For a parser that conforms to XML, a
  dumped file that is the only declaration in the registry directory gives a registry with exactly
  the keys the tool provides. Each of them has the type the tool has for it (in its new name), the
  documentation the tool writes, is not deprecated, and has one provider, the D-Bus service of the
  tool, for all names, types and keys that need no escaping.\<close>

theorem dump_reads_back:
  assumes "conforming sax" and "dump_safe s" and "fs_xml F path = sax (dump_file E s)"
    and "\<not> fs_exists F (coreDeclPath F)" and "fs_entries F (registryPath F) = Some [path]"
  shows "\<exists>b. xb_new Q F = Some b \<and> distinct (xb_listKeys b) \<and> set (xb_listKeys b) = set (cm_props s) \<and>
    (\<forall>k \<in> set (cm_props s). xb_keyDeclared k b \<and> xb_typeInfoForKey k b = ti_ensureNewTypes Q (cm_type k s) \<and>
       xb_docForKey k b = dump_doc_text \<and> \<not> xb_keyDeprecated k b \<and>
       xb_providersForKey k b = [\<lparr>pi_plugin = ''contextkit-dbus'', pi_construction = bus_text s @ '':'' @ cm_busName s\<rparr>])"
proof -
  let ?d = "\<lambda>k. (key_tree k (cm_type k s), dump_tree s)"
  note d = dump_decls [OF assms(1-3)]
  have "readKeyDataFromXml Q F path z \<noteq> None" for z
    unfolding readKeyDataFromXml_def d(1) by (simp add: Let_def) (simp add: dump_tree_def)
  then obtain z where z: "readKeyDataFromXml Q F path xb_init = Some z" by blast
  have s0: "xb_init\<lparr>xb_keyData := [], xb_keyProviders := [], xb_countOfFiles := 0, xb_watched := []\<rparr> = xb_init"
    by (simp add: xb_init_def)
  obtain b where b: "xb_new Q F = Some b"
    using assms(4,5) z by (simp add: xb_new_def regenerateKeyDataList_def Let_def s0)
  have ds: "registry_decls Q F = map ?d (cm_props s)" using assms(4,5) d(2) by (simp add: registry_decls_def)
  have key: "decl_key Q (?d k) = k" for k by (simp add: decl_key_def decl_data_def key_tree_data)
  have one: "decls_for Q k (map ?d ks) = [?d k]" if "k \<in> set ks" "distinct ks" for k ks
    using that by (induction ks) (auto simp: decls_for_def key filter_empty_conv)
  note ans = regenerate_answers [OF b [unfolded xb_new_def], unfolded ds]
  have busName_ok: "cm_busName s \<noteq> []" "distinct (cm_props s)" using assms(2) by (simp_all add: dump_safe_def)
  have "xb_keyDeclared k b \<and> xb_typeInfoForKey k b = ti_ensureNewTypes Q (cm_type k s) \<and>
       xb_docForKey k b = dump_doc_text \<and> \<not> xb_keyDeprecated k b \<and>
       xb_providersForKey k b = [\<lparr>pi_plugin = ''contextkit-dbus'', pi_construction = bus_text s @ '':'' @ cm_busName s\<rparr>]"
    if k: "k \<in> set (cm_props s)" for k
    using ans [of k] one [OF k busName_ok(2)] k dump_tree_provider [OF busName_ok(1), of Q]
    by (auto simp: decl_data_def key_tree_data decl_providers_def List.map_filter_simps image_iff key)
  moreover have "set (xb_listKeys b) = set (cm_props s)" using ans by (simp add: image_image key)
  ultimately show ?thesis using b ans by blast
qed

definition dump_sample :: commander where
  "dump_sample = \<lparr>cm_busName = ''org.x'', cm_busType = SessionBus, cm_started = True, cm_backend = sb_new ''org.x'',
     cm_types = [(''A.b'', VString ''integer''),
       (''C.d'', VList [VString ''list'', VList [VString ''type'', VString ''number'']])],
     cm_props = [''A.b'', ''C.d''], cm_proxies = []\<rparr>"

definition dump_env :: cm_env where
  "dump_env = \<lparr>ce_qt = qt_ref, ce_dbus = all_granted, ce_now = 1, ce_json = (\<lambda>_. None), ce_xml = ref_sax,
     ce_debug = (\<lambda>_. []), ce_core = VInvalid,
     ce_registry = \<lparr>io_name = [], io_listKeys = [], io_typeInfoForKey = (\<lambda>_. VInvalid), io_docForKey = (\<lambda>_. []),
       io_keyDeclared = (\<lambda>_. False), io_keyDeprecated = (\<lambda>_. False), io_providersForKey = (\<lambda>_. [])\<rparr>\<rparr>"

definition dump_fs :: registry_fs where
  "dump_fs = \<lparr>fs_env = (\<lambda>_. None), fs_defaultProviders = ''/p'', fs_defaultCore = ''/core'', fs_exists = (\<lambda>_. False),
     fs_entries = (\<lambda>_. Some [''/p/d.context'']), fs_xml = (\<lambda>_. ref_sax (dump_file dump_env dump_sample))\<rparr>"

lemma dump_reads_back_witness:
  "\<exists>b. xb_new qt_ref dump_fs = Some b \<and>
     xb_typeInfoForKey ''C.d'' b = VList [VString ''list'', VList [VString ''type'', VString ''number'']]"
proof -
  have s: "dump_safe dump_sample" by code_simp
  have f: "fs_xml dump_fs ''/p/d.context'' = ref_sax (dump_file dump_env dump_sample)" by (simp add: dump_fs_def)
  have p: "\<not> fs_exists dump_fs (coreDeclPath dump_fs)" "fs_entries dump_fs (registryPath dump_fs) = Some [''/p/d.context'']"
    by (simp_all add: dump_fs_def)
  have t: "ti_ensureNewTypes qt_ref (cm_type ''C.d'' dump_sample) =
      VList [VString ''list'', VList [VString ''type'', VString ''number'']]" "''C.d'' \<in> set (cm_props dump_sample)"
    by code_simp+
  show ?thesis using dump_reads_back [OF ref_sax_conforming s f p, of qt_ref] t by fastforce
qed

text \<open>The command writes names and values as they are: a bus name or key with a character that
  XML reserves gives text that is not the text of the document it stands for.\<close>

lemma dump_not_escaped:
  "dump_file dump_env (dump_sample\<lparr>cm_busName := [CHR ''o'', CHR 0x22], cm_props := []\<rparr>) =
     ''<?xml version=\"1.0\"?>\<newline><provider bus=\"session\" service=\"o\"\">\<newline></provider>\<newline>''"
  by (simp add: dump_file_def dump_sample_def)

end
