(* ===== verification/Provider_Choice.thy ===== *)
theory Provider_Choice
  imports Property_System
begin

text \<open>
  Which providers a handle uses, over whole runs of the subscriber library. A handle uses the
  commander alone while the commander is present and the providers its registry entry lists
  otherwise; while the presence of the commander is not yet known it may still use none. The
  invariant \<open>chosen\<close> says so for every handle; the only operation that leaves it is
  \<open>ignoreCommander\<close>, which does not update the handles that exist.
\<close>

definition has_handle :: "key \<Rightarrow> sys \<Rightarrow> bool" where
  "has_handle k sy = (map_of (sy_handles sy) k \<noteq> None)"

definition all_listen :: "sys \<Rightarrow> bool" where
  "all_listen sy = (\<forall>k. has_handle k sy \<longrightarrow> h_listens (sy_handle k sy) = commandingEnabled sy)"

definition picked :: "key \<Rightarrow> sys \<Rightarrow> bool" where
  "picked k sy = (myProviders (sy_handle k sy) = wanted_providers sy k \<or>
     commandingEnabled sy \<and> servicePresent (commanderListener sy) = Unknown \<and> myProviders (sy_handle k sy) = [])"

definition chosen :: "sys_env \<Rightarrow> sys \<Rightarrow> bool" where
  "chosen E sy = (all_listen sy \<and>
     (\<forall>k. has_handle k sy \<longrightarrow> picked k sy \<and> (commandingEnabled sy \<longrightarrow> en_commanding E)) \<and>
     (\<forall>c \<in> set (sy_props sy). has_handle (cp_key c) sy))"

text \<open>What every operation keeps.\<close>

definition keeps :: "sys_env \<Rightarrow> sys \<Rightarrow> sys \<Rightarrow> bool" where
  "keeps E sy sy' = (chosen E sy \<longrightarrow> chosen E sy' \<and> sy_registry sy' = sy_registry sy \<and>
     map cp_key (sy_props sy') = map cp_key (sy_props sy) \<and> (\<forall>k. has_handle k sy \<longrightarrow> has_handle k sy'))"

definition same_picks :: "sys \<Rightarrow> sys \<Rightarrow> bool" where
  "same_picks sy sy' = (same_choice sy sy' \<and> map cp_key (sy_props sy') = map cp_key (sy_props sy) \<and>
     (\<forall>k. has_handle k sy' = has_handle k sy \<and> myProviders (sy_handle k sy') = myProviders (sy_handle k sy)))"

lemma keeps_refl [simp]: "keeps E sy sy"
  by (simp add: keeps_def)

lemma keeps_trans [trans]: "keeps E a b \<Longrightarrow> keeps E b c \<Longrightarrow> keeps E a c"
  by (auto simp: keeps_def)

lemma keeps_chain: "keeps E sy (fst (f sy)) \<Longrightarrow> (\<And>sy1. keeps E sy1 (fst (g sy1))) \<Longrightarrow>
    keeps E sy (fst (case f sy of (sy1, o1) \<Rightarrow> case g sy1 of (sy2, o2) \<Rightarrow> (sy2, o1 @ o2)))"
  by (auto simp: case_prod_unfold intro: keeps_trans)

lemma same_picks_trans: "same_picks a b \<Longrightarrow> same_picks b c \<Longrightarrow> same_picks a c"
  by (auto simp: same_picks_def dest: same_choice_trans)

lemma same_picks_keeps: "same_picks sy sy' \<Longrightarrow> keeps E sy sy'"
proof -
  assume s: "same_picks sy sy'"
  then have p: "picked k sy' = picked k sy" for k
    using same_choice_wanted [of sy sy' k] by (simp add: same_picks_def picked_def same_choice_def)
  have c: "(\<forall>c \<in> set (sy_props sy'). has_handle (cp_key c) sy) = (\<forall>c \<in> set (sy_props sy). has_handle (cp_key c) sy)"
  proof -
    have "cp_key ` set (sy_props sy') = cp_key ` set (sy_props sy)"
      using s by (metis same_picks_def set_map)
    then show ?thesis by (metis (no_types, lifting) image_iff)
  qed
  show ?thesis using s p c by (simp add: keeps_def chosen_def same_picks_def all_listen_def same_choice_def)
qed

lemma has_handle_put [simp]: "has_handle l (sy_put_handle k h sy) = (l = k \<or> has_handle l sy)"
  by (simp add: has_handle_def sy_put_handle_def)

lemma same_picks_frame:
  assumes "sy_handles sy' = sy_handles sy" and "commandingEnabled sy' = commandingEnabled sy"
    and "commanderListener sy' = commanderListener sy" and "sy_registry sy' = sy_registry sy"
    and "map cp_key (sy_props sy') = map cp_key (sy_props sy)"
  shows "same_picks sy sy'"
  using assms by (simp add: same_picks_def same_choice_def has_handle_def sy_handle_def)

lemma same_picks_put_handle:
  assumes "has_handle k sy" and "h_listens h = h_listens (sy_handle k sy)"
    and "myProviders h = myProviders (sy_handle k sy)"
  shows "same_picks sy (sy_put_handle k h sy)"
  using assms by (simp add: same_picks_def same_choice_def)

lemma subscribeAll_picks: "h_subscribeAll k is pend sy = (sy', pend') \<Longrightarrow> same_picks sy sy'"
  by (rule same_picks_frame) (auto dest: subscribeAll_frame)

lemma unsubscribeAll_picks: "same_picks sy (h_unsubscribeAll k is sy)"
  by (rule same_picks_frame) simp_all

lemma onValueChanged_picks: "has_handle k sy \<Longrightarrow> same_picks sy (fst (h_onValueChanged E k sy))"
  by (auto simp: h_onValueChanged_def Let_def intro: same_picks_put_handle same_picks_frame)

lemma finished_picks: "has_handle k sy \<Longrightarrow> same_picks sy (setSubscribeFinished i k sy)"
  by (simp add: setSubscribeFinished_def Let_def same_picks_put_handle)

section \<open>Updating the providers of a handle\<close>

lemma updateProvider_has: "has_handle l (fst (updateProvider E k sy)) = (l = k \<or> has_handle l sy)"
    and updateProvider_props: "sy_props (fst (updateProvider E k sy)) = sy_props sy"
proof -
  define new where "new = (if commandingEnabled sy \<and> isServicePresent (commanderListener sy) = Present
      then [commanderInfo] else sy_registry sy k)"
  define sy1 where "sy1 = (if commandingEnabled sy \<and> isServicePresent (commanderListener sy) = Present
      then sy_put commanderInfo (clearValues (sy_provider commanderInfo sy)) sy else fold sy_instance new sy)"
  define h where "h = sy_handle k sy1"
  obtain sy3 pend where 3: "h_subscribeAll k new [] (h_unsubscribeAll k (myProviders h) sy1) = (sy3, pend)"
    by fastforce
  define sy4 where "sy4 = sy_put_handle k (h\<lparr>pendingSubscriptions := pend, myProviders := new\<rparr>) sy3"
  have 1: "sy_handles sy1 = sy_handles sy" "sy_props sy1 = sy_props sy" by (simp_all add: sy1_def)
  have 4: "has_handle m sy4 = (m = k \<or> has_handle m sy)" "sy_props sy4 = sy_props sy" for m
    using subscribeAll_frame [OF 3] 1 by (simp_all add: sy4_def has_handle_def [of _ sy3]) (simp add: has_handle_def)
  have v: "has_handle m (fst (h_onValueChanged E k sy4)) = has_handle m sy4"
      "sy_props (fst (h_onValueChanged E k sy4)) = sy_props sy4" for m
    using onValueChanged_picks [of k sy4 E] onValueChanged_view [of sy4 E k] 4(1)
    by (simp_all add: same_picks_def same_view_def)
  have up: "updateProvider E k sy = (if subscribeCount h > 0 then (if pend = [] then h_onValueChanged E k sy4 else (sy4, []))
      else (sy_put_handle k (h\<lparr>myProviders := new\<rparr>) sy1, []))"
    unfolding updateProvider_def Let_def
    by (simp only: new_def [symmetric] sy1_def [symmetric] h_def [symmetric] 3 prod.case sy4_def [symmetric])
  show "has_handle l (fst (updateProvider E k sy)) = (l = k \<or> has_handle l sy)"
    using v 4 1 by (simp add: up) (simp add: has_handle_def)
  show "sy_props (fst (updateProvider E k sy)) = sy_props sy" using v 4 1 by (simp add: up)
qed

lemma updateProvider_keeps: "has_handle k sy \<Longrightarrow> keeps E sy (fst (updateProvider E k sy))"
proof -
  assume k: "has_handle k sy"
  note c = updateProvider_choice [of sy E k]
  have "picked l (fst (updateProvider E k sy)) \<longleftrightarrow> l = k \<or> picked l sy" for l
    using c [of l] same_choice_wanted [of sy "fst (updateProvider E k sy)" l] by (auto simp: picked_def same_choice_def)
  then show ?thesis
    using c k by (auto simp: keeps_def chosen_def all_listen_def updateProvider_has updateProvider_props same_choice_def)
qed

section \<open>The commander comes and goes\<close>

lemma updateAll_frame:
  "has_handle l (fst (sy_updateAll E ks sy)) = (has_handle l sy \<or> l \<in> set ks \<and> h_listens (sy_handle l sy)) \<and>
   sy_props (fst (sy_updateAll E ks sy)) = sy_props sy"
proof (induction ks arbitrary: sy)
  case (Cons k ks)
  define r where "r = (if h_listens (sy_handle k sy) then updateProvider E k sy else (sy, []))"
  have 1: "has_handle l (fst r) = (has_handle l sy \<or> l = k \<and> h_listens (sy_handle k sy))" "sy_props (fst r) = sy_props sy"
      "h_listens (sy_handle l (fst r)) = h_listens (sy_handle l sy)"
    using updateProvider_choice [of sy E k] by (auto simp: r_def updateProvider_has updateProvider_props same_choice_def)
  have "fst (sy_updateAll E (k # ks) sy) = fst (sy_updateAll E ks (fst r))"
    unfolding sy_updateAll.simps r_def [symmetric] by (simp add: case_prod_unfold)
  then show ?case using Cons.IH [of "fst r"] 1 by auto
qed simp

text \<open>After the signals \<open>os\<close> of the listener: either nothing was announced and the handles are as
  they were, or every handle that listens uses the providers it should.\<close>

definition heard :: "bool \<Rightarrow> sys \<Rightarrow> sys \<Rightarrow> bool" where
  "heard announced sy sy' = (same_choice sy sy' \<and> sy_props sy' = sy_props sy \<and> (\<forall>k. has_handle k sy' = has_handle k sy) \<and>
     (\<forall>k. myProviders (sy_handle k sy') = (if announced \<and> has_handle k sy \<and> h_listens (sy_handle k sy)
        then wanted_providers sy k else myProviders (sy_handle k sy))))"

lemma heard_none: "heard False sy sy"
  by (simp add: heard_def same_choice_def)

lemma heard_trans: "heard a sy sy1 \<Longrightarrow> heard b sy1 sy2 \<Longrightarrow> heard (a \<or> b) sy sy2"
  by (auto simp: heard_def same_choice_def wanted_providers_def)

lemma heard_updateAll: "heard True sy (fst (sy_updateAll E (amap_keys (sy_handles sy)) sy))"
proof -
  have k: "l \<in> set (amap_keys (sy_handles sy)) \<longleftrightarrow> has_handle l sy" for l
    by (auto simp: amap_keys_def has_handle_def map_of_eq_None_iff)
  show ?thesis
    using updateAll_choice [of sy E "amap_keys (sy_handles sy)"] updateAll_frame [of _ E "amap_keys (sy_handles sy)" sy]
    by (auto simp: heard_def k)
qed

lemma heard_signals: "heard (\<exists>x \<in> set os. nl_announced x \<noteq> None) sy (fst (sy_on_listener E os sy))"
proof (induction os arbitrary: sy)
  case (Cons x xs)
  define sy1 where "sy1 = fst (case x of NameHasOwnerCall n \<Rightarrow> (sy, [ListenerCall (NameHasOwnerCall n)])
    | _ \<Rightarrow> sy_updateAll E (amap_keys (sy_handles sy)) sy)"
  have "heard (nl_announced x \<noteq> None) sy sy1"
    by (cases x) (simp_all add: sy1_def heard_updateAll heard_none)
  from heard_trans [OF this Cons.IH [of sy1]] show ?case
    by (simp add: sy1_def case_prod_unfold)
qed (simp add: heard_none)

lemma unannounced_presence:
  "nl_step e l = (l', os) \<Longrightarrow> \<forall>x \<in> set os. nl_announced x = None \<Longrightarrow> servicePresent l' = servicePresent l"
  by (cases e) (auto simp: nl_defs Let_def split: if_splits option.splits)

lemma listener_event_heard:
  fixes E e sy
  defines "sy' \<equiv> fst (sy_listener_event E e sy)"
  shows "commandingEnabled sy' = commandingEnabled sy \<and> sy_registry sy' = sy_registry sy \<and> sy_props sy' = sy_props sy \<and>
    (\<forall>k. has_handle k sy' = has_handle k sy \<and> h_listens (sy_handle k sy') = h_listens (sy_handle k sy)) \<and>
    commanderListener sy' = fst (nl_step e (commanderListener sy)) \<and>
    (servicePresent (commanderListener sy') = servicePresent (commanderListener sy) \<and>
       (\<forall>k. myProviders (sy_handle k sy') = myProviders (sy_handle k sy)) \<or>
     (\<forall>k. myProviders (sy_handle k sy') = (if has_handle k sy \<and> h_listens (sy_handle k sy) then wanted_providers sy' k
        else myProviders (sy_handle k sy))))"
proof -
  obtain l os where l: "nl_step e (commanderListener sy) = (l, os)" by fastforce
  let ?sy1 = "sy\<lparr>commanderListener := l\<rparr>"
  have h: "heard (\<exists>x \<in> set os. nl_announced x \<noteq> None) ?sy1 sy'"
    unfolding sy'_def sy_listener_event_def l prod.case by (rule heard_signals)
  have f: "has_handle k ?sy1 = has_handle k sy" "sy_handle k ?sy1 = sy_handle k sy" for k
    by (simp_all add: has_handle_def sy_handle_def)
  have w: "wanted_providers ?sy1 k = wanted_providers sy' k" for k
    using h same_choice_wanted [of ?sy1 sy' k] by (simp add: heard_def)
  show ?thesis
  proof (cases "\<exists>x \<in> set os. nl_announced x \<noteq> None")
    case True
    then show ?thesis using h f w l by (simp add: heard_def same_choice_def)
  next
    case False
    then show ?thesis using h f l unannounced_presence [OF l] by (simp add: heard_def same_choice_def)
  qed
qed

lemma listener_event_keeps: "keeps E sy (fst (sy_listener_event E e sy))"
proof -
  have u: "picked k (fst (sy_listener_event E e sy))"
    if "all_listen sy" "has_handle k sy" "picked k sy" for k
    using that listener_event_heard [of E e sy]
    by (auto simp: all_listen_def picked_def wanted_providers_def)
  show ?thesis
    using listener_event_heard [of E e sy] u by (auto simp: keeps_def chosen_def all_listen_def)
qed

section \<open>A new handle\<close>

definition chosen_but :: "key \<Rightarrow> sys_env \<Rightarrow> sys \<Rightarrow> bool" where
  "chosen_but k E sy = (all_listen sy \<and>
     (\<forall>l. has_handle l sy \<longrightarrow> (l \<noteq> k \<longrightarrow> picked l sy) \<and> (commandingEnabled sy \<longrightarrow> en_commanding E)) \<and>
     (\<forall>c \<in> set (sy_props sy). has_handle (cp_key c) sy))"

lemma chosen_but_picked: "chosen_but k E sy \<Longrightarrow> picked k sy \<Longrightarrow> chosen E sy"
  by (auto simp: chosen_but_def chosen_def)

lemma updateProvider_repairs:
  assumes "chosen_but k E sy" and "has_handle k sy"
  shows "chosen E (fst (updateProvider E k sy)) \<and> has_handle k (fst (updateProvider E k sy)) \<and>
    sy_registry (fst (updateProvider E k sy)) = sy_registry sy \<and> sy_props (fst (updateProvider E k sy)) = sy_props sy \<and>
    (\<forall>l. has_handle l sy \<longrightarrow> has_handle l (fst (updateProvider E k sy)))"
proof -
  note c = updateProvider_choice [of sy E k]
  have "picked l (fst (updateProvider E k sy)) \<longleftrightarrow> l = k \<or> picked l sy" for l
    using c [of l] same_choice_wanted [of sy "fst (updateProvider E k sy)" l] by (auto simp: picked_def same_choice_def)
  then show ?thesis
    using c assms by (auto simp: chosen_but_def chosen_def all_listen_def updateProvider_has updateProvider_props same_choice_def)
qed

lemma construct_start:
  fixes sy k E
  defines "en \<equiv> commandingEnabled sy \<and> en_commanding E"
  defines "sy1 \<equiv> sy_put_handle k (handle_new en) (sy\<lparr>commandingEnabled := en\<rparr>)"
  assumes "chosen E sy" and "\<not> has_handle k sy"
  shows "chosen_but k E sy1 \<and> has_handle k sy1 \<and> sy_registry sy1 = sy_registry sy \<and> sy_props sy1 = sy_props sy \<and>
    commandingEnabled sy1 = en \<and> myProviders (sy_handle k sy1) = [] \<and> (\<forall>l. has_handle l sy \<longrightarrow> has_handle l sy1)"
proof -
  have en: "en = commandingEnabled sy" if "has_handle l sy" for l
    using that assms(3) by (auto simp: chosen_def en_def)
  have f: "has_handle l (sy\<lparr>commandingEnabled := b\<rparr>) = has_handle l sy" "sy_handle l (sy\<lparr>commandingEnabled := b\<rparr>) = sy_handle l sy" for l b
    by (simp_all add: has_handle_def sy_handle_def)
  have h: "h_listens (sy_handle l sy) = en \<and> picked l sy1" if "has_handle l sy" for l
    using that en [OF that] assms(3,4)
    by (auto simp: chosen_def all_listen_def picked_def wanted_providers_def sy1_def f)
  show ?thesis using h assms(3,4)
    by (auto simp: chosen_but_def all_listen_def f sy1_def handle_new_def chosen_def en_def)
qed

lemma handle_construct_keeps:
  assumes "\<not> has_handle k sy"
  shows "keeps E sy (fst (handle_construct E k sy)) \<and> (chosen E sy \<longrightarrow> has_handle k (fst (handle_construct E k sy)))"
proof -
  define en where "en = (commandingEnabled sy \<and> en_commanding E)"
  define sy1 where "sy1 = sy_put_handle k (handle_new en) (sy\<lparr>commandingEnabled := en\<rparr>)"
  define sy2 where "sy2 = fst (sy_listener_event E (NLStart (en_busConnected E) True) sy1)"
  have eq: "fst (handle_construct E k sy) = (if en then
        (if isServicePresent (commanderListener sy2) \<noteq> Unknown then fst (updateProvider E k sy2) else sy2)
      else fst (updateProvider E k sy1))"
    unfolding handle_construct_def Let_def en_def [symmetric] sy1_def [symmetric] sy2_def
    by (simp add: case_prod_unfold)
  have "chosen E (fst (handle_construct E k sy)) \<and> sy_registry (fst (handle_construct E k sy)) = sy_registry sy \<and>
      sy_props (fst (handle_construct E k sy)) = sy_props sy \<and> has_handle k (fst (handle_construct E k sy)) \<and>
      (\<forall>l. has_handle l sy \<longrightarrow> has_handle l (fst (handle_construct E k sy)))" if c: "chosen E sy"
  proof -
    note 1 = construct_start [OF c assms, folded en_def, folded sy1_def]
    show ?thesis
    proof (cases en)
      case False
      then show ?thesis using updateProvider_repairs [of k E sy1] 1 by (simp add: eq)
    next
      case True
      note 2 = listener_event_heard [of E "NLStart (en_busConnected E) True" sy1, folded sy2_def]
      have b: "chosen_but k E sy2"
        using 1 2 by (auto simp: chosen_but_def all_listen_def picked_def wanted_providers_def)
      have h: "has_handle k sy2" "sy_registry sy2 = sy_registry sy" "sy_props sy2 = sy_props sy"
          "\<forall>l. has_handle l sy \<longrightarrow> has_handle l sy2" using 1 2 by auto
      have "picked k sy2" if "isServicePresent (commanderListener sy2) = Unknown"
        using 1 2 that True by (auto simp: picked_def isServicePresent_def chosen_but_def all_listen_def)
      then show ?thesis
        using True b h updateProvider_repairs [OF b h(1)] chosen_but_picked [OF b] by (auto simp: eq)
    qed
  qed
  then show ?thesis by (auto simp: keeps_def)
qed

lemma handle_instance_keeps: "keeps E sy (fst (handle_instance E k sy))"
  using handle_construct_keeps [of k sy E] by (simp add: handle_instance_def has_handle_def)

lemma handle_instance_has: "chosen E sy \<Longrightarrow> has_handle k (fst (handle_instance E k sy))"
  using handle_construct_keeps [of k sy E] by (auto simp: handle_instance_def has_handle_def)

section \<open>Every event\<close>

lemma instance_then:
  assumes "\<And>sy1. has_handle k sy1 \<Longrightarrow> keeps E sy1 (fst (g sy1))"
  shows "keeps E sy (fst (case handle_instance E k sy of (sy1, o1) \<Rightarrow> case g sy1 of (sy2, o2) \<Rightarrow> (sy2, o1 @ o2)))"
proof -
  let ?sy1 = "fst (handle_instance E k sy)"
  have "chosen E sy \<Longrightarrow> keeps E ?sy1 (fst (g ?sy1))" by (rule assms) (rule handle_instance_has)
  then show ?thesis
    using handle_instance_keeps [of E sy k] by (auto simp: keeps_def case_prod_unfold)
qed

lemma router_value_keeps: "keeps E sy (fst (router_onValueChanged E k sy))"
  unfolding router_onValueChanged_def by (rule instance_then) (intro same_picks_keeps onValueChanged_picks)

lemma router_finished_keeps: "keeps E sy (fst (router_onSubscribeFinished E i k sy))"
  using instance_then [of k E "\<lambda>sy1. (setSubscribeFinished i k sy1, [])" sy] same_picks_keeps [OF finished_picks]
  by (simp add: router_onSubscribeFinished_def case_prod_unfold)

lemma route_keeps: "keeps E sy (fst (sy_route E i os sy))"
proof (induction os arbitrary: sy)
  case (Cons x xs)
  show ?case unfolding sy_route.simps
    by (rule keeps_chain [OF _ Cons]) (auto simp: router_value_keeps router_finished_keeps split: provider_out.splits)
qed simp

lemma provider_op_keeps: "keeps E sy (fst (sy_provider_op E i f sy))"
proof -
  have "keeps E sy (sy_put i (fst (f (sy_provider i sy))) sy)"
    by (intro same_picks_keeps same_picks_frame) simp_all
  then show ?thesis
    unfolding sy_provider_op_def case_prod_unfold by (rule keeps_trans [OF _ route_keeps])
qed

lemma blockAll_keeps: "keeps E sy (fst (h_blockAll E react k is sy))"
proof (induction "is" arbitrary: sy)
  case (Cons i "is")
  show ?case unfolding h_blockAll.simps by (rule keeps_chain [OF provider_op_keeps Cons])
qed simp

lemma put_property_picks: "cp_key c = cp_key (sy_props sy ! n) \<Longrightarrow> n < length (sy_props sy) \<Longrightarrow> same_picks sy (cp_put n c sy)"
  by (rule same_picks_frame) (simp_all add: cp_put_def map_update, metis length_map list_update_id nth_map)

lemma subscribe_picks: "has_handle k sy \<Longrightarrow> same_picks sy (h_subscribe k sy)"
proof -
  assume k: "has_handle k sy"
  define h where "h = (sy_handle k sy)\<lparr>subscribeCount := subscribeCount (sy_handle k sy) + 1\<rparr>"
  obtain sy1 pend where 1: "h_subscribeAll k (myProviders h) [] sy = (sy1, pend)" by fastforce
  note p = subscribeAll_picks [OF 1]
  have "same_picks sy1 (sy_put_handle k (h\<lparr>pendingSubscriptions := pend\<rparr>) sy1)"
    using p k by (intro same_picks_put_handle) (simp_all add: same_picks_def same_choice_def h_def)
  moreover have "h_subscribe k sy = (if subscribeCount h = 1 then sy_put_handle k (h\<lparr>pendingSubscriptions := pend\<rparr>) sy1
      else sy_put_handle k h sy)"
    unfolding h_subscribe_def Let_def h_def [symmetric] by (simp add: 1)
  ultimately show ?thesis
    using k same_picks_trans [OF p] same_picks_put_handle [OF k, of h] by (auto simp: h_def)
qed

lemma unsubscribe_picks: "has_handle k sy \<Longrightarrow> same_picks sy (h_unsubscribe k sy)"
proof -
  assume k: "has_handle k sy"
  define h where "h = (sy_handle k sy)\<lparr>subscribeCount := subscribeCount (sy_handle k sy) - 1\<rparr>"
  define sy1 where "sy1 = h_unsubscribeAll k (myProviders h) sy"
  have p: "same_picks sy sy1" unfolding sy1_def by (rule unsubscribeAll_picks)
  have "same_picks sy1 (sy_put_handle k (h\<lparr>pendingSubscriptions := []\<rparr>) sy1)"
    using p k by (intro same_picks_put_handle) (simp_all add: same_picks_def same_choice_def h_def)
  moreover have "h_unsubscribe k sy = (if subscribeCount h = 0 then sy_put_handle k (h\<lparr>pendingSubscriptions := []\<rparr>) sy1
      else sy_put_handle k h sy)"
    unfolding h_unsubscribe_def Let_def h_def [symmetric] sy1_def [symmetric] ..
  ultimately show ?thesis
    using k same_picks_trans [OF p] same_picks_put_handle [OF k, of h] by (auto simp: h_def)
qed

lemma props_subscribed_keeps:
  assumes "n < length (sy_props sy)"
  shows "keeps E sy (cp_subscribe n sy)" and "keeps E sy (cp_unsubscribe n sy)"
proof -
  let ?c = "sy_props sy ! n"
  have k: "has_handle (cp_key ?c) sy" if "chosen E sy" using that assms by (simp add: chosen_def)
  have "same_picks sy (cp_put n (?c\<lparr>cp_subscribed := True\<rparr>) (h_subscribe (cp_key ?c) sy))" if "chosen E sy"
    by (rule same_picks_trans [OF subscribe_picks [OF k [OF that]]], rule put_property_picks)
      (simp_all add: h_subscribe_frame assms)
  then show "keeps E sy (cp_subscribe n sy)"
    using same_picks_keeps [of sy "cp_subscribe n sy" E] by (auto simp: cp_subscribe_def Let_def keeps_def)
  have "same_picks sy (cp_put n (?c\<lparr>cp_subscribed := False\<rparr>) (h_unsubscribe (cp_key ?c) sy))" if "chosen E sy"
    by (rule same_picks_trans [OF unsubscribe_picks [OF k [OF that]]], rule put_property_picks)
      (simp_all add: h_unsubscribe_frame assms)
  then show "keeps E sy (cp_unsubscribe n sy)"
    using same_picks_keeps [of sy "cp_unsubscribe n sy" E] by (auto simp: cp_unsubscribe_def Let_def keeps_def)
qed

lemma cp_new_chosen:
  assumes "chosen E sy"
  shows "chosen E (fst (cp_new E k sy)) \<and> sy_registry (fst (cp_new E k sy)) = sy_registry sy"
proof -
  define sy1 where "sy1 = fst (handle_instance E k sy)"
  define sy2 where "sy2 = sy1\<lparr>sy_props := sy_props sy1 @ [\<lparr>cp_key = k, cp_subscribed = False, cp_value = VInvalid\<rparr>]\<rparr>"
  have 1: "chosen E sy1" "sy_registry sy1 = sy_registry sy" "has_handle k sy1"
    using assms handle_instance_keeps [of E sy k] handle_instance_has by (simp_all add: keeps_def sy1_def)
  have f: "has_handle l sy2 = has_handle l sy1" "sy_handle l sy2 = sy_handle l sy1" for l
    by (simp_all add: sy2_def has_handle_def sy_handle_def)
  have 2: "chosen E sy2"
    using 1 f by (auto simp: chosen_def all_listen_def picked_def wanted_providers_def) (auto simp: sy2_def)
  have "keeps E sy2 (cp_subscribe (length (sy_props sy1)) sy2)"
    by (rule props_subscribed_keeps) (simp add: sy2_def)
  moreover have "fst (cp_new E k sy) = cp_subscribe (length (sy_props sy1)) sy2"
    by (simp add: cp_new_def case_prod_unfold sy1_def sy2_def)
  ultimately show ?thesis using 1 2 by (simp add: keeps_def sy2_def)
qed

lemma registry_chosen:
  assumes "chosen E sy"
  shows "chosen E (fst (sy_step E (SYRegistry k infos) sy)) \<and>
    sy_registry (fst (sy_step E (SYRegistry k infos) sy)) = (sy_registry sy)(k := infos)"
proof -
  define sy1 where "sy1 = sy\<lparr>sy_registry := (sy_registry sy)(k := infos)\<rparr>"
  have f: "has_handle l sy1 = has_handle l sy" "sy_handle l sy1 = sy_handle l sy" for l
    by (simp_all add: sy1_def has_handle_def sy_handle_def)
  have b: "chosen_but k E sy1"
    using assms f by (auto simp: chosen_def chosen_but_def all_listen_def picked_def wanted_providers_def sy1_def)
  then have "\<not> has_handle k sy \<Longrightarrow> chosen E sy1" by (auto simp: chosen_def chosen_but_def f)
  then show ?thesis
    using updateProvider_repairs [OF b] f by (simp add: has_handle_def sy1_def Let_def)
qed

fun registry_after :: "sy_event \<Rightarrow> (key \<Rightarrow> provider_info list) \<Rightarrow> key \<Rightarrow> provider_info list" where
  "registry_after (SYRegistry k infos) R = R(k := infos)"
| "registry_after _ R = R"

lemma step_chosen:
  assumes "chosen E sy" and "e \<noteq> SYIgnoreCommander"
  shows "chosen E (fst (sy_step E e sy)) \<and> sy_registry (fst (sy_step E e sy)) = registry_after e (sy_registry sy)"
proof -
  have k: "keeps E sy (fst (sy_step E e sy))" if "\<And>k. e \<noteq> SYNew k" "\<And>k infos. e \<noteq> SYRegistry k infos"
    using assms(2) that
  proof (cases e)
    case (SYNotify n)
    have "same_picks sy (fst (cp_onValueChanged E n sy))" if "n < length (sy_props sy)"
      using that by (auto simp: cp_onValueChanged_def Let_def intro: put_property_picks same_picks_frame)
    then show ?thesis using same_picks_keeps by (auto simp: SYNotify)
  next
    case (SYName x)
    then show ?thesis using listener_event_keeps [of E sy x] by (cases x) simp_all
  next
    case (SYTypeCheck b)
    then show ?thesis by (auto simp: setTypeCheck_def intro!: same_picks_keeps same_picks_frame)
  qed (auto simp: props_subscribed_keeps cp_waitBlocking_def h_blockUntilSubscribed_def blockAll_keeps provider_op_keeps)
  show ?thesis
    using k assms cp_new_chosen registry_chosen by (cases e) (auto simp: keeps_def)
qed

lemma run_chosen:
  "chosen E sy \<Longrightarrow> SYIgnoreCommander \<notin> set es \<Longrightarrow>
    chosen E (fst (ev_run (sy_step E) es sy)) \<and>
    sy_registry (fst (ev_run (sy_step E) es sy)) = fold registry_after es (sy_registry sy)"
proof (induction es arbitrary: sy)
  case (Cons e es)
  then show ?case using step_chosen [of E sy e] by (auto simp: case_prod_unfold)
qed simp

lemma sys_new_chosen: "chosen E (sys_new registry)"
  by (simp add: chosen_def all_listen_def sys_new_def has_handle_def)

text \<open>A key with a subscribed property has a handle.\<close>

lemma subscribed_has: "chosen E sy \<Longrightarrow> c \<in> set (sy_props sy) \<Longrightarrow> has_handle (cp_key c) sy"
  by (simp add: chosen_def)

end
