(* ===== verification/Registry_Plugins.thy ===== *)
theory Registry_Plugins
  imports Provider_Choice System_Wire Property_Info Info_Cdb
begin

text \<open>
  From the registry to the plugins. Every \<open>PropertyHandle\<close> owns a \<open>ContextPropertyInfo\<close>
  whose signal \<open>changed\<close> makes it update its providers (propertyhandle.cpp); the infos listen
  to the registry backend (contextpropertyinfo.cpp), which announces what changed after it has
  reread its files (infobackend.cpp and its two backends). A run of a client is any interleaving of
  events of the application and of rereadings of the registry.
\<close>

text \<open>The announcements \<open>ss\<close> of a backend that answers as \<open>I\<close>, delivered to the infos \<open>P\<close> of the
  handles (for a key without a handle, the info a new handle would make), and what the handles get
  to do of them. The info of the empty key does not listen.\<close>

fun registry_heard :: "qt_lib \<Rightarrow> info_ops \<Rightarrow> ib_signal list \<Rightarrow> (key \<Rightarrow> property_info) \<Rightarrow>
    (key \<Rightarrow> property_info) \<times> sy_event list" where
  "registry_heard Q I [] P = (P, [])"
| "registry_heard Q I (KeyChanged k # ss) P =
     (if k = [] then registry_heard Q I ss P
      else (case ci_onKeyChanged Q I k (P k) of (p, os) \<Rightarrow>
        case registry_heard Q I ss (P(k := p)) of (P', es) \<Rightarrow>
          (P', if ci_changes os > 0 then SYRegistry k (ci_providers p) # es else es)))"
| "registry_heard Q I (_ # ss) P = registry_heard Q I ss P"

datatype 'f client_event = CEApp sy_event | CEReread 'f

text \<open>The run of a client over a backend: its final state, the infos, and the events of the
  subscriber library in their order. \<open>None\<close> is the end of the program in the backend.\<close>

fun client_run :: "qt_lib \<Rightarrow> ('s \<Rightarrow> info_ops) \<Rightarrow> ('f \<Rightarrow> 's \<Rightarrow> ('s \<times> ib_signal list) option) \<Rightarrow>
    'f client_event list \<Rightarrow> 's \<Rightarrow> (key \<Rightarrow> property_info) \<Rightarrow>
    ('s \<times> (key \<Rightarrow> property_info) \<times> sy_event list) option" where
  "client_run Q ops reread [] s P = Some (s, P, [])"
| "client_run Q ops reread (CEApp e # es) s P =
     map_option (\<lambda>(s', P', tr). (s', P', e # tr)) (client_run Q ops reread es s P)"
| "client_run Q ops reread (CEReread f # es) s P = (case reread f s of None \<Rightarrow> None
    | Some (s1, os) \<Rightarrow> (case registry_heard Q (ops s1) os P of (P1, tr1) \<Rightarrow>
        map_option (\<lambda>(s', P', tr). (s', P', tr1 @ tr)) (client_run Q ops reread es s1 P1)))"

text \<open>What only the registry or the application's start may do.\<close>

fun app_event :: "'f client_event \<Rightarrow> bool" where
  "app_event (CEApp (SYRegistry _ _)) = False"
| "app_event (CEApp SYIgnoreCommander) = False"
| "app_event _ = True"

text \<open>The providers a subscribed handle has to use.\<close>

definition due_providers :: "sys \<Rightarrow> info_ops \<Rightarrow> key \<Rightarrow> provider_info list" where
  "due_providers sy I k = (if commandingEnabled sy \<and> isServicePresent (commanderListener sy) = Present
     then [commanderInfo] else io_providersForKey I k)"

section \<open>The infos follow the backend\<close>

definition cached :: "info_ops \<Rightarrow> (key \<Rightarrow> property_info) \<Rightarrow> bool" where
  "cached I P = (\<forall>k. ci_keyName (P k) = k \<and> (k \<noteq> [] \<longrightarrow> P k = ci_new I k))"

lemma registry_heard_spec:
  assumes "registry_heard Q I ss P = (P', es)" and "\<And>k. ci_keyName (P k) = k"
  shows "P' = (\<lambda>k. if k \<noteq> [] \<and> k \<in> set (List.map_filter changed_key ss) then ci_refresh I (P k) else P k) \<and>
    fold registry_after es (\<lambda>k. ci_providers (P k)) = (\<lambda>k. ci_providers (P' k)) \<and>
    SYIgnoreCommander \<notin> set es"
  using assms
proof (induction Q I ss P arbitrary: P' es rule: registry_heard.induct)
  case (2 Q I k ss P)
  show ?case
  proof (cases "k = []")
    case True
    then have e: "registry_heard Q I ss P = (P', es)" using "2.prems"(1) by simp
    have "(l \<noteq> [] \<and> l \<in> set (List.map_filter changed_key (KeyChanged k # ss))) =
        (l \<noteq> [] \<and> l \<in> set (List.map_filter changed_key ss))" for l
      using True by (auto simp: List.map_filter_simps)
    then show ?thesis using "2.IH"(1) [OF True e "2.prems"(2)] by simp
  next
    case k: False
    obtain p os where 1: "ci_onKeyChanged Q I k (P k) = (p, os)" by fastforce
    obtain P1 es1 where 2: "registry_heard Q I ss (P(k := p)) = (P1, es1)" by fastforce
    have p: "p = ci_refresh I (P k)" "ci_changes os = 1"
      using ci_onKeyChanged_fst [of Q I k "P k"] 1 "2.prems"(2) by simp_all
    have n: "ci_keyName ((P(k := p)) l) = l" for l using "2.prems"(2) p by simp
    have r: "P' = P1" "es = SYRegistry k (ci_providers p) # es1" using "2.prems"(1) 1 2 p k by simp_all
    note h = "2.IH"(2) [OF k 1 [symmetric] 2 n]
    have "(\<lambda>l. ci_providers (P l))(k := ci_providers p) = (\<lambda>l. ci_providers ((P(k := p)) l))" by auto
    then have "fold registry_after es (\<lambda>l. ci_providers (P l)) = (\<lambda>l. ci_providers (P' l))" using h r by simp
    moreover have "P' = (\<lambda>l. if l \<noteq> [] \<and> l \<in> set (List.map_filter changed_key (KeyChanged k # ss)) then ci_refresh I (P l) else P l)"
      using h r p k by (auto simp: List.map_filter_simps fun_eq_iff)
    ultimately show ?thesis using h r by simp
  qed
qed (auto simp: List.map_filter_simps)

text \<open>A backend that rereads: it answers anew and announces the change, or nothing has changed.\<close>

locale rereading = info_registry ok ops for ok :: "'s \<Rightarrow> bool" and ops :: "'s \<Rightarrow> info_ops" +
  fixes fits :: "'f \<Rightarrow> bool" and reread :: "'f \<Rightarrow> 's \<Rightarrow> ('s \<times> ib_signal list) option"
  assumes reread_announces: "ok s \<Longrightarrow> fits f \<Longrightarrow> reread f s = Some (s', os) \<Longrightarrow>
    ok s' \<and> (os = ib_announce (io_listKeys (ops s')) (io_listKeys (ops s)) \<or> os = [] \<and> ops s' = ops s)"
begin

lemma reread_cached:
  assumes "ok s" and "fits f" and "reread f s = Some (s1, os)" and "cached (ops s) P"
    and "registry_heard Q (ops s1) os P = (P1, tr)"
  shows "ok s1 \<and> cached (ops s1) P1 \<and> SYIgnoreCommander \<notin> set tr \<and>
    fold registry_after tr (\<lambda>k. ci_providers (P k)) = (\<lambda>k. ci_providers (P1 k))"
proof -
  have k: "\<And>k. ci_keyName (P k) = k" using assms(4) by (simp add: cached_def)
  note h = registry_heard_spec [OF assms(5) k] and r = reread_announces [OF assms(1-3)]
  have "cached (ops s1) P1"
  proof (cases "os = []")
    case True
    then have "ops s1 = ops s" using r by (simp add: ib_announce_def)
    then show ?thesis using True assms(4,5) by (simp add: cached_def)
  next
    case False
    then have os: "os = ib_announce (io_listKeys (ops s1)) (io_listKeys (ops s))" using r by simp
    have "P1 k = ci_new (ops s1) k" if "k \<noteq> []" for k
    proof -
      have c: "P k = ci_new (ops s) k" using assms(4) that by (simp add: cached_def)
      have "fst (ci_deliver Q (ops s1) os (P k)) = ci_new (ops s1) k"
        using cache_follows [OF assms(1) _ that, of s1 Q] r by (simp add: c os)
      then show ?thesis using ci_deliver_spec [of Q "ops s1" os "P k"] h k that by simp
    qed
    moreover have "ci_keyName (P1 k) = k" for k using h k by simp
    ultimately show ?thesis by (simp add: cached_def)
  qed
  then show ?thesis using h r by simp
qed

lemma client_cached:
  assumes "client_run Q ops reread es s P = Some (s', P', tr)" and "ok s" and "cached (ops s) P"
    and "\<And>f. CEReread f \<in> set es \<Longrightarrow> fits f" and "list_all app_event es"
  shows "ok s' \<and> cached (ops s') P' \<and> SYIgnoreCommander \<notin> set tr \<and>
    fold registry_after tr (\<lambda>k. ci_providers (P k)) = (\<lambda>k. ci_providers (P' k))"
  using assms
proof (induction es arbitrary: s P tr)
  case (Cons x es)
  show ?case
  proof (cases x)
    case (CEApp e)
    have "registry_after e R = R \<and> e \<noteq> SYIgnoreCommander" for R using Cons.prems(5) by (cases e) (simp_all add: CEApp)
    then show ?thesis using Cons by (auto simp: CEApp)
  next
    case (CEReread f)
    obtain s1 os where 1: "reread f s = Some (s1, os)" using Cons.prems(1) by (auto simp: CEReread split: option.splits)
    obtain P1 tr1 where 2: "registry_heard Q (ops s1) os P = (P1, tr1)" by fastforce
    obtain tr2 where 3: "client_run Q ops reread es s1 P1 = Some (s', P', tr2)" "tr = tr1 @ tr2"
      using Cons.prems(1) by (auto simp: CEReread 1 2)
    have "fits f" using Cons.prems(4) by (simp add: CEReread)
    note h = reread_cached [OF Cons.prems(2) this 1 Cons.prems(3) 2]
    have "ok s' \<and> cached (ops s') P' \<and> SYIgnoreCommander \<notin> set tr2 \<and>
        fold registry_after tr2 (\<lambda>k. ci_providers (P1 k)) = (\<lambda>k. ci_providers (P' k))"
      by (rule Cons.IH [OF 3(1)]) (use h Cons.prems(4,5) in auto)
    then show ?thesis using h 3(2) by simp
  qed
qed simp

lemma plugins_follow:
  fixes E P0
  assumes "client_run Q ops reread es s0 (ci_new (ops s0)) = Some (s, P, tr)" and "ok s0"
    and "\<And>f. CEReread f \<in> set es \<Longrightarrow> fits f" and "list_all app_event es"
    and "length (filter is_new tr) < 2 ^ 32"
  defines "start \<equiv> sys_new (\<lambda>k. ci_providers (ci_new (ops s0) k))"
  defines "sy \<equiv> fst (ev_run (sy_step E) tr start)"
  assumes "commandingEnabled sy \<longrightarrow> isServicePresent (commanderListener sy) \<noteq> Unknown" and "k \<noteq> []"
  shows "k \<in> set (subscribedKeys (sy_provider i sy)) \<longleftrightarrow>
      (\<exists>c \<in> set (sy_props sy). cp_subscribed c \<and> cp_key c = k) \<and> i \<in> set (due_providers sy (ops s) k)"
    and "list_all listed_once tr \<Longrightarrow> \<forall>k. distinct (io_providersForKey (ops s0) k) \<Longrightarrow>
      pluginState (sy_provider i sy) = READY \<Longrightarrow> qi_posted (pr_queue (sy_provider i sy)) = [] \<Longrightarrow>
      sy_wire_run E tr start i {} = set (subscribedKeys (sy_provider i sy))"
proof -
  have "cached (ops s0) (ci_new (ops s0))" by (simp add: cached_def)
  note c = client_cached [OF assms(1,2) this assms(3,4)]
  have ch: "chosen E sy \<and> sy_registry sy = fold registry_after tr (\<lambda>k. ci_providers (ci_new (ops s0) k))"
    using run_chosen [OF sys_new_chosen, of tr E] c by (simp add: sy_def start_def) (simp add: sys_new_def)
  have "sy_registry sy k = io_providersForKey (ops s) k"
    using ch c assms(9) by (simp add: cached_def ci_new_def ci_refresh_def)
  then have due: "has_handle k sy \<Longrightarrow> myProviders (sy_handle k sy) = due_providers sy (ops s) k"
    using ch assms(8) by (auto simp: chosen_def picked_def wanted_providers_def due_providers_def isServicePresent_def)
  have ok: "sys_ok sy" unfolding sy_def start_def
    by (rule sys_run_ok [OF sys_new_ok]) (use assms(5) in \<open>simp add: sys_new_def\<close>)
  then have u: "unat (subscribeCount (sy_handle k sy)) = prop_count k sy" by (simp add: sys_ok_def)
  have z: "subscribeCount (sy_handle k sy) = 0 \<longleftrightarrow> \<not> (\<exists>c \<in> set (sy_props sy). cp_subscribed c \<and> cp_key c = k)"
    unfolding unat_eq_zero [symmetric] u prop_count_def by (auto simp: filter_empty_conv)
  have "k \<in> set (subscribedKeys (sy_provider i sy)) \<longleftrightarrow>
      (\<exists>c \<in> set (sy_props sy). cp_subscribed c \<and> cp_key c = k) \<and> i \<in> set (myProviders (sy_handle k sy))"
    using ok z unfolding sys_ok_def subs_def by blast
  then show "k \<in> set (subscribedKeys (sy_provider i sy)) \<longleftrightarrow>
      (\<exists>c \<in> set (sy_props sy). cp_subscribed c \<and> cp_key c = k) \<and> i \<in> set (due_providers sy (ops s) k)"
    using due subscribed_has [of E sy] ch by (metis (no_types, lifting))
  assume d: "list_all listed_once tr" "\<forall>k. distinct (io_providersForKey (ops s0) k)"
    and p: "pluginState (sy_provider i sy) = READY" "qi_posted (pr_queue (sy_provider i sy)) = []"
  have "distinct (ci_providers (ci_new (ops s0) k))" for k
    using d(2) by (simp add: ci_new_def ci_refresh_def Let_def)
  then have "wired (\<lambda>j. sy_wire_run E tr start j {}) sy"
    unfolding sy_def start_def by (rule run_from_start_wired [OF assms(5) _ d(1)])
  then show "sy_wire_run E tr start i {} = set (subscribedKeys (sy_provider i sy))"
    using p by (auto simp: wired_def pr_ok_def)
qed

end

section \<open>Both backends\<close>

text \<open>The XML backend, with the files it has last read: a watched file or the directory changes.\<close>

datatype xml_change = XFile registry_fs | XDirectory registry_fs

fun xb_reread :: "qt_lib \<Rightarrow> xml_change \<Rightarrow> registry_fs \<times> xml_backend \<Rightarrow>
    ((registry_fs \<times> xml_backend) \<times> ib_signal list) option" where
  "xb_reread Q (XFile F) (F0, b) = map_option (\<lambda>(b', os). ((F, b'), os)) (xb_onFileChanged Q F b)"
| "xb_reread Q (XDirectory F) (F0, b) =
     map_option (\<lambda>(b', os). ((if os = [] then F0 else F, b'), os)) (xb_onDirectoryChanged Q F b)"

definition xb_read :: "qt_lib \<Rightarrow> registry_fs \<times> xml_backend \<Rightarrow> bool" where
  "xb_read Q s = (\<exists>b0. regenerateKeyDataList Q (fst s) b0 = Some (snd s))"

lemma ib_announce_not_Nil [simp]: "ib_announce cur old \<noteq> []"
  by (simp add: ib_announce_def)

lemma xb_reread_law:
  assumes "xb_read Q s" and "xb_reread Q f s = Some (s', os)"
  shows "xb_read Q s' \<and> (os = ib_announce (xb_listKeys (snd s')) (xb_listKeys (snd s)) \<or> os = [] \<and> snd s' = snd s)"
  using assms
  by (cases f; cases s)
    (auto simp: xb_read_def xb_onFileChanged_def xb_onDirectoryChanged_def Let_def split: option.splits if_splits)

interpretation xml_client: rereading "xb_read Q" "xb_ops \<circ> snd" "\<lambda>_. True" "xb_reread Q" for Q
proof
  fix s k assume "xb_read Q s"
  then have ok: "xb_ok (snd s)" using regenerate_ok by (auto simp: xb_read_def)
  show "distinct (io_listKeys ((xb_ops \<circ> snd) s))" "io_keyDeclared ((xb_ops \<circ> snd) s) k \<longleftrightarrow> k \<in> set (io_listKeys ((xb_ops \<circ> snd) s))"
    using xml.listed_once [OF ok] xml.declared_iff [OF ok] by simp_all
  show "io_typeInfoForKey ((xb_ops \<circ> snd) s) k = VInvalid \<and> io_docForKey ((xb_ops \<circ> snd) s) k = [] \<and>
      \<not> io_keyDeprecated ((xb_ops \<circ> snd) s) k \<and> io_providersForKey ((xb_ops \<circ> snd) s) k = []"
    if "k \<notin> set (io_listKeys ((xb_ops \<circ> snd) s))"
    using xml.undeclared_defaults [OF ok] that by simp
next
  fix s f s' os assume "xb_read Q s" and "xb_reread Q f s = Some (s', os)"
  then show "xb_read Q s' \<and> (os = ib_announce (io_listKeys ((xb_ops \<circ> snd) s')) (io_listKeys ((xb_ops \<circ> snd) s)) \<or>
      os = [] \<and> (xb_ops \<circ> snd) s' = (xb_ops \<circ> snd) s)"
    using xb_reread_law [of Q s f s' os] by (auto simp: xb_ops_def)
qed

text \<open>The database backend with a counted connection; every new database it is shown is well formed.\<close>

interpretation cdb_client: rereading "\<lambda>s. cb_ok L s \<and> cb_connectCount s \<noteq> 0" "cb_ops Q L"
    "\<lambda>disk. dk_fd disk > 0 \<and> cb_ok L (cb_new Q L disk)" "\<lambda>disk s. Some (onDatabaseDirectoryChanged Q L disk s)" for Q L
proof
  fix s k assume "cb_ok L s \<and> cb_connectCount s \<noteq> 0"
  then have ok: "cb_ok L s" by simp
  show "distinct (io_listKeys (cb_ops Q L s))" "io_keyDeclared (cb_ops Q L s) k \<longleftrightarrow> k \<in> set (io_listKeys (cb_ops Q L s))"
    using cdb.listed_once [OF ok] cdb.declared_iff [OF ok] by simp_all
  show "io_typeInfoForKey (cb_ops Q L s) k = VInvalid \<and> io_docForKey (cb_ops Q L s) k = [] \<and>
      \<not> io_keyDeprecated (cb_ops Q L s) k \<and> io_providersForKey (cb_ops Q L s) k = []"
    if "k \<notin> set (io_listKeys (cb_ops Q L s))"
    using cdb.undeclared_defaults [OF ok that] .
next
  fix s disk s' os
  assume a: "cb_ok L s \<and> cb_connectCount s \<noteq> 0" "dk_fd disk > 0 \<and> cb_ok L (cb_new Q L disk)"
    and "Some (onDatabaseDirectoryChanged Q L disk s) = Some (s', os)"
  then have o: "onDatabaseDirectoryChanged Q L disk s = (s', os)" by simp
  then have n: "cb_connectCount s' = cb_connectCount s"
    by (auto simp: onDatabaseDirectoryChanged_def Let_def split: if_splits)
  have l: "io_listKeys (cb_ops Q L t) = cb_listKeys Q L t" for t by (simp add: cb_ops_def)
  show "(cb_ok L s' \<and> cb_connectCount s' \<noteq> 0) \<and> (os = ib_announce (io_listKeys (cb_ops Q L s')) (io_listKeys (cb_ops Q L s)) \<or>
      os = [] \<and> cb_ops Q L s' = cb_ops Q L s)"
  proof (cases "dk_inode disk = cb_lastInode s")
    case True
    then show ?thesis using o a by (simp add: onDatabaseDirectoryChanged_def Let_def)
  next
    case False
    then have "dk_inode disk \<noteq> cb_lastInode s" by simp
    from reopened_as_fresh(2,4) [OF this _ o] show ?thesis using a n by (simp add: l)
  qed
qed

section \<open>The files and the plugins\<close>

text \<open>C1: the plugins follow the registry. Take any run of a client: the application makes properties,
  subscribes, unsubscribes and waits, plugins and commander signal, the event loop turns, and
  between these events the files of the registry are edited and reread by the XML backend; only
  \<open>ignoreCommander\<close>, which is for the commander itself, is not called. Once
  the presence of the commander is known, a key is subscribed at a provider exactly when a
  property of the application is subscribed to it and the provider is due: the commander alone
  while it is present, otherwise the providers that the files, as last read, declare for the key.
  If no provider is listed twice for a key, then whenever a provider is ready and nothing is
  scheduled for it, its plugin has been told to be subscribed to exactly these keys.\<close>

theorem plugins_follow_registry:
  assumes "xb_new Q F0 = Some b0"
    and "client_run Q (xb_ops \<circ> snd) (xb_reread Q) es (F0, b0) (ci_new (xb_ops b0)) = Some ((F, b), P, tr)"
    and "list_all app_event es" and "length (filter is_new tr) < 2 ^ 32"
    and "start = sys_new (\<lambda>k. ci_providers (ci_new (xb_ops b0) k))"
    and "sy = fst (ev_run (sy_step E) tr start)"
    and "commandingEnabled sy \<longrightarrow> isServicePresent (commanderListener sy) \<noteq> Unknown" and "k \<noteq> []"
    and "due = (if commandingEnabled sy \<and> isServicePresent (commanderListener sy) = Present then [commanderInfo]
      else decl_providers Q (decls_for Q k (registry_decls Q F)))"
    and "wanted = ((\<exists>c \<in> set (sy_props sy). cp_subscribed c \<and> cp_key c = k) \<and> i \<in> set due)"
  shows "(k \<in> set (subscribedKeys (sy_provider i sy)) \<longleftrightarrow> wanted) \<and>
    (list_all listed_once tr \<and> (\<forall>k. distinct (xb_providersForKey k b0)) \<and>
       pluginState (sy_provider i sy) = READY \<and> qi_posted (pr_queue (sy_provider i sy)) = [] \<longrightarrow>
     (k \<in> sy_wire_run E tr start i {} \<longleftrightarrow> wanted))"
proof -
  have ok: "xb_read Q (F0, b0)" using assms(1) by (auto simp: xb_read_def xb_new_def)
  have run: "client_run Q (xb_ops \<circ> snd) (xb_reread Q) es (F0, b0) (ci_new ((xb_ops \<circ> snd) (F0, b0))) = Some ((F, b), P, tr)"
    using assms(2) by simp
  have "cached ((xb_ops \<circ> snd) (F0, b0)) (ci_new (xb_ops b0))" by (simp add: cached_def)
  then have "xb_read Q (F, b)"
    using xml_client.client_cached [OF assms(2) ok _ _ assms(3)] by simp
  then have "xb_providersForKey k b = decl_providers Q (decls_for Q k (registry_decls Q F))"
    using regenerate_answers by (auto simp: xb_read_def)
  then have d: "due_providers sy ((xb_ops \<circ> snd) (F, b)) k = due"
    by (simp add: assms(9) due_providers_def xb_ops_def)
  have s: "start = sys_new (\<lambda>k. ci_providers (ci_new ((xb_ops \<circ> snd) (F0, b0)) k))" by (simp add: assms(5))
  note f = xml_client.plugins_follow [OF run ok TrueI assms(3,4), of E k i, folded s, folded assms(6), OF assms(7,8)]
  have "k \<in> set (subscribedKeys (sy_provider i sy)) \<longleftrightarrow> wanted" using f(1) unfolding d assms(10) .
  moreover have "sy_wire_run E tr start i {} = set (subscribedKeys (sy_provider i sy))"
    if "list_all listed_once tr" "\<forall>k. distinct (xb_providersForKey k b0)" "pluginState (sy_provider i sy) = READY"
      "qi_posted (pr_queue (sy_provider i sy)) = []"
    by (rule f(2) [OF that(1) _ that(3,4)]) (use that(2) in \<open>simp add: xb_ops_def\<close>)
  ultimately show ?thesis by simp
qed

definition bare_fs :: registry_fs where
  "bare_fs = sample_fs\<lparr>fs_exists := (\<lambda>_. False), fs_entries := (\<lambda>_. None)\<rparr>"

definition client_events :: "xml_change client_event list" where
  "client_events = [CEApp (SYNew ''A.b''), CEReread (XDirectory sample_fs)]"

lemma plugins_follow_registry_witness:
  "\<exists>b0 s P tr. xb_new qt_ref bare_fs = Some b0 \<and>
    client_run qt_ref (xb_ops \<circ> snd) (xb_reread qt_ref) client_events (bare_fs, b0) (ci_new (xb_ops b0)) = Some (s, P, tr) \<and>
    ''A.b'' \<in> set (subscribedKeys (sy_provider \<lparr>pi_plugin = ''contextkit-dbus'', pi_construction = ''session:org.x''\<rparr>
      (fst (ev_run (sy_step sample_env) tr (sys_new (\<lambda>k. ci_providers (ci_new (xb_ops b0) k)))))))"
proof -
  let ?run = "\<lambda>b0. client_run qt_ref (xb_ops \<circ> snd) (xb_reread qt_ref) client_events (bare_fs, b0) (ci_new (xb_ops b0))"
  let ?sy = "\<lambda>tr b0. fst (ev_run (sy_step sample_env) tr (sys_new (\<lambda>k. ci_providers (ci_new (xb_ops b0) k))))"
  have e: "Option.bind (xb_new qt_ref bare_fs) (\<lambda>b0. map_option (\<lambda>((F, b), P, tr). (length (filter is_new tr),
      commandingEnabled (?sy tr b0), list_ex (\<lambda>c. cp_subscribed c \<and> cp_key c = ''A.b'') (sy_props (?sy tr b0)),
      decl_providers qt_ref (decls_for qt_ref ''A.b'' (registry_decls qt_ref F)))) (?run b0)) =
    Some (1, False, True, [\<lparr>pi_plugin = ''contextkit-dbus'', pi_construction = ''session:org.x''\<rparr>])"
    by code_simp
  then obtain b0 F b P tr where x: "xb_new qt_ref bare_fs = Some b0" "?run b0 = Some ((F, b), P, tr)"
      and v: "length (filter is_new tr) = 1" "\<not> commandingEnabled (?sy tr b0)"
        "list_ex (\<lambda>c. cp_subscribed c \<and> cp_key c = ''A.b'') (sy_props (?sy tr b0))"
        "decl_providers qt_ref (decls_for qt_ref ''A.b'' (registry_decls qt_ref F)) =
          [\<lparr>pi_plugin = ''contextkit-dbus'', pi_construction = ''session:org.x''\<rparr>]"
    by (auto simp: bind_eq_Some_conv)
  have "list_all app_event client_events" by (simp add: client_events_def)
  from plugins_follow_registry [OF x this _ refl refl _ _ refl refl, of sample_env "''A.b''"] v
  show ?thesis using x by (fastforce simp: list_ex_iff)
qed

end
