(* ===== verification/Spec2Isabelle.thy ===== *)
theory Spec2Isabelle
  imports Typed_Values End_To_End Duration Context_C Update_Registry Context_Ls Logging Cli
    Service_Registry Subscription_Wait Plugin_Bus Registry_Dump Registry_Plugins
begin

text \<open>
  A verification library for ContextKit (Qt, C++): context properties are published by provider
  processes, described by a registry of XML files, and followed by client processes.

  \<^bold>\<open>The program's parts and the theories that model them.\<close>

  The registry and its readers (\<open>src/libcontextsubscriber/src\<close> unless said otherwise):
  \<^item> \<open>Qt_Variant\<close>: \<open>QVariant\<close> as a datatype (\<open>qvariant\<close>), its conversions and comparison.
  \<^item> \<open>Assoc_Tree\<close> (assoctree.cpp), \<open>Nano_Xml\<close> (nanoxml.cpp): association trees and
    the SAX handler that builds them, one definition for each SAX callback.
  \<^item> \<open>Type_Registry\<close> (contexttyperegistryinfo.cpp), \<open>Type_Info\<close> (contexttypeinfo.cpp):
    type definitions with their cache, and types with the recursive \<open>typeCheck\<close>.
  \<^item> \<open>Duration\<close> (duration.cpp).
  \<^item> \<open>Info_Backend\<close> (infobackend.cpp), \<open>Info_Xml\<close> (infoxmlbackend.cpp), \<open>Cdb_File\<close>
    (cdbreader.cpp, cdbwriter.cpp), \<open>Info_Cdb\<close> (infocdbbackend.cpp), \<open>Update_Registry\<close>
    (update-contextkit-providers.cpp): the two backends of the property registry and the tool that
    writes the database from the XML files.
  \<^item> \<open>Property_Info\<close> (contextpropertyinfo.cpp), \<open>Registry_Info\<close> (contextregistryinfo.cpp),
    \<open>Context_Ls\<close> (cls/context-ls.cpp): the clients of a backend.

  The subscriber library:
  \<^item> \<open>Queued_Invoker\<close>, \<open>Name_Listener\<close> (dbusnamelistener.cpp), \<open>Provider_Info\<close>.
  \<^item> \<open>Dbus_Values\<close>, \<open>Subscriber_Iface\<close> (subscriberinterface.cpp) and
    \<open>Dbus_Plugin\<close> (contextkitplugin.cpp): the plugin that talks to providers over D-Bus.
  \<^item> \<open>Provider\<close> (provider.cpp): the queue of subscriptions in front of a plugin.
  \<^item> \<open>Property_System\<close>: propertyhandle.cpp, handlesignalrouter.cpp and
    contextproperty.cpp over the providers, as one state (\<open>sys\<close>) with the step function
    \<open>sy_step\<close>; \<open>Typed_Values\<close>: the type check seen from the application.
  \<^item> \<open>System_Wire\<close>: the providers inside this state, and what their plugins are told over a run;
    \<open>Subscription_Wait\<close>: \<open>waitForSubscription\<close> over the runs of the system; \<open>Plugin_Bus\<close>: the
    D-Bus calls the plugin makes of what it is told.
  \<^item> \<open>Provider_Choice\<close>: which providers a handle uses, over runs with the commander;
    \<open>Registry_Plugins\<close>: a client with its registry backend, from an edited file to what the
    plugins are told.

  The provider library (\<open>src/libcontextprovider/src\<close>):
  \<^item> \<open>Prop_Private\<close>, \<open>Prop_Adaptor\<close>, \<open>Service_Backend\<close> (with service.cpp
    and property.cpp), \<open>Property_Group\<close> (group.cpp, listeners.cpp), \<open>Context_C\<close> (contextc.cpp).
  \<^item> \<open>Service_Registry\<close>: the life of the \<open>Service\<close> objects of a program over the table of
    backends (service.cpp), with every constructor, the destructor and the default service.

  \<open>End_To_End\<close> connects the runs of a provider process, of the plugin and of an application,
  and follows a value from one process to the other.

  The tools: \<open>Command_Reader\<close> (how both command line tools read), \<open>Commander\<close>
  (context-provide), \<open>Cli\<close> (context-listen), and \<open>Logging\<close> (src/common/logging.cpp).
  \<open>Xml_Text\<close> is XML as text, with a reference parser; \<open>Registry_Dump\<close> reads the file that
  context-provide dumps with the registry reader of the subscriber library.

  \<^bold>\<open>How state and operations correspond.\<close> A class is a record whose fields are its members; a
  method or slot is a function from the state to the state and the list of what it emits: signals,
  calls on another object, D-Bus messages, lines of output. Signals between modelled objects that
  the code connects directly are delivered inside the step; queued ones are events of the run. A
  run is a list of events from the initial state, so it covers every interleaving. Counters are
  words of 32 bit, times words of 64 bit, \<open>QMap\<close> an association list in key order,
  \<open>QHash\<close> and \<open>QSet\<close> lists without duplicates. A null dereference, a use of a freed
  pointer or an index out of range is a value: \<open>None\<close>, \<open>PNullDeref\<close>,
  \<open>Crashed\<close>, \<open>CLCrashed\<close>.

  \<^bold>\<open>Interfaces.\<close> The contracts between components are locales, in which their clients' lemmas are
  proved and which the providing components interpret: a level that announces its changes
  (\<open>edge_signal\<close>: the presence of a name, the first and last subscriber) and a queue of deferred
  calls (\<open>once_queue\<close>) in \<open>Interfaces\<close>; the records of a database (\<open>keyed_store\<close>, in
  \<open>Cdb_File\<close>); what every registry backend promises (\<open>info_registry\<close>, in
  \<open>Info_Backend\<close>), and what it promises when it rereads (\<open>rereading\<close>, which extends it, in
  \<open>Registry_Plugins\<close>), both interpreted by both backends.

  \<^bold>\<open>What the lemmas show.\<close> For the subscriber: a key is subscribed at a provider exactly as
  the application's properties say, the plugins follow the application and the registry over whole runs, the D-Bus calls
  follow the plugin, a wait ends when the plugins have answered, the newest value is announced, values are of
  their type, the commander overrides. For the registry: each backend answers what the files say,
  the database answers as the files do, an update reaches the clients. For the provider: a value is
  emitted when and only when it must, subscribers are counted exactly, stopping takes everything
  off the bus, and so does deleting the last service of a backend. For the tools: their commands keep the
  books of subscriptions and overrides, and what the provider tool dumps the registry reads. Behaviour that is not
  what the code or its documentation means is stated by a lemma of its own beside the model.

  \<^bold>\<open>Bounds and fuel.\<close> \<open>typeCheck\<close> takes fuel, since the base types of a registry may form
  a cycle; a theorem of \<open>Type_Info\<close> gives enough fuel where they do not. Walks through
  \<open>hasBase\<close> and \<open>getBase\<close> have the depth the code gives them. Subscribe counts are exact
  while fewer than 2^32 properties are made. A wait takes the events that arrive during it; one
  that outlasts them is reported as still waiting. Everything else is structurally recursive or has a measure.

  \<^bold>\<open>Parameters.\<close> Code outside the repository is an argument: conversions of Qt between
  numbers and strings (\<open>qt_lib\<close>), \<open>QTime\<close>, the XML tokenizer (what it promises for text is
  \<open>conforming\<close>, which \<open>ref_sax\<close> satisfies), the JSON parser, the
  regular expressions of the tools, D-Bus replies and failures, the clock, the files, and the tinycdb library,
  whose documented laws are the hypothesis \<open>cdb_lib_ok\<close>; \<open>cdb_ref\<close> satisfies them.

  \<^bold>\<open>Not modelled.\<close> The wrappers over QtDBus (asyncdbusinterface.cpp,
  safedbuspendingcallwatcher.h) and \<open>sconnect\<close>, which only forward; locks and threads, since every
  event is atomic in the model; the \<open>connectNotify\<close> functions that only warn; help texts and
  debug messages of the tools; the QML, Python and JSON bindings, the sandbox, the build files and the tests.
\<close>

end
